(* ===== verification/Prelude.thy ===== *)
theory Prelude imports Main "HOL-Library.Word" "HOL-Library.AList" begin

text \<open>
  Shared vocabulary of the development: the machine types of the Rust source, the outcome
  of a fallible Rust computation (a value, an error, or a panic), the facts on association
  lists that every component with a \<open>HashMap\<close> uses, and two generic interfaces:
  a transition system with an invariant, and a codec of values into a wire form.
\<close>

section \<open>Machine types\<close>

type_synonym u8 = "8 word"
type_synonym u16 = "16 word"
type_synonym u32 = "32 word"
type_synonym u64 = "64 word"
type_synonym bytes = "u8 list"

text \<open>\<open>str::as_bytes\<close>: a string of the model is the list of its bytes.\<close>

definition as_bytes :: "string \<Rightarrow> bytes" where
  "as_bytes s = map of_char s"

lemma length_as_bytes [simp]: "length (as_bytes s) = length s"
  by (simp add: as_bytes_def)

lemma as_bytes_append: "as_bytes (s @ t) = as_bytes s @ as_bytes t"
  by (simp add: as_bytes_def)

lemma byte_of_char_of: "of_char (char_of n) = (word_of_nat (n mod 256) :: u8)"
proof -
  have "(of_char (char_of n) :: u8) = of_nat (of_char (char_of n))" by (simp only: of_nat_of_char)
  also have "of_char (char_of n) = n mod 256" by simp
  finally show ?thesis .
qed

lemma list_all_take: "list_all P xs \<Longrightarrow> list_all P (take n xs)"
  by (auto simp: list_all_iff dest: in_set_takeD)

section \<open>Outcomes\<close>

text \<open>
  \<open>Result<T, E>\<close> with the third way a Rust call can end: a panic (an \<open>unwrap\<close> of
  an error, a failed assertion, an index out of range). Both build profiles of the crate set
  \<open>panic = "abort"\<close>, so a panic ends the process.
\<close>

datatype ('e, 'a) outcome = Ok 'a | Err 'e | Panic string

fun bind_out :: "('e, 'a) outcome \<Rightarrow> ('a \<Rightarrow> ('e, 'b) outcome) \<Rightarrow> ('e, 'b) outcome" where
  "bind_out (Ok a) f = f a"
| "bind_out (Err e) f = Err e"
| "bind_out (Panic m) f = Panic m"

fun is_panic :: "('e, 'a) outcome \<Rightarrow> bool" where
  "is_panic (Panic m) = True"
| "is_panic _ = False"

fun is_ok :: "('e, 'a) outcome \<Rightarrow> bool" where
  "is_ok (Ok a) = True"
| "is_ok _ = False"

text \<open>\<open>Result::unwrap\<close> and \<open>Option::unwrap\<close>.\<close>

fun unwrap_res :: "('e, 'a) outcome \<Rightarrow> ('f, 'a) outcome" where
  "unwrap_res (Ok a) = Ok a"
| "unwrap_res (Err e) = Panic ''called `Result::unwrap()` on an `Err` value''"
| "unwrap_res (Panic m) = Panic m"

fun unwrap_opt :: "'a option \<Rightarrow> ('e, 'a) outcome" where
  "unwrap_opt (Some a) = Ok a"
| "unwrap_opt None = Panic ''called `Option::unwrap()` on a `None` value''"

lemma bind_out_Ok_iff: "bind_out m f = Ok b \<longleftrightarrow> (\<exists>a. m = Ok a \<and> f a = Ok b)"
  by (cases m) auto

lemma bind_out_assoc: "bind_out (bind_out m f) g = bind_out m (\<lambda>a. bind_out (f a) g)"
  by (cases m) auto

lemma unwrap_opt_Ok_iff [simp]: "unwrap_opt x = Ok a \<longleftrightarrow> x = Some a"
  by (cases x) auto

lemma unwrap_res_Ok_iff [simp]: "unwrap_res x = Ok a \<longleftrightarrow> x = Ok a"
  by (cases x) auto

lemma is_ok_iff: "is_ok m \<longleftrightarrow> (\<exists>a. m = Ok a)"
  by (cases m) auto

lemma bind_unwrap_panic:
  "is_panic (bind_out (unwrap_res m) f) \<longleftrightarrow> \<not> is_ok m \<or> (\<exists>a. m = Ok a \<and> is_panic (f a))"
  by (cases m) auto

section \<open>Stateful computations\<close>

text \<open>
  A method that may fail and changes its state: from the state before to the outcome and the
  state after, which an error or a panic does not undo. \<open>bind_st\<close> is the \<open>?\<close>
  operator: the next statement runs only after \<open>Ok\<close>.
\<close>

type_synonym ('s, 'e, 'a) st = "'s \<Rightarrow> ('e, 'a) outcome \<times> 's"

definition return_st :: "'a \<Rightarrow> ('s, 'e, 'a) st" where
  "return_st a s = (Ok a, s)"

definition lift_st :: "('e, 'a) outcome \<Rightarrow> ('s, 'e, 'a) st" where
  "lift_st r s = (r, s)"

definition bind_st :: "('s, 'e, 'a) st \<Rightarrow> ('a \<Rightarrow> ('s, 'e, 'b) st) \<Rightarrow> ('s, 'e, 'b) st" where
  "bind_st m f s =
     (case m s of
        (Ok a, s') \<Rightarrow> f a s'
      | (Err e, s') \<Rightarrow> (Err e, s')
      | (Panic p, s') \<Rightarrow> (Panic p, s'))"

text \<open>
  Triples for such computations: from a state in \<open>P\<close>, a returned value ends in \<open>Q\<close>
  and every other outcome in \<open>R\<close>.
\<close>

definition hoare ::
  "('s \<Rightarrow> bool) \<Rightarrow> ('s, 'e, 'a) st \<Rightarrow> ('a \<Rightarrow> 's \<Rightarrow> bool) \<Rightarrow> ('s \<Rightarrow> bool) \<Rightarrow> bool" where
  "hoare P m Q R \<longleftrightarrow>
     (\<forall>s. P s \<longrightarrow> (case m s of (Ok a, s') \<Rightarrow> Q a s' | (_, s') \<Rightarrow> R s'))"

lemma hoareI:
  assumes "\<And>s a s'. P s \<Longrightarrow> m s = (Ok a, s') \<Longrightarrow> Q a s'"
    and "\<And>s r s'. P s \<Longrightarrow> m s = (r, s') \<Longrightarrow> \<not> is_ok r \<Longrightarrow> R s'"
  shows "hoare P m Q R"
  unfolding hoare_def using assms by (fastforce split: prod.splits outcome.splits)

lemma hoare_ok: "hoare P m Q R \<Longrightarrow> P s \<Longrightarrow> m s = (Ok a, s') \<Longrightarrow> Q a s'"
  unfolding hoare_def by fastforce

lemma hoare_fail: "hoare P m Q R \<Longrightarrow> P s \<Longrightarrow> m s = (r, s') \<Longrightarrow> \<not> is_ok r \<Longrightarrow> R s'"
  unfolding hoare_def by (cases r) fastforce+

lemma hoare_any:
  "hoare P m (\<lambda>_. R) R \<Longrightarrow> P s \<Longrightarrow> R (snd (m s))"
  unfolding hoare_def by (fastforce split: prod.splits outcome.splits)

lemma hoare_bind:
  assumes "hoare P m M R" and "\<And>a. hoare (M a) (f a) Q R"
  shows "hoare P (bind_st m f) Q R"
  unfolding hoare_def
proof (intro allI impI)
  fix s assume "P s"
  then show "case bind_st m f s of (Ok a, s') \<Rightarrow> Q a s' | (_, s') \<Rightarrow> R s'"
    using assms unfolding hoare_def bind_st_def
    by (cases "m s"; cases "fst (m s)") fastforce+
qed

lemma hoare_weaken:
  assumes "hoare P' m Q' R'" "\<And>s. P s \<Longrightarrow> P' s" "\<And>a s. Q' a s \<Longrightarrow> Q a s" "\<And>s. R' s \<Longrightarrow> R s"
  shows "hoare P m Q R"
  using assms unfolding hoare_def by (fastforce split: prod.splits outcome.splits)

lemma hoare_return: "(\<And>s. P s \<Longrightarrow> Q a s) \<Longrightarrow> hoare P (return_st a) Q R"
  by (simp add: hoare_def return_st_def)

lemma hoare_if_state:
  assumes "hoare (\<lambda>s. P s \<and> C s) m Q R" "hoare (\<lambda>s. P s \<and> \<not> C s) n Q R"
  shows "hoare P (\<lambda>s. if C s then m s else n s) Q R"
  using assms by (simp add: hoare_def)

lemma hoare_fact: "(F \<Longrightarrow> hoare P m Q R) \<Longrightarrow> hoare (\<lambda>s. P s \<and> F) m Q R"
  by (auto simp: hoare_def)

lemma hoare_fact2: "(F \<Longrightarrow> G \<Longrightarrow> hoare P m Q R) \<Longrightarrow> hoare (\<lambda>s. P s \<and> F \<and> G) m Q R"
  by (auto simp: hoare_def)

lemma hoare_lift:
  "(\<And>s a. P s \<Longrightarrow> r = Ok a \<Longrightarrow> Q a s) \<Longrightarrow> (\<And>s. P s \<Longrightarrow> \<not> is_ok r \<Longrightarrow> R s) \<Longrightarrow> hoare P (lift_st r) Q R"
  by (auto simp: hoare_def lift_st_def split: outcome.splits)

section \<open>Association lists for hash maps\<close>

text \<open>
  A \<open>HashMap\<close> is the list of its entries in iteration order, which Rust leaves
  unspecified: theorems hold for every order, and read the map through \<^const>\<open>map_of\<close>.
\<close>

named_theorems alist_simps \<open>reading an association list after an update\<close>

lemma map_of_update [alist_simps]: "map_of (AList.update k v al) = (map_of al)(k \<mapsto> v)"
  by (rule update_conv')

lemma map_of_update_apply [alist_simps]:
  "map_of (AList.update k v al) k' = (if k' = k then Some v else map_of al k')"
  by (simp add: update_conv')

lemma map_of_delete_apply [alist_simps]:
  "map_of (AList.delete k al) k' = (if k' = k then None else map_of al k')"
  by (simp add: delete_conv')

text \<open>\<open>iter_mut\<close> over a map, with a body that may change each value.\<close>

definition map_vals :: "('k \<Rightarrow> 'v \<Rightarrow> 'v) \<Rightarrow> ('k \<times> 'v) list \<Rightarrow> ('k \<times> 'v) list" where
  "map_vals f al = map (\<lambda>(k, v). (k, f k v)) al"

lemma map_of_map_vals [alist_simps]: "map_of (map_vals f al) k = map_option (f k) (map_of al k)"
  by (induction al) (auto simp: map_vals_def)

lemma keys_map_vals [simp]: "map fst (map_vals f al) = map fst al"
  by (induction al) (auto simp: map_vals_def)

section \<open>Transition systems\<close>

text \<open>
  What every stateful component offers: a step function on events and an invariant each step
  keeps. The lift to whole runs is proved once, here.
\<close>

fun run_steps :: "('s \<Rightarrow> 'e \<Rightarrow> 's) \<Rightarrow> 's \<Rightarrow> 'e list \<Rightarrow> 's" where
  "run_steps stp s [] = s"
| "run_steps stp s (e # es) = run_steps stp (stp s e) es"

lemma run_steps_append: "run_steps stp s (xs @ ys) = run_steps stp (run_steps stp s xs) ys"
  by (induction xs arbitrary: s) auto

locale invariant_system =
  fixes stp :: "'s \<Rightarrow> 'e \<Rightarrow> 's"
    and inv :: "'s \<Rightarrow> bool"
  assumes step_keeps: "inv s \<Longrightarrow> inv (stp s e)"
begin

lemma run_keeps: "inv s \<Longrightarrow> inv (run_steps stp s es)"
  by (induction es arbitrary: s) (auto intro: step_keeps)

lemma run_prefix_keeps: "inv s \<Longrightarrow> inv (run_steps stp s (take n es))"
  by (rule run_keeps)

end

section \<open>Codecs\<close>

text \<open>A value written in a wire form that can be read back.\<close>

locale codec =
  fixes enc :: "'a \<Rightarrow> 'w"
    and dec :: "'w \<Rightarrow> 'a option"
  assumes dec_enc: "dec (enc a) = Some a"
begin

lemma enc_inj: "enc a = enc b \<Longrightarrow> a = b"
  by (metis dec_enc option.inject)

lemma enc_eq_iff: "enc a = enc b \<longleftrightarrow> a = b"
  using enc_inj by blast

end

end
