(* ===== verification/Rust_Str.thy ===== *)
theory Rust_Str imports Prelude begin

text \<open>
  The string operations of the Rust standard library that the program calls, on strings as
  lists of bytes: \<open>split\<close>, \<open>splitn(2, _)\<close>, \<open>rsplitn(2, _)\<close>,
  \<open>split_whitespace\<close>, \<open>trim\<close>, \<open>lines\<close>, the unsigned \<open>FromStr\<close>
  instances and the decimal \<open>Display\<close> of integers. White space is the ASCII white
  space: the program's inputs are keywords, numbers, hexadecimal digits and addresses.
\<close>

section \<open>Splitting\<close>

fun split_char :: "char \<Rightarrow> string \<Rightarrow> string list" where
  "split_char c [] = [[]]"
| "split_char c (x # xs) =
     (if x = c then [] # split_char c xs
      else (case split_char c xs of [] \<Rightarrow> [[x]] | p # ps \<Rightarrow> (x # p) # ps))"

fun break_at :: "char \<Rightarrow> string \<Rightarrow> string \<times> string option" where
  "break_at c [] = ([], None)"
| "break_at c (x # xs) =
     (if x = c then ([], Some xs) else (case break_at c xs of (a, b) \<Rightarrow> (x # a, b)))"

definition splitn2 :: "char \<Rightarrow> string \<Rightarrow> string list" where
  "splitn2 c s = (case break_at c s of (a, None) \<Rightarrow> [a] | (a, Some b) \<Rightarrow> [a, b])"

definition rsplitn2 :: "char \<Rightarrow> string \<Rightarrow> string list" where
  "rsplitn2 c s =
     (case break_at c (rev s) of (a, None) \<Rightarrow> [rev a] | (a, Some b) \<Rightarrow> [rev a, rev b])"

lemma split_char_nonempty [simp]: "split_char c s \<noteq> []"
  by (cases s) (auto split: list.splits)

lemma length_split_char: "length (split_char c s) = Suc (count_list s c)"
  by (induction s) (auto split: list.splits)

lemma split_char_no_sep: "c \<notin> set s \<Longrightarrow> split_char c s = [s]"
  by (induction s) auto

lemma split_char_append: "c \<notin> set a \<Longrightarrow> split_char c (a @ c # b) = a # split_char c b"
  by (induction a) auto

lemma split_char_parts: "p \<in> set (split_char c s) \<Longrightarrow> c \<notin> set p"
proof (induction s arbitrary: p)
  case (Cons x xs)
  then show ?case by (cases "split_char c xs") (auto split: if_splits)
qed simp

lemma break_at_None: "break_at c s = (a, None) \<longleftrightarrow> c \<notin> set s \<and> a = s"
proof (induction s arbitrary: a)
  case (Cons x xs)
  show ?case
  proof (cases "break_at c xs")
    case (Pair p q)
    then show ?thesis using Cons.IH [of p] Cons.IH [of xs] by (cases q) auto
  qed
qed auto

lemma break_at_Some: "break_at c s = (a, Some b) \<longleftrightarrow> s = a @ c # b \<and> c \<notin> set a"
proof (induction s arbitrary: a)
  case (Cons x xs)
  show ?case
  proof (cases "break_at c xs")
    case (Pair p q)
    then show ?thesis using Cons.IH [of "tl a"] by (cases a) auto
  qed
qed simp

lemma splitn2_one: "splitn2 c s = [a] \<longleftrightarrow> c \<notin> set s \<and> a = s"
proof (cases "snd (break_at c s)")
  case None
  then have e: "break_at c s = (fst (break_at c s), None)" by (metis prod.collapse)
  then have "c \<notin> set s" "fst (break_at c s) = s" using break_at_None by blast+
  then show ?thesis using e by (auto simp: splitn2_def)
next
  case (Some b)
  then have e: "break_at c s = (fst (break_at c s), Some b)" by (metis prod.collapse)
  then have "splitn2 c s = [fst (break_at c s), b]"
    by (metis (mono_tags, lifting) case_prod_conv option.simps(5) splitn2_def)
  moreover have "c \<in> set s" using e by (metis break_at_Some in_set_conv_decomp)
  ultimately show ?thesis by simp
qed

lemma splitn2_two: "splitn2 c s = [a, b] \<longleftrightarrow> s = a @ c # b \<and> c \<notin> set a"
  using break_at_Some [of c s a b]
  by (auto simp: splitn2_def split: prod.splits option.splits)

lemma rsplitn2_rev: "rsplitn2 c s = map rev (splitn2 c (rev s))"
  by (simp add: rsplitn2_def splitn2_def split: prod.splits option.splits)

lemma rsplitn2_one: "rsplitn2 c s = [a] \<longleftrightarrow> c \<notin> set s \<and> a = s"
proof -
  have "rsplitn2 c s = [a] \<longleftrightarrow> splitn2 c (rev s) = [rev a]"
    by (simp only: rsplitn2_rev map_eq_Cons_conv map_is_Nil_conv) (metis rev_rev_ident)
  then show ?thesis by (simp add: splitn2_one)
qed

lemma rsplitn2_two: "rsplitn2 c s = [a, b] \<longleftrightarrow> s = b @ c # a \<and> c \<notin> set a"
proof -
  have "rsplitn2 c s = [a, b] \<longleftrightarrow> splitn2 c (rev s) = [rev a, rev b]"
    by (simp only: rsplitn2_rev map_eq_Cons_conv map_is_Nil_conv) (metis rev_rev_ident)
  then show ?thesis by (simp add: splitn2_two rev_swap)
qed

lemma rsplitn2_length: "length (rsplitn2 c s) = 1 \<or> length (rsplitn2 c s) = 2"
  by (simp add: rsplitn2_def split: prod.splits option.splits)

section \<open>White space and lines\<close>

definition is_ws :: "char \<Rightarrow> bool" where
  "is_ws c \<longleftrightarrow> c \<in> {CHR 0x09, CHR 0x0A, CHR 0x0B, CHR 0x0C, CHR 0x0D, CHR 0x20}"

fun ws_loop :: "string \<Rightarrow> string \<Rightarrow> string list" where
  "ws_loop cur [] = (if cur = [] then [] else [cur])"
| "ws_loop cur (c # cs) =
     (if is_ws c then (if cur = [] then ws_loop [] cs else cur # ws_loop [] cs)
      else ws_loop (cur @ [c]) cs)"

definition split_whitespace :: "string \<Rightarrow> string list" where
  "split_whitespace s = ws_loop [] s"

definition trim :: "string \<Rightarrow> string" where
  "trim s = rev (dropWhile is_ws (rev (dropWhile is_ws s)))"

definition strip_cr :: "string \<Rightarrow> string" where
  "strip_cr s = (if s \<noteq> [] \<and> last s = CHR 0x0D then butlast s else s)"

fun lines_loop :: "string \<Rightarrow> string \<Rightarrow> string list" where
  "lines_loop cur [] = (if cur = [] then [] else [cur])"
| "lines_loop cur (c # cs) =
     (if c = CHR 0x0A then strip_cr cur # lines_loop [] cs else lines_loop (cur @ [c]) cs)"

definition str_lines :: "string \<Rightarrow> string list" where
  "str_lines s = lines_loop [] s"

abbreviation no_ws :: "string \<Rightarrow> bool" where
  "no_ws w \<equiv> list_all (\<lambda>c. \<not> is_ws c) w"

lemma ws_loop_words:
  "no_ws cur \<Longrightarrow> list_all (\<lambda>w. w \<noteq> [] \<and> no_ws w) (ws_loop cur s)"
  by (induction cur s rule: ws_loop.induct) (simp_all split: if_splits)

lemma split_whitespace_words:
  "w \<in> set (split_whitespace s) \<Longrightarrow> w \<noteq> [] \<and> no_ws w"
  using ws_loop_words [of "[]" s] by (simp add: split_whitespace_def list_all_iff)

lemma lines_loop_line:
  "CHR 0x0A \<notin> set l \<Longrightarrow> lines_loop cur (l @ CHR 0x0A # rest) = strip_cr (cur @ l) # lines_loop [] rest"
  by (induction l arbitrary: cur) auto

text \<open>Appending one more line to a text that ends in a line break, or is empty.\<close>

lemma lines_loop_append:
  "t = [] \<or> last t = CHR 0x0A \<Longrightarrow> (t = [] \<Longrightarrow> cur = []) \<Longrightarrow>
   lines_loop cur (t @ s) = lines_loop cur t @ lines_loop [] s"
proof (induction cur t rule: lines_loop.induct)
  case (2 cur c cs)
  then show ?case by (cases cs) (auto split: if_splits)
qed simp

lemma str_lines_append:
  assumes "t = [] \<or> last t = CHR 0x0A"
  shows "str_lines (t @ s) = str_lines t @ str_lines s"
  using lines_loop_append [OF assms, of "[]" s] by (simp add: str_lines_def)

lemma str_lines_single: "CHR 0x0A \<notin> set l \<Longrightarrow> str_lines (l @ [CHR 0x0A]) = [strip_cr l]"
  using lines_loop_line [of l "[]" "[]"] by (simp add: str_lines_def)

lemma strip_cr_no_ws: "no_ws s \<Longrightarrow> strip_cr s = s"
  by (cases s rule: rev_cases) (auto simp: strip_cr_def is_ws_def)

section \<open>UTF-8\<close>

text \<open>
  \<open>str::from_utf8\<close>: what may follow the first byte of a character, as in the table of
  well-formed byte sequences of the Unicode standard, which the standard library follows. Line breaks
  and carriage returns are characters of one byte, so a text is valid when its lines are.
\<close>

definition continuation :: "u8 \<Rightarrow> bool" where
  "continuation b \<longleftrightarrow> 0x80 \<le> b \<and> b \<le> 0xBF"

definition utf8_rest :: "u8 \<Rightarrow> (u8 \<Rightarrow> bool) list option" where
  "utf8_rest b =
     (if b < 0x80 then Some []
      else if 0xC2 \<le> b \<and> b \<le> 0xDF then Some [continuation]
      else if b = 0xE0 then Some [\<lambda>c. 0xA0 \<le> c \<and> c \<le> 0xBF, continuation]
      else if b = 0xED then Some [\<lambda>c. 0x80 \<le> c \<and> c \<le> 0x9F, continuation]
      else if 0xE1 \<le> b \<and> b \<le> 0xEF then Some [continuation, continuation]
      else if b = 0xF0 then Some [\<lambda>c. 0x90 \<le> c \<and> c \<le> 0xBF, continuation, continuation]
      else if 0xF1 \<le> b \<and> b \<le> 0xF3 then Some [continuation, continuation, continuation]
      else if b = 0xF4 then Some [\<lambda>c. 0x80 \<le> c \<and> c \<le> 0x8F, continuation, continuation]
      else None)"

fun follows :: "(u8 \<Rightarrow> bool) list \<Rightarrow> bytes \<Rightarrow> bytes option" where
  "follows [] bs = Some bs"
| "follows (p # ps) [] = None"
| "follows (p # ps) (b # bs) = (if p b then follows ps bs else None)"

lemma follows_shorter: "follows ps bs = Some r \<Longrightarrow> length r \<le> length bs"
  by (induction ps bs rule: follows.induct) (auto split: if_splits)

function valid_utf8 :: "bytes \<Rightarrow> bool" where
  "valid_utf8 [] \<longleftrightarrow> True"
| "valid_utf8 (b # bs) \<longleftrightarrow>
     (case utf8_rest b of
        None \<Rightarrow> False
      | Some ps \<Rightarrow> (case follows ps bs of None \<Rightarrow> False | Some rest \<Rightarrow> valid_utf8 rest))"
  by pat_completeness auto
termination by (relation "measure length") (auto dest: follows_shorter)

declare valid_utf8.simps(2) [simp del]

lemma valid_utf8_ascii: "list_all (\<lambda>b. b < 0x80) bs \<Longrightarrow> valid_utf8 bs"
  by (induction bs) (simp_all add: valid_utf8.simps utf8_rest_def)

section \<open>Numbers\<close>

definition digit_val :: "char \<Rightarrow> nat option" where
  "digit_val c = (let n = of_char c :: nat in if 48 \<le> n \<and> n \<le> 57 then Some (n - 48) else None)"

fun digits_loop :: "nat \<Rightarrow> nat \<Rightarrow> string \<Rightarrow> nat option" where
  "digits_loop mx acc [] = Some acc"
| "digits_loop mx acc (c # cs) =
     (case digit_val c of
        None \<Rightarrow> None
      | Some d \<Rightarrow> (if acc * 10 + d > mx then None else digits_loop mx (acc * 10 + d) cs))"

text \<open>
  \<open>FromStr\<close> of an unsigned type with largest value \<open>mx\<close>: an optional plus sign,
  then at least one decimal digit, and an error on any other byte and on overflow.
\<close>

fun parse_uint :: "nat \<Rightarrow> string \<Rightarrow> nat option" where
  "parse_uint mx [] = None"
| "parse_uint mx (c # cs) =
     (if c = CHR ''+'' then (if cs = [] then None else digits_loop mx 0 cs)
      else digits_loop mx 0 (c # cs))"

definition parse_u16 :: "string \<Rightarrow> u16 option" where
  "parse_u16 s = map_option of_nat (parse_uint 65535 s)"

definition parse_u32 :: "string \<Rightarrow> u32 option" where
  "parse_u32 s = map_option of_nat (parse_uint 4294967295 s)"

definition parse_u64 :: "string \<Rightarrow> u64 option" where
  "parse_u64 s = map_option of_nat (parse_uint 18446744073709551615 s)"

definition digit_char :: "nat \<Rightarrow> char" where
  "digit_char d = char_of (48 + d)"

fun show_nat :: "nat \<Rightarrow> string" where
  "show_nat n = (if n < 10 then [digit_char n] else show_nat (n div 10) @ [digit_char (n mod 10)])"

declare show_nat.simps [simp del]

lemma digit_val_char [simp]: "d < 10 \<Longrightarrow> digit_val (digit_char d) = Some d"
  by (simp add: digit_val_def digit_char_def Let_def)

lemma digits_loop_bound: "acc \<le> mx \<Longrightarrow> digits_loop mx acc s = Some n \<Longrightarrow> n \<le> mx"
  by (induction mx acc s rule: digits_loop.induct) (auto split: option.splits if_splits)

lemma parse_uint_bound: "parse_uint mx s = Some n \<Longrightarrow> n \<le> mx"
  by (cases s) (auto split: if_splits dest: digits_loop_bound [OF le0] simp del: digits_loop.simps)

lemma digits_loop_append:
  "digits_loop mx acc (s @ t) = Option.bind (digits_loop mx acc s) (\<lambda>a. digits_loop mx a t)"
  by (induction mx acc s rule: digits_loop.induct) (auto split: option.splits)

lemma digits_loop_show: "n \<le> mx \<Longrightarrow> digits_loop mx 0 (show_nat n) = Some n"
proof (induction n rule: less_induct)
  case (less n)
  show ?case
  proof (cases "n < 10")
    case True
    with less.prems show ?thesis by (simp add: show_nat.simps [of n])
  next
    case False
    with less have "digits_loop mx 0 (show_nat (n div 10)) = Some (n div 10)" by simp
    moreover have "n div 10 * 10 + n mod 10 = n" by simp
    ultimately show ?thesis using False less.prems
      by (subst show_nat.simps) (simp add: digits_loop_append)
  qed
qed

lemma show_nat_hd: "\<exists>d cs. show_nat n = digit_char d # cs \<and> d < 10"
proof (induction n rule: less_induct)
  case (less n)
  show ?case
  proof (cases "n < 10")
    case False
    then obtain d cs where "show_nat (n div 10) = digit_char d # cs" "d < 10"
      using less [of "n div 10"] by auto
    with False show ?thesis by (auto simp: show_nat.simps [of n])
  qed (auto simp: show_nat.simps [of n])
qed

lemma digit_char_not_plus: "d < 10 \<Longrightarrow> digit_char d \<noteq> CHR ''+''"
proof
  assume "d < 10" "digit_char d = CHR ''+''"
  then have "digit_val (CHR ''+'') = Some d" using digit_val_char [of d] by simp
  then show False by (simp add: digit_val_def)
qed

text \<open>Printing and parsing an unsigned integer is the identity.\<close>

lemma parse_show_nat: "n \<le> mx \<Longrightarrow> parse_uint mx (show_nat n) = Some n"
  using show_nat_hd [of n] digits_loop_show [of n mx] digit_char_not_plus by fastforce

definition show_u64 :: "u64 \<Rightarrow> string" where
  "show_u64 w = show_nat (unat w)"

lemma parse_show_u64: "parse_u64 (show_u64 w) = Some w"
  using unsigned_less [of w, where 'a = nat] by (simp add: parse_u64_def show_u64_def parse_show_nat)

text \<open>The decimal text of a 64-bit amount is a codec.\<close>

interpretation u64_text: codec show_u64 parse_u64
  by unfold_locales (rule parse_show_u64)

lemma show_u64_inj: "show_u64 a = show_u64 b \<Longrightarrow> a = b"
  by (rule u64_text.enc_inj)

end
