(* ===== verification/Fs.thy ===== *)
theory Fs imports Rust_Str begin

text \<open>
  The file system as the source uses it through \<open>std::path\<close> and \<open>std::fs\<close>:
  path operations on components, a tree of directories and files with inodes, one operation per
  system call, and what a power loss may leave on the disk. Directory entries and file contents
  are volatile until the directory or the file is synced, as POSIX says; before that a crash
  keeps any of the values an entry had since the last sync, and any contents of an unsynced
  file. Symbolic links, permissions and special files are not modelled; any operation may fail
  with any error, by the fault list of the disk.
\<close>

section \<open>Paths\<close>

type_synonym path = "string list"

text \<open>\<open>Path::components\<close> of a relative piece: empty and \<open>.\<close> components vanish.\<close>

definition components :: "string \<Rightarrow> path" where
  "components s = filter (\<lambda>c. c \<noteq> [] \<and> c \<noteq> ''.'') (split_char CHR ''/'' s)"

definition path_push :: "path \<Rightarrow> string \<Rightarrow> path" where
  "path_push p s = (if s \<noteq> [] \<and> hd s = CHR ''/'' then components s else p @ components s)"

definition path_parent :: "path \<Rightarrow> path option" where
  "path_parent p = (if p = [] then None else Some (butlast p))"

text \<open>The split of a file name into stem and extension, as in \<open>std::path\<close>.\<close>

definition name_split :: "string \<Rightarrow> string \<times> string option" where
  "name_split name =
     (if name = ''..'' then (name, None)
      else (case rsplitn2 CHR ''.'' name of
              [after, before] \<Rightarrow> if before = [] then (name, None) else (before, Some after)
            | _ \<Rightarrow> (name, None)))"

definition path_extension :: "path \<Rightarrow> string option" where
  "path_extension p = (if p = [] then None else snd (name_split (last p)))"

definition set_extension :: "path \<Rightarrow> string \<Rightarrow> path" where
  "set_extension p ext =
     (if p = [] then p
      else butlast p @ [fst (name_split (last p)) @ (if ext = [] then [] else CHR ''.'' # ext)])"

definition strip_prefix :: "path \<Rightarrow> path \<Rightarrow> path option" where
  "strip_prefix base p = (if take (length base) p = base then Some (drop (length base) p) else None)"

fun path_str :: "path \<Rightarrow> string" where
  "path_str [] = []"
| "path_str [c] = c"
| "path_str (c # cs) = c @ CHR ''/'' # path_str cs"

section \<open>Trees, inodes and what is durable\<close>

datatype io_error =
    NotFound
  | IsADirectory
  | NotADirectory
  | InvalidInput
  | UnexpectedEof
  | OtherError string

datatype node = Dir | File nat

record fs =
  ents :: "(path \<times> node) list"
  durable :: "(path \<times> node) list"
  pending :: "(path \<times> node option) list"
  contents :: "(nat \<times> bytes) list"
  unsynced :: "nat list"
  next_ino :: nat

text \<open>The working directory (the empty path) always exists.\<close>

definition lookup :: "fs \<Rightarrow> path \<Rightarrow> node option" where
  "lookup f p = (if p = [] then Some Dir else map_of (ents f) p)"

definition data_of :: "fs \<Rightarrow> nat \<Rightarrow> bytes" where
  "data_of f i = (case map_of (contents f) i of None \<Rightarrow> [] | Some b \<Rightarrow> b)"

definition content_at :: "fs \<Rightarrow> path \<Rightarrow> bytes option" where
  "content_at f p = (case lookup f p of Some (File i) \<Rightarrow> Some (data_of f i) | _ \<Rightarrow> None)"

definition put_ent :: "path \<Rightarrow> node \<Rightarrow> fs \<Rightarrow> fs" where
  "put_ent p n f = f\<lparr>ents := AList.update p n (ents f), pending := (p, Some n) # pending f\<rparr>"

definition drop_ent :: "path \<Rightarrow> fs \<Rightarrow> fs" where
  "drop_ent p f = f\<lparr>ents := AList.delete p (ents f), pending := (p, None) # pending f\<rparr>"

definition put_data :: "nat \<Rightarrow> bytes \<Rightarrow> fs \<Rightarrow> fs" where
  "put_data i b f = f\<lparr>contents := AList.update i b (contents f), unsynced := i # unsynced f\<rparr>"

section \<open>System calls\<close>

type_synonym 'a syscall = "fs \<Rightarrow> (io_error, 'a) outcome \<times> fs"

text \<open>The parent must be a directory before an entry can be made in it.\<close>

definition parent_dir :: "fs \<Rightarrow> path \<Rightarrow> (io_error, unit) outcome" where
  "parent_dir f p =
     (case lookup f (butlast p) of
        Some Dir \<Rightarrow> Ok ()
      | Some (File i) \<Rightarrow> Err NotADirectory
      | None \<Rightarrow> Err NotFound)"

definition new_file :: "path \<Rightarrow> nat syscall" where
  "new_file p f =
     (let i = next_ino f
      in (Ok i, put_ent p (File i) (put_data i [] (f\<lparr>next_ino := Suc i\<rparr>))))"

text \<open>\<open>File::create\<close>: truncate the file, or make it. The result is the handle's inode.\<close>

definition fs_create :: "path \<Rightarrow> nat syscall" where
  "fs_create p f =
     (case parent_dir f p of
        Ok _ \<Rightarrow>
          (case lookup f p of
             Some Dir \<Rightarrow> (Err IsADirectory, f)
           | Some (File i) \<Rightarrow> (Ok i, put_data i [] f)
           | None \<Rightarrow> new_file p f)
      | Err e \<Rightarrow> (Err e, f)
      | Panic m \<Rightarrow> (Panic m, f))"

text \<open>\<open>OpenOptions::new().create(true).append(true).open(p)\<close>.\<close>

definition fs_open_append :: "path \<Rightarrow> nat syscall" where
  "fs_open_append p f =
     (case parent_dir f p of
        Ok _ \<Rightarrow>
          (case lookup f p of
             Some Dir \<Rightarrow> (Err IsADirectory, f)
           | Some (File i) \<Rightarrow> (Ok i, f)
           | None \<Rightarrow> new_file p f)
      | Err e \<Rightarrow> (Err e, f)
      | Panic m \<Rightarrow> (Panic m, f))"

definition fs_write :: "nat \<Rightarrow> bytes \<Rightarrow> unit syscall" where
  "fs_write i buf f = (Ok (), put_data i (data_of f i @ buf) f)"

definition fs_sync :: "nat \<Rightarrow> unit syscall" where
  "fs_sync i f = (Ok (), f\<lparr>unsynced := removeAll i (unsynced f)\<rparr>)"

text \<open>Opening for reading and syncing a directory.\<close>

definition fs_open :: "path \<Rightarrow> node syscall" where
  "fs_open p f = (case lookup f p of None \<Rightarrow> (Err NotFound, f) | Some n \<Rightarrow> (Ok n, f))"

definition fs_sync_dir :: "path \<Rightarrow> unit syscall" where
  "fs_sync_dir d f =
     (Ok (), f\<lparr>durable := filter (\<lambda>(p, n). butlast p \<noteq> d) (durable f) @
                         filter (\<lambda>(p, n). butlast p = d) (ents f),
              pending := filter (\<lambda>(p, v). butlast p \<noteq> d) (pending f)\<rparr>)"

text \<open>\<open>fs::rename\<close> of a file, over an existing file or a free name.\<close>

definition fs_rename :: "path \<Rightarrow> path \<Rightarrow> unit syscall" where
  "fs_rename p q f =
     (case lookup f p of
        None \<Rightarrow> (Err NotFound, f)
      | Some Dir \<Rightarrow> (Err (OtherError ''rename of a directory''), f)
      | Some (File i) \<Rightarrow>
          (case parent_dir f q of
             Ok _ \<Rightarrow>
               (if lookup f q = Some Dir then (Err IsADirectory, f)
                else if p = q then (Ok (), f)
                else (Ok (), put_ent q (File i) (drop_ent p f)))
           | Err e \<Rightarrow> (Err e, f)
           | Panic m \<Rightarrow> (Panic m, f)))"

definition fs_unlink :: "path \<Rightarrow> unit syscall" where
  "fs_unlink p f =
     (case lookup f p of
        None \<Rightarrow> (Err NotFound, f)
      | Some Dir \<Rightarrow> (Err IsADirectory, f)
      | Some (File i) \<Rightarrow> (Ok (), drop_ent p f))"

definition fs_mkdir :: "path \<Rightarrow> unit syscall" where
  "fs_mkdir p f = (Ok (), put_ent p Dir f)"

definition fs_read :: "path \<Rightarrow> bytes syscall" where
  "fs_read p f =
     (case lookup f p of
        None \<Rightarrow> (Err NotFound, f)
      | Some Dir \<Rightarrow> (Err IsADirectory, f)
      | Some (File i) \<Rightarrow> (Ok (data_of f i), f))"

definition children :: "fs \<Rightarrow> path \<Rightarrow> path list" where
  "children f d = filter (\<lambda>p. p \<noteq> [] \<and> butlast p = d) (map fst (ents f))"

definition fs_read_dir :: "path \<Rightarrow> path list syscall" where
  "fs_read_dir d f =
     (case lookup f d of
        None \<Rightarrow> (Err NotFound, f)
      | Some (File i) \<Rightarrow> (Err NotADirectory, f)
      | Some Dir \<Rightarrow> (Ok (children f d), f))"

section \<open>The disk\<close>

text \<open>
  A disk is the current tree, a list that says which of the coming system calls fail (and, for a
  write, after how many bytes), and the trees after each system call so far, newest first: at
  each of them the power can fail.
\<close>

record disk =
  cur :: fs
  faults :: "(io_error \<times> nat) option list"
  hist :: "fs list"

type_synonym 'a io = "(disk, io_error, 'a) st"

definition next_fault :: "disk \<Rightarrow> (io_error \<times> nat) option" where
  "next_fault d = (case faults d of [] \<Rightarrow> None | x # xs \<Rightarrow> x)"

definition perform :: "'a syscall \<Rightarrow> 'a io" where
  "perform c d =
     (case c (cur d) of
        (r, f) \<Rightarrow> (r, d\<lparr>cur := f, faults := tl (faults d), hist := f # hist d\<rparr>))"

definition sys :: "'a syscall \<Rightarrow> 'a io" where
  "sys c d =
     (case next_fault d of
        Some (e, n) \<Rightarrow> (Err e, d\<lparr>faults := tl (faults d)\<rparr>)
      | None \<Rightarrow> perform c d)"

text \<open>\<open>write_all\<close>: on a fault, some prefix of the bytes is already in the file.\<close>

definition sys_write :: "nat \<Rightarrow> bytes \<Rightarrow> unit io" where
  "sys_write i buf d =
     (case next_fault d of
        Some (e, n) \<Rightarrow> (Err e, snd (perform (fs_write i (take n buf)) d))
      | None \<Rightarrow> perform (fs_write i buf) d)"

text \<open>
  \<open>Path::is_file\<close> and \<open>Path::exists\<close> ask for the metadata and turn every error into
  \<open>false\<close>, so a call that fails is taken for an absent file.
\<close>

definition fs_stat :: "path \<Rightarrow> node syscall" where
  "fs_stat p f = (case lookup f p of None \<Rightarrow> (Err NotFound, f) | Some n \<Rightarrow> (Ok n, f))"

definition path_is_file :: "path \<Rightarrow> bool io" where
  "path_is_file p d = (case sys (fs_stat p) d of (Ok (File i), d') \<Rightarrow> (Ok True, d') | (_, d') \<Rightarrow> (Ok False, d'))"

definition path_exists :: "path \<Rightarrow> bool io" where
  "path_exists p d = (case sys (fs_stat p) d of (r, d') \<Rightarrow> (Ok (is_ok r), d'))"

text \<open>\<open>fs::create_dir_all\<close>: the missing directories, outermost first.\<close>

fun create_dirs :: "path \<Rightarrow> path \<Rightarrow> unit io" where
  "create_dirs pre [] d = (Ok (), d)"
| "create_dirs pre (c # cs) d =
     (case lookup (cur d) (pre @ [c]) of
        Some Dir \<Rightarrow> create_dirs (pre @ [c]) cs d
      | Some (File i) \<Rightarrow> (Err NotADirectory, d)
      | None \<Rightarrow>
          (case sys (fs_mkdir (pre @ [c])) d of
             (Ok _, d') \<Rightarrow> create_dirs (pre @ [c]) cs d'
           | (Err e, d') \<Rightarrow> (Err e, d')
           | (Panic m, d') \<Rightarrow> (Panic m, d')))"

definition create_dir_all :: "path \<Rightarrow> unit io" where
  "create_dir_all p = create_dirs [] p"

section \<open>Power loss\<close>

definition possible_ent :: "fs \<Rightarrow> path \<Rightarrow> node option \<Rightarrow> bool" where
  "possible_ent f p v \<longleftrightarrow> v = map_of (durable f) p \<or> (p, v) \<in> set (pending f)"

definition possible_data :: "fs \<Rightarrow> nat \<Rightarrow> bytes \<Rightarrow> bool" where
  "possible_data f i b \<longleftrightarrow> i \<in> set (unsynced f) \<or> b = data_of f i"

definition ancestors :: "path \<Rightarrow> path list" where
  "ancestors p = map (\<lambda>n. take n p) [1..<length p]"

text \<open>
  \<open>crash_read f p r\<close>: after a power loss in tree \<open>f\<close>, reading \<open>p\<close> may give
  the bytes \<open>r\<close>, or find no file.
\<close>

definition crash_read :: "fs \<Rightarrow> path \<Rightarrow> bytes option \<Rightarrow> bool" where
  "crash_read f p r \<longleftrightarrow>
     (case r of
        Some b \<Rightarrow>
          list_all (\<lambda>a. possible_ent f a (Some Dir)) (ancestors p) \<and>
          (\<exists>i. possible_ent f p (Some (File i)) \<and> possible_data f i b)
      | None \<Rightarrow>
          list_ex (\<lambda>a. \<exists>v. possible_ent f a v \<and> v \<noteq> Some Dir) (ancestors p) \<or>
          (\<exists>v. possible_ent f p v \<and> (\<forall>i. v \<noteq> Some (File i))))"

section \<open>Facts on the primitive updates\<close>

named_theorems fs_simps \<open>reading a tree after a primitive update\<close>

lemma lookup_root [simp]: "lookup f [] = Some Dir"
  by (simp add: lookup_def)

lemma lookup_put_ent [fs_simps]:
  "p \<noteq> [] \<Longrightarrow> lookup (put_ent p n f) q = (if q = p then Some n else lookup f q)"
  by (auto simp: lookup_def put_ent_def alist_simps)

lemma lookup_drop_ent [fs_simps]:
  "p \<noteq> [] \<Longrightarrow> lookup (drop_ent p f) q = (if q = p then None else lookup f q)"
  by (auto simp: lookup_def drop_ent_def alist_simps)

lemma lookup_put_data [fs_simps]: "lookup (put_data i b f) q = lookup f q"
  by (simp add: lookup_def put_data_def)

lemma lookup_next_ino [fs_simps]: "lookup (f\<lparr>next_ino := k\<rparr>) q = lookup f q"
  by (simp add: lookup_def)

lemma lookup_unsynced [fs_simps]: "lookup (f\<lparr>unsynced := u\<rparr>) q = lookup f q"
  by (simp add: lookup_def)

lemma lookup_durable [fs_simps]: "lookup (f\<lparr>durable := x, pending := y\<rparr>) q = lookup f q"
  by (simp add: lookup_def)

lemma data_of_put_data [fs_simps]: "data_of (put_data i b f) j = (if j = i then b else data_of f j)"
  by (simp add: data_of_def put_data_def alist_simps)

lemma data_of_other [fs_simps]:
  "data_of (put_ent p n f) j = data_of f j" "data_of (drop_ent p f) j = data_of f j"
  "data_of (f\<lparr>next_ino := k\<rparr>) j = data_of f j" "data_of (f\<lparr>unsynced := u\<rparr>) j = data_of f j"
  "data_of (f\<lparr>durable := x, pending := y\<rparr>) j = data_of f j"
  by (simp_all add: data_of_def put_ent_def drop_ent_def)

lemma fields_simps [fs_simps]:
  "next_ino (put_ent p n f) = next_ino f" "next_ino (drop_ent p f) = next_ino f"
  "next_ino (put_data i b f) = next_ino f"
  "durable (put_ent p n f) = durable f" "durable (drop_ent p f) = durable f"
  "durable (put_data i b f) = durable f"
  "pending (put_ent p n f) = (p, Some n) # pending f" "pending (drop_ent p f) = (p, None) # pending f"
  "pending (put_data i b f) = pending f"
  "unsynced (put_ent p n f) = unsynced f" "unsynced (drop_ent p f) = unsynced f"
  "unsynced (put_data i b f) = i # unsynced f"
  by (simp_all add: put_ent_def drop_ent_def put_data_def)

section \<open>Well-formed trees\<close>

text \<open>
  Inodes are below the next free one, each belongs to one name (no hard links), and a name has
  one entry.
\<close>

definition fs_wf :: "fs \<Rightarrow> bool" where
  "fs_wf f \<longleftrightarrow>
     (\<forall>p i. lookup f p = Some (File i) \<longrightarrow> i < next_ino f) \<and>
     (\<forall>p q i. lookup f p = Some (File i) \<longrightarrow> lookup f q = Some (File i) \<longrightarrow> p = q) \<and>
     distinct (map fst (ents f))"

lemma fs_wf_bound: "fs_wf f \<Longrightarrow> lookup f p = Some (File i) \<Longrightarrow> i < next_ino f"
  by (auto simp: fs_wf_def)

lemma fs_wf_inj: "fs_wf f \<Longrightarrow> lookup f p = Some (File i) \<Longrightarrow> lookup f q = Some (File i) \<Longrightarrow> p = q"
  by (auto simp: fs_wf_def)

lemma fs_wf_cong:
  "ents f' = ents f \<Longrightarrow> next_ino f' = next_ino f \<Longrightarrow> fs_wf f' = fs_wf f"
  by (simp add: fs_wf_def lookup_def)

lemma distinct_ents [fs_simps]:
  "distinct (map fst (ents f)) \<Longrightarrow> distinct (map fst (ents (put_ent p n f)))"
  "distinct (map fst (ents f)) \<Longrightarrow> distinct (map fst (ents (drop_ent p f)))"
  "ents (put_data i b f) = ents f"
  by (simp_all add: put_ent_def drop_ent_def put_data_def distinct_update distinct_delete)

lemma fs_wf_mkdir: "fs_wf f \<Longrightarrow> p \<noteq> [] \<Longrightarrow> fs_wf (put_ent p Dir f)"
  by (auto simp: fs_wf_def fs_simps)

lemma fs_wf_put_data: "fs_wf (put_data i b f) = fs_wf f"
  by (simp add: fs_wf_def fs_simps)

lemma fs_wf_drop: "fs_wf f \<Longrightarrow> p \<noteq> [] \<Longrightarrow> fs_wf (drop_ent p f)"
  by (auto simp: fs_wf_def fs_simps)

lemma fs_wf_new:
  "fs_wf f \<Longrightarrow> p \<noteq> [] \<Longrightarrow> fs_wf (put_ent p (File (next_ino f)) (put_data (next_ino f) b (f\<lparr>next_ino := Suc (next_ino f)\<rparr>)))"
  by (fastforce simp: fs_wf_def fs_simps less_Suc_eq)

text \<open>What a system call that returned a handle on a file has done.\<close>

lemma parent_dir_not_panic: "parent_dir f p \<noteq> Panic m"
  by (simp add: parent_dir_def split: option.splits node.splits)

lemma fs_create_Ok:
  assumes "fs_wf f" "fs_create p f = (Ok i, f')"
  shows "fs_wf f'" "p \<noteq> []" "lookup f' p = Some (File i)" "data_of f' i = []"
    "q \<noteq> p \<Longrightarrow> lookup f' q = lookup f q" "q \<noteq> p \<Longrightarrow> lookup f q \<noteq> Some (File i)"
    "j \<noteq> i \<Longrightarrow> data_of f' j = data_of f j" "durable f' = durable f"
    "q \<noteq> p \<Longrightarrow> (q, v) \<in> set (pending f') \<longleftrightarrow> (q, v) \<in> set (pending f)"
    "unsynced f' = i # unsynced f"
proof -
  have p: "p \<noteq> []" using assms(2) by (auto simp: fs_create_def parent_dir_def)
  have cases: "lookup f p = Some (File i) \<and> f' = put_data i [] f \<or>
      lookup f p = None \<and> i = next_ino f \<and>
      f' = put_ent p (File i) (put_data i [] (f\<lparr>next_ino := Suc i\<rparr>))"
    using assms(2)
    by (auto simp: fs_create_def new_file_def Let_def split: outcome.splits option.splits node.splits)
  show "p \<noteq> []" by (rule p)
  show "fs_wf f'" using cases
  proof
    assume "lookup f p = Some (File i) \<and> f' = put_data i [] f"
    then show ?thesis using assms(1) by (simp add: fs_wf_put_data)
  next
    assume "lookup f p = None \<and> i = next_ino f \<and>
      f' = put_ent p (File i) (put_data i [] (f\<lparr>next_ino := Suc i\<rparr>))"
    then show ?thesis using assms(1) p by (simp add: fs_wf_new)
  qed
  show "q \<noteq> p \<Longrightarrow> lookup f q \<noteq> Some (File i)"
    using cases assms(1) by (auto simp: fs_wf_def)
  show "lookup f' p = Some (File i)" "data_of f' i = []" "q \<noteq> p \<Longrightarrow> lookup f' q = lookup f q"
    "j \<noteq> i \<Longrightarrow> data_of f' j = data_of f j" "durable f' = durable f"
    "q \<noteq> p \<Longrightarrow> (q, v) \<in> set (pending f') \<longleftrightarrow> (q, v) \<in> set (pending f)"
    "unsynced f' = i # unsynced f"
    using cases p by (auto simp: fs_simps)
qed

lemma fs_create_fail: "fs_create p f = (r, f') \<Longrightarrow> \<not> is_ok r \<Longrightarrow> f' = f"
  by (auto simp: fs_create_def new_file_def Let_def split: outcome.splits option.splits node.splits)

lemma fs_rename_Ok:
  assumes "fs_rename p q f = (Ok u, f')" "p \<noteq> q" "q \<noteq> []"
  obtains i where "lookup f p = Some (File i)" "lookup f q \<noteq> Some Dir"
    "lookup f (butlast q) = Some Dir" "f' = put_ent q (File i) (drop_ent p f)"
  using assms
  by (auto simp: fs_rename_def parent_dir_def split: outcome.splits option.splits node.splits if_splits)

lemma fs_rename_fail: "fs_rename p q f = (r, f') \<Longrightarrow> \<not> is_ok r \<Longrightarrow> f' = f"
  by (auto simp: fs_rename_def is_ok_iff split: outcome.splits option.splits node.splits if_splits)

lemma fs_wf_rename:
  assumes "fs_wf f" "lookup f p = Some (File i)" "p \<noteq> []" "q \<noteq> []"
  shows "fs_wf (put_ent q (File i) (drop_ent p f))"
  using assms by (auto simp: fs_wf_def fs_simps)

lemma content_at_rename:
  assumes "lookup f p = Some (File i)" "p \<noteq> []" "q \<noteq> []" "r \<noteq> p"
  shows "content_at (put_ent q (File i) (drop_ent p f)) r =
         (if r = q then Some (data_of f i) else content_at f r)"
  using assms by (auto simp: content_at_def fs_simps split: option.splits node.splits)

lemma content_at_cong:
  assumes "lookup f' p = lookup f p" "\<And>i. lookup f p = Some (File i) \<Longrightarrow> data_of f' i = data_of f i"
  shows "content_at f' p = content_at f p"
  using assms by (auto simp: content_at_def split: option.splits node.splits)

section \<open>Triples for the disk\<close>

lemma hoare_sys:
  assumes "\<And>d r f'. P d \<Longrightarrow> c (cur d) = (r, f') \<Longrightarrow>
      (case r of Ok a \<Rightarrow> Q a (d\<lparr>cur := f', faults := tl (faults d), hist := f' # hist d\<rparr>)
               | _ \<Rightarrow> R (d\<lparr>cur := f', faults := tl (faults d), hist := f' # hist d\<rparr>))"
    and "\<And>d. P d \<Longrightarrow> R (d\<lparr>faults := tl (faults d)\<rparr>)"
  shows "hoare P (sys c) Q R"
  unfolding hoare_def
proof (intro allI impI)
  fix d assume P: "P d"
  show "case sys c d of (Ok a, s') \<Rightarrow> Q a s' | (_, s') \<Rightarrow> R s'"
  proof (cases "next_fault d")
    case None
    obtain r f' where "c (cur d) = (r, f')" by (cases "c (cur d)")
    with assms(1) [OF P this] None show ?thesis
      by (cases r) (simp_all add: sys_def perform_def)
  next
    case (Some x)
    with assms(2) [OF P] show ?thesis by (cases x) (simp add: sys_def)
  qed
qed

end
