(* ===== verification/Fs_Store.thy ===== *)
theory Fs_Store imports Fs begin

text \<open>
  \<open>src/src/filesystem_store.rs\<close>: the key-value store on the file system that holds the
  node's channel monitors, channel manager, sweeper and payment tables. Each method is the
  sequence of system calls of the source, with its early returns, the table of per-file locks
  with their reference counts, the two counters, and both build profiles of
  \<open>debug_assert!\<close>. The alphabet and the length limit of keys belong to
  \<open>lightning::util::persist\<close> and are fields of the configuration.
\<close>

section \<open>State\<close>

record config =
  data_dir :: path
  alphabet :: string
  key_max_len :: nat
  debug_assertions :: bool

record kvstore =
  cfg :: config
  tmp_file_counter :: u64
  gc_counter :: u64
  locks :: "(path \<times> nat) list"
  dsk :: disk

type_synonym 'a store_op = "(kvstore, io_error, 'a) st"

definition store_new :: "config \<Rightarrow> disk \<Rightarrow> kvstore" where
  "store_new c d = \<lparr>cfg = c, tmp_file_counter = 0, gc_counter = 1, locks = [], dsk = d\<rparr>"

definition get_data_dir :: "kvstore \<Rightarrow> path" where
  "get_data_dir s = data_dir (cfg s)"

definition GC_LOCK_INTERVAL :: nat where
  "GC_LOCK_INTERVAL = 25"

text \<open>
  A lock entry is the strong count of its \<open>Arc\<close>: one for the map, one for each holder.
\<close>

definition garbage_collect_locks :: "kvstore \<Rightarrow> kvstore" where
  "garbage_collect_locks s =
     (let old = gc_counter s;
          s = s\<lparr>gc_counter := old + 1\<rparr>
      in if unat old mod GC_LOCK_INTERVAL = 0
         then s\<lparr>locks := filter (\<lambda>(_, v). v > 1) (locks s)\<rparr>
         else s)"

definition acquire :: "path \<Rightarrow> kvstore \<Rightarrow> kvstore" where
  "acquire p s =
     (let n = (case map_of (locks s) p of None \<Rightarrow> 1 | Some n \<Rightarrow> n)
      in s\<lparr>locks := AList.update p (Suc n) (locks s)\<rparr>)"

definition release :: "path \<Rightarrow> kvstore \<Rightarrow> kvstore" where
  "release p s =
     (case map_of (locks s) p of
        None \<Rightarrow> s
      | Some n \<Rightarrow> s\<lparr>locks := AList.update p (n - 1) (locks s)\<rparr>)"

text \<open>The block that clones the entry's \<open>Arc\<close>, takes its lock and drops both at its end.\<close>

definition with_lock :: "path \<Rightarrow> 'a store_op \<Rightarrow> 'a store_op" where
  "with_lock p m s = (case m (acquire p s) of (r, s') \<Rightarrow> (r, release p s'))"

definition on_disk :: "'a io \<Rightarrow> 'a store_op" where
  "on_disk m s = (case m (dsk s) of (r, d) \<Rightarrow> (r, s\<lparr>dsk := d\<rparr>))"

definition gc_st :: "unit store_op" where
  "gc_st s = (Ok (), garbage_collect_locks s)"

section \<open>Names\<close>

definition get_dest_dir_path :: "kvstore \<Rightarrow> string \<Rightarrow> string \<Rightarrow> path" where
  "get_dest_dir_path s primary_namespace secondary_namespace =
     (let p = path_push (data_dir (cfg s)) primary_namespace
      in if secondary_namespace \<noteq> [] then path_push p secondary_namespace else p)"

definition is_valid_kvstore_str :: "config \<Rightarrow> string \<Rightarrow> bool" where
  "is_valid_kvstore_str c key \<longleftrightarrow>
     length key \<le> key_max_len c \<and> list_all (\<lambda>x. x \<in> set (alphabet c)) key"

definition invalid :: "config \<Rightarrow> string \<Rightarrow> (io_error, 'a) outcome" where
  "invalid c msg = (if debug_assertions c then Panic msg else Err (OtherError msg))"

definition check_namespace_key_validity ::
  "config \<Rightarrow> string \<Rightarrow> string \<Rightarrow> string option \<Rightarrow> (io_error, unit) outcome" where
  "check_namespace_key_validity c primary_namespace secondary_namespace key =
     (case key of
        Some key \<Rightarrow>
          if key = [] then invalid c ''key may not be empty.''
          else if primary_namespace = [] \<and> secondary_namespace \<noteq> []
          then invalid c ''primary namespace may not be empty if a non-empty secondary namespace is given.''
          else if \<not> is_valid_kvstore_str c primary_namespace \<or>
                  \<not> is_valid_kvstore_str c secondary_namespace \<or> \<not> is_valid_kvstore_str c key
          then invalid c ''primary namespace, secondary namespace, and key must be valid.''
          else Ok ()
      | None \<Rightarrow>
          if primary_namespace = [] \<and> secondary_namespace \<noteq> []
          then invalid c ''primary namespace may not be empty if a non-empty secondary namespace is given.''
          else if \<not> is_valid_kvstore_str c primary_namespace \<or>
                  \<not> is_valid_kvstore_str c secondary_namespace
          then invalid c ''primary namespace and secondary namespace must be valid.''
          else Ok ())"

definition check_st :: "string \<Rightarrow> string \<Rightarrow> string option \<Rightarrow> unit store_op" where
  "check_st prim sec key s = (check_namespace_key_validity (cfg s) prim sec key, s)"

definition dest_file_path :: "kvstore \<Rightarrow> string \<Rightarrow> string \<Rightarrow> string \<Rightarrow> path" where
  "dest_file_path s prim sec key = path_push (get_dest_dir_path s prim sec) key"

definition dest_st :: "string \<Rightarrow> string \<Rightarrow> string \<Rightarrow> path store_op" where
  "dest_st prim sec key s = (Ok (dest_file_path s prim sec key), s)"

text \<open>\<open>dest_file_path.parent().ok_or_else(..)\<close>.\<close>

definition parent_st :: "path \<Rightarrow> path store_op" where
  "parent_st p s =
     (case path_parent p of
        Some d \<Rightarrow> (Ok d, s)
      | None \<Rightarrow> (Err InvalidInput, s))"

section \<open>Read\<close>

definition kv_read :: "string \<Rightarrow> string \<Rightarrow> string \<Rightarrow> bytes store_op" where
  "kv_read prim sec key =
     bind_st (check_st prim sec (Some key)) (\<lambda>_.
     bind_st (dest_st prim sec key) (\<lambda>dest.
     bind_st
       (with_lock dest
         (bind_st (on_disk (sys (fs_open dest))) (\<lambda>_.
          on_disk (sys (fs_read dest))))) (\<lambda>buf.
     bind_st gc_st (\<lambda>_.
     return_st buf))))"

section \<open>Write\<close>

text \<open>\<open>set_extension(format!("{}.tmp", self.tmp_file_counter.fetch_add(1, _)))\<close>.\<close>

definition tmp_path_st :: "path \<Rightarrow> path store_op" where
  "tmp_path_st dest s =
     (let n = tmp_file_counter s
      in (Ok (set_extension dest (show_u64 n @ ''.tmp'')), s\<lparr>tmp_file_counter := n + 1\<rparr>))"

definition write_tmp :: "path \<Rightarrow> bytes \<Rightarrow> unit store_op" where
  "write_tmp tmp buf =
     bind_st (on_disk (sys (fs_create tmp))) (\<lambda>fd.
     bind_st (on_disk (sys_write fd buf)) (\<lambda>_.
     on_disk (sys (fs_sync fd))))"

definition publish :: "path \<Rightarrow> path \<Rightarrow> path \<Rightarrow> unit store_op" where
  "publish tmp dest parent =
     bind_st (on_disk (sys (fs_rename tmp dest))) (\<lambda>_.
     bind_st (on_disk (sys (fs_open parent))) (\<lambda>_.
     on_disk (sys (fs_sync_dir parent))))"

definition kv_write :: "string \<Rightarrow> string \<Rightarrow> string \<Rightarrow> bytes \<Rightarrow> unit store_op" where
  "kv_write prim sec key buf =
     bind_st (check_st prim sec (Some key)) (\<lambda>_.
     bind_st (dest_st prim sec key) (\<lambda>dest.
     bind_st (parent_st dest) (\<lambda>parent.
     bind_st (on_disk (create_dir_all parent)) (\<lambda>_.
     bind_st (tmp_path_st dest) (\<lambda>tmp.
     bind_st (write_tmp tmp buf) (\<lambda>_.
     bind_st (with_lock dest (publish tmp dest parent)) (\<lambda>_.
     gc_st)))))))"

section \<open>Remove\<close>

definition kv_remove :: "string \<Rightarrow> string \<Rightarrow> string \<Rightarrow> bool \<Rightarrow> unit store_op" where
  "kv_remove prim sec key lzy =
     bind_st (check_st prim sec (Some key)) (\<lambda>_.
     bind_st (dest_st prim sec key) (\<lambda>dest.
     bind_st (on_disk (path_is_file dest)) (\<lambda>found.
       if \<not> found then return_st ()
       else bind_st
         (with_lock dest
           (if lzy then on_disk (sys (fs_unlink dest))
            else bind_st (on_disk (sys (fs_unlink dest))) (\<lambda>_.
                 bind_st (parent_st dest) (\<lambda>parent.
                 bind_st (on_disk (sys (fs_open parent))) (\<lambda>_.
                 on_disk (sys (fs_sync_dir parent))))))) (\<lambda>_.
         gc_st))))"

section \<open>List\<close>

definition fs_metadata :: "path \<Rightarrow> node syscall" where
  "fs_metadata p f =
     (case lookup f p of
        Some n \<Rightarrow> (Ok n, f)
      | None \<Rightarrow> (Err (OtherError ''Failed to list keys''), f))"

definition dir_entry_is_key :: "path \<Rightarrow> bool store_op" where
  "dir_entry_is_key p =
     (if path_extension p = Some ''tmp'' then return_st False
      else bind_st (on_disk (sys (fs_metadata p))) (\<lambda>n.
        return_st (case n of Dir \<Rightarrow> False | File i \<Rightarrow> True)))"

definition get_key_from_dir_entry :: "config \<Rightarrow> path \<Rightarrow> path \<Rightarrow> (io_error, string) outcome" where
  "get_key_from_dir_entry c p base_path =
     (case strip_prefix base_path p of
        Some stripped_path \<Rightarrow>
          (let relative_path = path_str stripped_path
           in if is_valid_kvstore_str c relative_path then Ok relative_path
              else invalid c ''Failed to list keys: file path is not valid key'')
      | None \<Rightarrow> invalid c ''Failed to list keys'')"

fun list_entries :: "config \<Rightarrow> path \<Rightarrow> path list \<Rightarrow> string list \<Rightarrow> (string list) store_op" where
  "list_entries c base [] keys = return_st keys"
| "list_entries c base (p # ps) keys =
     bind_st (dir_entry_is_key p) (\<lambda>is_key.
       if \<not> is_key then list_entries c base ps keys
       else bind_st (lift_st (get_key_from_dir_entry c p base)) (\<lambda>key.
         list_entries c base ps (keys @ [key])))"

definition kv_list :: "string \<Rightarrow> string \<Rightarrow> (string list) store_op" where
  "kv_list prim sec =
     bind_st (check_st prim sec None) (\<lambda>_ s.
       let prefixed_dest = get_dest_dir_path s prim sec
       in bind_st (on_disk (path_exists prefixed_dest)) (\<lambda>found.
          if \<not> found then return_st []
          else bind_st (on_disk (sys (fs_read_dir prefixed_dest))) (\<lambda>entries.
               bind_st (list_entries (cfg s) prefixed_dest entries []) (\<lambda>keys.
               bind_st gc_st (\<lambda>_.
               return_st keys)))) s)"

end
