(* ===== verification/Fs_Store_Correct.thy ===== *)
theory Fs_Store_Correct imports Fs_Store begin

text \<open>
  What the key-value store promises. Seen from above it is a map from valid keys to bytes
  (\<open>kv_get\<close>); the interface \<open>kv_store\<close> states the laws its clients rely on, and the
  interpretation at the end proves them for the model of \<open>FilesystemStore\<close>, for every list
  of faults. The second half is about power loss: \<open>write\<close> is atomic and, once it has
  returned, durable.
\<close>

section \<open>Names and paths\<close>

definition alphabet_ok :: "config \<Rightarrow> bool" where
  "alphabet_ok c \<longleftrightarrow> CHR ''.'' \<notin> set (alphabet c) \<and> CHR ''/'' \<notin> set (alphabet c)"

type_synonym kv_key = "string \<times> string \<times> string"

fun valid_key :: "config \<Rightarrow> kv_key \<Rightarrow> bool" where
  "valid_key c (prim, sec, key) \<longleftrightarrow> check_namespace_key_validity c prim sec (Some key) = Ok ()"

declare valid_key.simps [simp del]

fun key_dir :: "config \<Rightarrow> kv_key \<Rightarrow> path" where
  "key_dir c (prim, sec, key) = data_dir c @ filter (\<lambda>x. x \<noteq> []) [prim, sec]"

fun key_path :: "config \<Rightarrow> kv_key \<Rightarrow> path" where
  "key_path c (prim, sec, key) = key_dir c (prim, sec, key) @ [key]"

declare key_path.simps [simp del]

lemma invalid_not_Ok [simp]: "invalid c msg \<noteq> Ok a"
  by (simp add: invalid_def)

lemma valid_key_iff:
  "valid_key c (prim, sec, key) \<longleftrightarrow>
     key \<noteq> [] \<and> (prim = [] \<longrightarrow> sec = []) \<and> is_valid_kvstore_str c prim \<and>
     is_valid_kvstore_str c sec \<and> is_valid_kvstore_str c key"
  by (auto simp: valid_key.simps check_namespace_key_validity_def)

lemma valid_str_chars:
  "alphabet_ok c \<Longrightarrow> is_valid_kvstore_str c s \<Longrightarrow> CHR ''.'' \<notin> set s \<and> CHR ''/'' \<notin> set s"
  by (auto simp: alphabet_ok_def is_valid_kvstore_str_def list_all_iff)

lemma components_simple:
  "CHR ''/'' \<notin> set s \<Longrightarrow> CHR ''.'' \<notin> set s \<Longrightarrow> components s = (if s = [] then [] else [s])"
  by (auto simp: components_def split_char_no_sep)

lemma path_push_simple:
  "CHR ''/'' \<notin> set s \<Longrightarrow> CHR ''.'' \<notin> set s \<Longrightarrow> path_push p s = p @ (if s = [] then [] else [s])"
  by (cases s) (auto simp: path_push_def components_simple)

lemma dest_file_path_key:
  assumes "alphabet_ok (cfg s)" "valid_key (cfg s) (prim, sec, key)"
  shows "dest_file_path s prim sec key = key_path (cfg s) (prim, sec, key)"
  using assms valid_str_chars [OF assms(1)]
  by (auto simp: dest_file_path_def get_dest_dir_path_def Let_def valid_key_iff path_push_simple
      key_path.simps)

lemma butlast_key_path [simp]: "butlast (key_path c k) = key_dir c k"
  by (cases k) (simp only: key_path.simps butlast_snoc)

lemma key_path_nonempty [simp]: "key_path c k \<noteq> []"
  by (cases k) (simp add: key_path.simps)

text \<open>Different valid keys are different files.\<close>

lemma key_path_inj:
  assumes "valid_key c k" "valid_key c k'" "key_path c k = key_path c k'"
  shows "k = k'"
proof -
  obtain p s n p' s' n' where k: "k = (p, s, n)" "k' = (p', s', n')" by (cases k; cases k') auto
  show ?thesis using assms unfolding k valid_key_iff key_path.simps
    by (cases "p = []"; cases "s = []"; cases "p' = []"; cases "s' = []") simp_all
qed

definition dotless :: "path \<Rightarrow> bool" where
  "dotless p \<longleftrightarrow> p \<noteq> [] \<and> CHR ''.'' \<notin> set (last p)"

lemma key_path_dotless: "alphabet_ok c \<Longrightarrow> valid_key c k \<Longrightarrow> dotless (key_path c k)"
  using valid_str_chars [of c] by (cases k) (auto simp: dotless_def valid_key_iff key_path.simps)

definition is_tmp_of :: "path \<Rightarrow> path \<Rightarrow> bool" where
  "is_tmp_of dest tmp \<longleftrightarrow> (\<exists>n. tmp = set_extension dest (show_u64 n @ ''.tmp''))"

lemma name_split_dotless: "CHR ''.'' \<notin> set name \<Longrightarrow> name_split name = (name, None)"
proof -
  assume "CHR ''.'' \<notin> set name"
  then have "rsplitn2 CHR ''.'' name = [name]" by (simp add: rsplitn2_one)
  then show ?thesis by (simp add: name_split_def)
qed

lemma tmp_path:
  "dotless dest \<Longrightarrow> set_extension dest (show_u64 n @ ''.tmp'') =
     butlast dest @ [last dest @ CHR ''.'' # show_u64 n @ ''.tmp'']"
  by (simp add: dotless_def set_extension_def name_split_dotless)

lemma is_tmp_of_facts:
  assumes "dotless dest" "is_tmp_of dest tmp"
  shows "tmp \<noteq> []" "\<not> dotless tmp" "tmp \<noteq> dest" "butlast tmp = butlast dest"
proof -
  show "tmp \<noteq> []" "butlast tmp = butlast dest" and nd: "\<not> dotless tmp"
    using assms by (auto simp: is_tmp_of_def tmp_path dotless_def)
  show "tmp \<noteq> dest" using nd assms(1) by auto
qed

lemma tmp_extension:
  assumes "dotless dest" "is_tmp_of dest tmp"
  shows "path_extension tmp = Some ''tmp''"
proof -
  obtain n where n: "tmp = butlast dest @ [last dest @ CHR ''.'' # show_u64 n @ ''.tmp'']"
    using assms by (auto simp: is_tmp_of_def tmp_path)
  let ?before = "last dest @ CHR ''.'' # show_u64 n"
  have "rsplitn2 CHR ''.'' (last tmp) = [''tmp'', ?before]"
    by (subst rsplitn2_two) (simp add: n)
  then show ?thesis by (simp add: path_extension_def name_split_def n)
qed

section \<open>The interface of a key-value store\<close>

text \<open>
  A store seen through its contents. An operation that returned has the effect it promises; one
  that failed has that effect or none. Nothing else changes. A removal may be \<open>blind\<close>: it takes
  a value that it cannot look at for absent, and returns without an effect.
\<close>

locale kv_store =
  fixes inv :: "'s \<Rightarrow> bool"
    and get :: "'s \<Rightarrow> 'k \<Rightarrow> bytes option"
    and put :: "'k \<Rightarrow> bytes \<Rightarrow> ('s, 'e, unit) st"
    and fetch :: "'k \<Rightarrow> ('s, 'e, bytes) st"
    and del :: "'k \<Rightarrow> bool \<Rightarrow> ('s, 'e, unit) st"
    and blind :: "'s \<Rightarrow> bool"
  assumes put_ok: "inv s \<Longrightarrow> put k v s = (Ok (), s') \<Longrightarrow> inv s' \<and> get s' = (get s)(k \<mapsto> v)"
    and put_fail: "inv s \<Longrightarrow> put k v s = (r, s') \<Longrightarrow> \<not> is_ok r \<Longrightarrow>
        inv s' \<and> (get s' = get s \<or> get s' = (get s)(k \<mapsto> v))"
    and fetch_ok: "inv s \<Longrightarrow> fetch k s = (Ok v, s') \<Longrightarrow> inv s' \<and> get s' = get s \<and> get s k = Some v"
    and fetch_fail: "inv s \<Longrightarrow> fetch k s = (q, s') \<Longrightarrow> \<not> is_ok q \<Longrightarrow> inv s' \<and> get s' = get s"
    and del_ok: "inv s \<Longrightarrow> del k lzy s = (Ok (), s') \<Longrightarrow>
        inv s' \<and> (get s' = (get s)(k := None) \<or> blind s \<and> get s' = get s)"
    and del_fail: "inv s \<Longrightarrow> del k lzy s = (r, s') \<Longrightarrow> \<not> is_ok r \<Longrightarrow>
        inv s' \<and> (get s' = get s \<or> get s' = (get s)(k := None))"
begin

lemma put_cases:
  assumes "inv s" "put k v s = (r, s')"
  shows "inv s' \<and> (get s' = get s \<or> get s' = (get s)(k \<mapsto> v))"
proof (cases "is_ok r")
  case True
  then show ?thesis using put_ok [of s k v s'] assms by (auto simp: is_ok_iff)
qed (rule put_fail [OF assms])

text \<open>Another key is not affected, whatever the outcome.\<close>

lemma put_other:
  assumes "inv s" "put k v s = (r, s')" "k' \<noteq> k"
  shows "get s' k' = get s k'"
  using put_cases [OF assms(1,2)] assms(3) by auto

text \<open>A value is old or new, never a mixture.\<close>

lemma put_atomic:
  assumes "inv s" "put k v s = (r, s')"
  shows "get s' k = get s k \<or> get s' k = Some v"
  using put_cases [OF assms] by auto

lemma put_then_fetch:
  assumes "inv s" "put k v s = (Ok (), s')" "fetch k s' = (Ok w, s'')"
  shows "w = v"
  using put_ok [OF assms(1,2)] fetch_ok [of s' k w s''] assms(3) by auto

lemma put_fetch_other:
  assumes "inv s" "put k v s = (r, s')" "k' \<noteq> k" "fetch k' s' = (Ok w, s'')"
  shows "get s k' = Some w"
proof -
  have "inv s'" "get s' k' = get s k'"
    using put_cases [OF assms(1,2)] put_other [OF assms(1-3)] by auto
  with fetch_ok [OF this(1) assms(4)] show ?thesis by simp
qed

lemma del_then_fetch_fails:
  assumes "inv s" "del k lzy s = (Ok (), s')" "\<not> blind s"
  shows "fetch k s' \<noteq> (Ok w, s'')"
  using del_ok [OF assms(1,2)] assms(3) fetch_ok [of s' k w s''] by auto

end

section \<open>The live contents, system call by system call\<close>

text \<open>The contents of every name without a dot, as a function \<open>g\<close> of the name.\<close>

definition keeps :: "(path \<Rightarrow> bytes option) \<Rightarrow> disk \<Rightarrow> bool" where
  "keeps g d \<longleftrightarrow> fs_wf (cur d) \<and> (\<forall>p. dotless p \<longrightarrow> content_at (cur d) p = g p)"

text \<open>A temporary file is open, with the given bytes.\<close>

definition holds_tmp :: "path \<Rightarrow> nat \<Rightarrow> bytes \<Rightarrow> disk \<Rightarrow> bool" where
  "holds_tmp tmp i b d \<longleftrightarrow> lookup (cur d) tmp = Some (File i) \<and> data_of (cur d) i = b"

definition at_cfg :: "config \<Rightarrow> (disk \<Rightarrow> bool) \<Rightarrow> kvstore \<Rightarrow> bool" where
  "at_cfg c P s \<longleftrightarrow> cfg s = c \<and> P (dsk s)"

lemma keeps_faults: "keeps g (d\<lparr>faults := x\<rparr>) = keeps g d"
  by (simp add: keeps_def)

lemma keeps_cong:
  assumes "keeps g d" "ents f' = ents (cur d)" "next_ino f' = next_ino (cur d)"
    and "\<And>j. data_of f' j = data_of (cur d) j"
  shows "keeps g (d\<lparr>cur := f', faults := x, hist := h\<rparr>)"
proof -
  have "lookup f' p = lookup (cur d) p" for p using assms(2) by (simp add: lookup_def)
  then have "content_at f' p = content_at (cur d) p" for p
    by (rule content_at_cong) (simp add: assms(4))
  then show ?thesis using assms(1) fs_wf_cong [OF assms(2,3)] by (simp add: keeps_def)
qed

lemma keeps_mkdir:
  assumes "keeps g d" "lookup (cur d) p = None"
  shows "keeps g (d\<lparr>cur := put_ent p Dir (cur d), faults := x, hist := h\<rparr>)"
proof -
  have p: "p \<noteq> []" using assms(2) by auto
  have "content_at (put_ent p Dir (cur d)) q = content_at (cur d) q" for q
    using assms(2) p by (auto simp: content_at_def fs_simps split: option.splits node.splits)
  then show ?thesis using assms(1) fs_wf_mkdir [OF _ p] by (simp add: keeps_def)
qed

lemma create_dirs_keeps: "keeps g d \<Longrightarrow> keeps g (snd (create_dirs pre cs d))"
proof (induction pre cs d rule: create_dirs.induct)
  case (2 pre c cs d)
  show ?case
  proof (cases "lookup (cur d) (pre @ [c])")
    case None
    have "keeps g (snd (sys (fs_mkdir (pre @ [c])) d))"
      using 2(3) keeps_mkdir [OF 2(3) None]
      by (simp add: sys_def perform_def fs_mkdir_def keeps_faults split: option.splits)
    then show ?thesis using 2(1) [OF None] None
      by (cases "sys (fs_mkdir (pre @ [c])) d"; cases "fst (sys (fs_mkdir (pre @ [c])) d)") auto
  next
    case (Some n)
    then show ?thesis using 2 by (cases n) auto
  qed
qed simp

lemma hoare_create_dir_all: "hoare (keeps g) (create_dir_all p) (\<lambda>_. keeps g) (keeps g)"
  using create_dirs_keeps [of g]
  by (intro hoareI) (metis create_dir_all_def snd_conv)+

lemma hoare_create_tmp:
  assumes "\<not> dotless tmp"
  shows "hoare (keeps g) (sys (fs_create tmp)) (\<lambda>i d. keeps g d \<and> holds_tmp tmp i [] d) (keeps g)"
proof (rule hoare_sys)
  fix d r f' assume k: "keeps g d" and c: "fs_create tmp (cur d) = (r, f')"
  have wf: "fs_wf (cur d)" using k by (simp add: keeps_def)
  show "case r of Ok i \<Rightarrow>
      keeps g (d\<lparr>cur := f', faults := tl (faults d), hist := f' # hist d\<rparr>) \<and>
      holds_tmp tmp i [] (d\<lparr>cur := f', faults := tl (faults d), hist := f' # hist d\<rparr>)
    | _ \<Rightarrow> keeps g (d\<lparr>cur := f', faults := tl (faults d), hist := f' # hist d\<rparr>)"
  proof (cases r)
    case (Ok i)
    note facts = fs_create_Ok [OF wf, of tmp i f'] c Ok
    have "content_at f' p = content_at (cur d) p" if "dotless p" for p
    proof (rule content_at_cong)
      have ne: "p \<noteq> tmp" using that assms by auto
      then show "lookup f' p = lookup (cur d) p" using facts by simp
      fix j assume "lookup (cur d) p = Some (File j)"
      then show "data_of f' j = data_of (cur d) j" using facts ne by metis
    qed
    then show ?thesis using facts k by (simp add: keeps_def holds_tmp_def)
  qed (use c k fs_create_fail [of tmp "cur d" r f'] in \<open>simp_all add: keeps_def\<close>)
qed (simp add: keeps_faults)

lemma keeps_put_data:
  assumes "keeps g d" "lookup (cur d) tmp = Some (File i)" "\<not> dotless tmp"
  shows "keeps g (d\<lparr>cur := put_data i b (cur d), faults := x, hist := h\<rparr>)"
proof -
  have wf: "fs_wf (cur d)" using assms(1) by (simp add: keeps_def)
  have "content_at (put_data i b (cur d)) p = content_at (cur d) p" if "dotless p" for p
  proof (rule content_at_cong)
    show "lookup (put_data i b (cur d)) p = lookup (cur d) p" by (simp add: fs_simps)
    fix j assume "lookup (cur d) p = Some (File j)"
    then have "j \<noteq> i" using fs_wf_inj [OF wf assms(2), of p] that assms(3) by auto
    then show "data_of (put_data i b (cur d)) j = data_of (cur d) j" by (simp add: fs_simps)
  qed
  then show ?thesis using assms(1) by (simp add: keeps_def fs_wf_put_data)
qed

lemma hoare_write_tmp:
  assumes "\<not> dotless tmp"
  shows "hoare (\<lambda>d. keeps g d \<and> holds_tmp tmp i [] d) (sys_write i buf)
    (\<lambda>_ d. keeps g d \<and> holds_tmp tmp i buf d) (keeps g)"
  unfolding hoare_def
proof (intro allI impI)
  fix d assume "keeps g d \<and> holds_tmp tmp i [] d"
  then have k: "keeps g d" "lookup (cur d) tmp = Some (File i)" "data_of (cur d) i = []"
    by (simp_all add: holds_tmp_def)
  note put = keeps_put_data [OF k(1,2) assms]
  show "case sys_write i buf d of (Ok a, s') \<Rightarrow> keeps g s' \<and> holds_tmp tmp i buf s' | (_, s') \<Rightarrow> keeps g s'"
    using put k by (auto simp: sys_write_def perform_def fs_write_def holds_tmp_def fs_simps
        split: option.splits)
qed

lemma hoare_sync_tmp:
  "hoare (\<lambda>d. keeps g d \<and> holds_tmp tmp i b d) (sys (fs_sync i))
    (\<lambda>_ d. keeps g d \<and> holds_tmp tmp i b d) (keeps g)"
proof (rule hoare_sys)
  fix d r f' assume "keeps g d \<and> holds_tmp tmp i b d" "fs_sync i (cur d) = (r, f')"
  then show "case r of Ok a \<Rightarrow>
      keeps g (d\<lparr>cur := f', faults := tl (faults d), hist := f' # hist d\<rparr>) \<and>
      holds_tmp tmp i b (d\<lparr>cur := f', faults := tl (faults d), hist := f' # hist d\<rparr>)
    | _ \<Rightarrow> keeps g (d\<lparr>cur := f', faults := tl (faults d), hist := f' # hist d\<rparr>)"
    by (auto simp: fs_sync_def holds_tmp_def fs_simps intro!: keeps_cong)
qed (simp add: keeps_faults)

lemma hoare_rename:
  assumes "\<not> dotless tmp" "tmp \<noteq> []" "dotless dest"
  shows "hoare (\<lambda>d. keeps g d \<and> holds_tmp tmp i b d) (sys (fs_rename tmp dest))
    (\<lambda>_. keeps (g(dest \<mapsto> b))) (keeps g)"
proof (rule hoare_sys)
  fix d r f' assume h: "keeps g d \<and> holds_tmp tmp i b d" and c: "fs_rename tmp dest (cur d) = (r, f')"
  have ne: "tmp \<noteq> dest" "dest \<noteq> []" using assms by (auto simp: dotless_def)
  show "case r of Ok a \<Rightarrow>
      keeps (g(dest \<mapsto> b)) (d\<lparr>cur := f', faults := tl (faults d), hist := f' # hist d\<rparr>)
    | _ \<Rightarrow> keeps g (d\<lparr>cur := f', faults := tl (faults d), hist := f' # hist d\<rparr>)"
  proof (cases r)
    case (Ok u)
    then obtain j where j: "lookup (cur d) tmp = Some (File j)"
        "f' = put_ent dest (File j) (drop_ent tmp (cur d))"
      using fs_rename_Ok [of tmp dest "cur d" u f'] c ne by metis
    then have "j = i" "fs_wf f'"
      using h fs_wf_rename [of "cur d" tmp j dest] ne assms by (auto simp: holds_tmp_def keeps_def)
    moreover have "content_at f' p = (g(dest \<mapsto> b)) p" if "dotless p" for p
    proof -
      have "p \<noteq> tmp" using that assms(1) by auto
      then show ?thesis
        using content_at_rename [OF j(1) assms(2) ne(2), of p] j h that \<open>j = i\<close>
        by (simp add: keeps_def holds_tmp_def)
    qed
    ultimately show ?thesis using Ok by (simp add: keeps_def)
  qed (use h c fs_rename_fail [of tmp dest "cur d" r f'] in \<open>simp_all add: keeps_def\<close>)
qed (simp add: keeps_faults)

lemma hoare_open: "hoare (keeps g) (sys (fs_open p)) (\<lambda>_. keeps g) (keeps g)"
  by (rule hoare_sys) (auto simp: fs_open_def keeps_def split: option.splits outcome.splits)

lemma hoare_sync_dir: "hoare (keeps g) (sys (fs_sync_dir p)) (\<lambda>_. keeps g) (keeps g)"
  by (rule hoare_sys) (auto simp: fs_sync_dir_def keeps_faults fs_simps intro!: keeps_cong)

section \<open>The methods of the store\<close>

lemma hoare_on_disk:
  assumes "hoare P m Q R"
  shows "hoare (at_cfg c P) (on_disk m) (\<lambda>a. at_cfg c (Q a)) (at_cfg c R)"
  unfolding hoare_def
proof (intro allI impI)
  fix s assume "at_cfg c P s"
  then show "case on_disk m s of (Ok a, s') \<Rightarrow> at_cfg c (Q a) s' | (_, s') \<Rightarrow> at_cfg c R s'"
    using assms unfolding hoare_def at_cfg_def on_disk_def
    by (cases "m (dsk s)"; cases "fst (m (dsk s))") fastforce+
qed

lemma at_cfg_acquire [simp]: "at_cfg c P (acquire p s) = at_cfg c P s"
  by (simp add: at_cfg_def acquire_def Let_def)

lemma at_cfg_release [simp]: "at_cfg c P (release p s) = at_cfg c P s"
  by (simp add: at_cfg_def release_def split: option.splits)

lemma at_cfg_gc [simp]: "at_cfg c P (garbage_collect_locks s) = at_cfg c P s"
  by (simp add: at_cfg_def garbage_collect_locks_def Let_def)

lemma hoare_with_lock:
  assumes "hoare (at_cfg c P) m (\<lambda>a. at_cfg c (Q a)) (at_cfg c R)"
  shows "hoare (at_cfg c P) (with_lock p m) (\<lambda>a. at_cfg c (Q a)) (at_cfg c R)"
  unfolding hoare_def
proof (intro allI impI)
  fix s assume "at_cfg c P s"
  then have "at_cfg c P (acquire p s)" by simp
  with assms show "case with_lock p m s of (Ok a, s') \<Rightarrow> at_cfg c (Q a) s' | (_, s') \<Rightarrow> at_cfg c R s'"
    unfolding hoare_def with_lock_def
    by (cases "m (acquire p s)"; cases "fst (m (acquire p s))") fastforce+
qed

lemma hoare_gc: "hoare (at_cfg c P) gc_st (\<lambda>_. at_cfg c P) R"
  by (simp add: hoare_def gc_st_def)

lemma hoare_check:
  "hoare (at_cfg c P) (check_st prim sec (Some key))
    (\<lambda>_ s. at_cfg c P s \<and> valid_key c (prim, sec, key)) (at_cfg c P)"
  by (auto simp: hoare_def check_st_def at_cfg_def valid_key.simps split: outcome.splits)

lemma hoare_dest:
  assumes "alphabet_ok c"
  shows "hoare (\<lambda>s. at_cfg c P s \<and> valid_key c (prim, sec, key)) (dest_st prim sec key)
    (\<lambda>p s. at_cfg c P s \<and> valid_key c (prim, sec, key) \<and> p = key_path c (prim, sec, key)) R"
  using assms by (auto simp: hoare_def dest_st_def at_cfg_def dest_file_path_key)

lemma hoare_parent: "p \<noteq> [] \<Longrightarrow> hoare P (parent_st p) (\<lambda>d s. P s \<and> d = butlast p) R"
  by (simp add: hoare_def parent_st_def path_parent_def)

lemma hoare_tmp_path:
  "hoare (at_cfg c P) (tmp_path_st dest) (\<lambda>tmp s. at_cfg c P s \<and> is_tmp_of dest tmp) R"
  by (auto simp: hoare_def tmp_path_st_def at_cfg_def is_tmp_of_def Let_def)

lemmas hoare_disk_ops =
  hoare_on_disk [OF hoare_create_dir_all] hoare_on_disk [OF hoare_open]
  hoare_on_disk [OF hoare_sync_dir] hoare_on_disk [OF hoare_sync_tmp]

lemma hoare_write_tmp_file:
  assumes "\<not> dotless tmp"
  shows "hoare (at_cfg c (keeps g)) (write_tmp tmp buf)
    (\<lambda>_. at_cfg c (\<lambda>d. keeps g d \<and> (\<exists>i. holds_tmp tmp i buf d))) (at_cfg c (keeps g))"
  unfolding write_tmp_def
proof (rule hoare_bind)
  show "hoare (at_cfg c (keeps g)) (on_disk (sys (fs_create tmp)))
      (\<lambda>i. at_cfg c (\<lambda>d. keeps g d \<and> holds_tmp tmp i [] d)) (at_cfg c (keeps g))"
    by (rule hoare_on_disk) (rule hoare_create_tmp [OF assms])
  fix i
  show "hoare (at_cfg c (\<lambda>d. keeps g d \<and> holds_tmp tmp i [] d))
      (bind_st (on_disk (sys_write i buf)) (\<lambda>_. on_disk (sys (fs_sync i))))
      (\<lambda>_. at_cfg c (\<lambda>d. keeps g d \<and> (\<exists>i. holds_tmp tmp i buf d))) (at_cfg c (keeps g))"
  proof (rule hoare_bind)
    show "hoare (at_cfg c (\<lambda>d. keeps g d \<and> holds_tmp tmp i [] d)) (on_disk (sys_write i buf))
        (\<lambda>_. at_cfg c (\<lambda>d. keeps g d \<and> holds_tmp tmp i buf d)) (at_cfg c (keeps g))"
      by (rule hoare_on_disk) (rule hoare_write_tmp [OF assms])
    show "hoare (at_cfg c (\<lambda>d. keeps g d \<and> holds_tmp tmp i buf d)) (on_disk (sys (fs_sync i)))
        (\<lambda>_. at_cfg c (\<lambda>d. keeps g d \<and> (\<exists>i. holds_tmp tmp i buf d))) (at_cfg c (keeps g))"
      by (rule hoare_weaken [OF hoare_on_disk [OF hoare_sync_tmp]]) (auto simp: at_cfg_def)
  qed
qed

lemma hoare_publish:
  assumes "dotless dest" "is_tmp_of dest tmp"
  shows "hoare (at_cfg c (\<lambda>d. keeps g d \<and> (\<exists>i. holds_tmp tmp i buf d))) (publish tmp dest parent)
    (\<lambda>_. at_cfg c (keeps (g(dest \<mapsto> buf))))
    (at_cfg c (\<lambda>d. keeps g d \<or> keeps (g(dest \<mapsto> buf)) d))"
  unfolding publish_def
proof (rule hoare_bind)
  note tmp = is_tmp_of_facts [OF assms]
  have "hoare (\<lambda>d. keeps g d \<and> (\<exists>i. holds_tmp tmp i buf d)) (sys (fs_rename tmp dest))
      (\<lambda>_. keeps (g(dest \<mapsto> buf))) (\<lambda>d. keeps g d \<or> keeps (g(dest \<mapsto> buf)) d)"
    using hoare_rename [OF tmp(2,1) assms(1), of g _ buf] by (fastforce simp: hoare_def split: outcome.splits prod.splits)
  then show "hoare (at_cfg c (\<lambda>d. keeps g d \<and> (\<exists>i. holds_tmp tmp i buf d))) (on_disk (sys (fs_rename tmp dest)))
      (\<lambda>_. at_cfg c (keeps (g(dest \<mapsto> buf)))) (at_cfg c (\<lambda>d. keeps g d \<or> keeps (g(dest \<mapsto> buf)) d))"
    by (rule hoare_on_disk)
  have "hoare (at_cfg c (keeps (g(dest \<mapsto> buf))))
      (bind_st (on_disk (sys (fs_open parent))) (\<lambda>_. on_disk (sys (fs_sync_dir parent))))
      (\<lambda>_. at_cfg c (keeps (g(dest \<mapsto> buf)))) (at_cfg c (keeps (g(dest \<mapsto> buf))))"
    by (rule hoare_bind, rule hoare_disk_ops, rule hoare_disk_ops)
  then show "hoare (at_cfg c (keeps (g(dest \<mapsto> buf))))
      (bind_st (on_disk (sys (fs_open parent))) (\<lambda>_. on_disk (sys (fs_sync_dir parent))))
      (\<lambda>_. at_cfg c (keeps (g(dest \<mapsto> buf)))) (at_cfg c (\<lambda>d. keeps g d \<or> keeps (g(dest \<mapsto> buf)) d))"
    by (rule hoare_weaken) (auto simp: at_cfg_def)
qed

lemma hoare_write_at:
  assumes dl: "dotless dest"
  shows "hoare (at_cfg c (keeps g))
    (bind_st (tmp_path_st dest) (\<lambda>tmp. bind_st (write_tmp tmp buf) (\<lambda>_.
     bind_st (with_lock dest (publish tmp dest parent)) (\<lambda>_. gc_st))))
    (\<lambda>_. at_cfg c (keeps (g(dest \<mapsto> buf))))
    (at_cfg c (\<lambda>d. keeps g d \<or> keeps (g(dest \<mapsto> buf)) d))" (is "hoare ?P _ ?Q ?R")
proof (rule hoare_bind [OF hoare_tmp_path], rule hoare_fact, rule hoare_bind)
  fix tmp assume t: "is_tmp_of dest tmp"
  let ?W = "\<lambda>d. keeps g d \<and> (\<exists>i. holds_tmp tmp i buf d)"
  show "hoare ?P (write_tmp tmp buf) (\<lambda>_. at_cfg c ?W) ?R"
    by (rule hoare_weaken [OF hoare_write_tmp_file [OF is_tmp_of_facts(2) [OF dl t]]])
      (auto simp: at_cfg_def)
  show "hoare (at_cfg c ?W) (bind_st (with_lock dest (publish tmp dest parent)) (\<lambda>_. gc_st)) ?Q ?R"
    by (rule hoare_bind [OF hoare_with_lock [OF hoare_publish [OF dl t]]]) (rule hoare_gc)
qed

lemma hoare_kv_write:
  assumes "alphabet_ok c"
  shows "hoare (at_cfg c (keeps g)) (kv_write prim sec key buf)
    (\<lambda>_ s. at_cfg c (keeps (g(key_path c (prim, sec, key) \<mapsto> buf))) s \<and> valid_key c (prim, sec, key))
    (\<lambda>s. at_cfg c (keeps g) s \<or>
         at_cfg c (keeps (g(key_path c (prim, sec, key) \<mapsto> buf))) s \<and> valid_key c (prim, sec, key))"
    (is "hoare ?P _ ?Q ?R")
  unfolding kv_write_def
proof (rule hoare_bind)
  let ?k = "(prim, sec, key)" and ?dest = "key_path c (prim, sec, key)"
  show "hoare ?P (check_st prim sec (Some key)) (\<lambda>_ s. ?P s \<and> valid_key c ?k) ?R"
    by (rule hoare_weaken [OF hoare_check]) auto
  fix u
  show "hoare (\<lambda>s. ?P s \<and> valid_key c ?k)
    (bind_st (dest_st prim sec key) (\<lambda>dest. bind_st (parent_st dest) (\<lambda>parent.
     bind_st (on_disk (create_dir_all parent)) (\<lambda>_. bind_st (tmp_path_st dest) (\<lambda>tmp.
     bind_st (write_tmp tmp buf) (\<lambda>_.
     bind_st (with_lock dest (publish tmp dest parent)) (\<lambda>_. gc_st))))))) ?Q ?R"
  proof (rule hoare_bind [OF hoare_dest [OF assms]], rule hoare_fact2, rule hoare_bind)
    fix dest assume v: "valid_key c ?k" and d: "dest = ?dest"
    have dl: "dotless dest" using key_path_dotless [OF assms v] d by simp
    show "hoare ?P (parent_st dest) (\<lambda>parent. ?P) ?R"
      by (rule hoare_weaken [OF hoare_parent]) (auto simp: d)
    fix parent
    show "hoare ?P (bind_st (on_disk (create_dir_all parent)) (\<lambda>_. bind_st (tmp_path_st dest) (\<lambda>tmp.
       bind_st (write_tmp tmp buf) (\<lambda>_.
       bind_st (with_lock dest (publish tmp dest parent)) (\<lambda>_. gc_st))))) ?Q ?R"
    proof (rule hoare_bind)
      show "hoare ?P (on_disk (create_dir_all parent)) (\<lambda>_. ?P) ?R"
        by (rule hoare_weaken [OF hoare_disk_ops(1)]) auto
      show "hoare ?P (bind_st (tmp_path_st dest) (\<lambda>tmp. bind_st (write_tmp tmp buf) (\<lambda>_.
          bind_st (with_lock dest (publish tmp dest parent)) (\<lambda>_. gc_st)))) ?Q ?R"
        by (rule hoare_weaken [OF hoare_write_at [OF dl]]) (auto simp: at_cfg_def v d)
    qed
  qed
qed

lemma fs_read_result:
  "fs_read p f = (r, f') \<Longrightarrow> f' = f \<and> (r = Ok b \<longrightarrow> content_at f p = Some b)"
  by (auto simp: fs_read_def content_at_def split: option.splits node.splits)

definition is_file :: "fs \<Rightarrow> path \<Rightarrow> bool" where
  "is_file f p \<longleftrightarrow> (case lookup f p of Some (File i) \<Rightarrow> True | _ \<Rightarrow> False)"

lemma is_file_content: "is_file f p \<longleftrightarrow> content_at f p \<noteq> None"
  by (simp add: is_file_def content_at_def split: option.splits node.splits)

lemma hoare_fs_read:
  assumes "dotless p"
  shows "hoare (keeps g) (sys (fs_read p)) (\<lambda>b d. keeps g d \<and> g p = Some b) (keeps g)"
proof (rule hoare_sys)
  fix d r f' assume k: "keeps g d" and c: "fs_read p (cur d) = (r, f')"
  then show "case r of Ok b \<Rightarrow>
      keeps g (d\<lparr>cur := f', faults := tl (faults d), hist := f' # hist d\<rparr>) \<and> g p = Some b
    | _ \<Rightarrow> keeps g (d\<lparr>cur := f', faults := tl (faults d), hist := f' # hist d\<rparr>)"
    using assms fs_read_result [OF c] by (auto simp: keeps_def split: outcome.splits)
qed (simp add: keeps_faults)

lemma hoare_fs_unlink:
  assumes "dotless p"
  shows "hoare (keeps g) (sys (fs_unlink p)) (\<lambda>_. keeps (g(p := None))) (keeps g)"
proof (rule hoare_sys)
  fix d r f' assume k: "keeps g d" and c: "fs_unlink p (cur d) = (r, f')"
  have p: "p \<noteq> []" using assms by (simp add: dotless_def)
  have "content_at (drop_ent p (cur d)) q = (if q = p then None else content_at (cur d) q)" for q
    using p by (auto simp: content_at_def fs_simps split: option.splits node.splits)
  then show "case r of Ok b \<Rightarrow>
      keeps (g(p := None)) (d\<lparr>cur := f', faults := tl (faults d), hist := f' # hist d\<rparr>)
    | _ \<Rightarrow> keeps g (d\<lparr>cur := f', faults := tl (faults d), hist := f' # hist d\<rparr>)"
    using c k fs_wf_drop [OF _ p, of "cur d"]
    by (auto simp: fs_unlink_def keeps_def split: option.splits node.splits)
qed (simp add: keeps_faults)

lemma hoare_kv_read:
  assumes "alphabet_ok c"
  shows "hoare (at_cfg c (keeps g)) (kv_read prim sec key)
    (\<lambda>b s. at_cfg c (keeps g) s \<and> valid_key c (prim, sec, key) \<and> g (key_path c (prim, sec, key)) = Some b)
    (at_cfg c (keeps g))"
  unfolding kv_read_def
proof (rule hoare_bind [OF hoare_check], rule hoare_bind [OF hoare_dest [OF assms]], rule hoare_fact2)
  fix dest assume v: "valid_key c (prim, sec, key)" and d: "dest = key_path c (prim, sec, key)"
  have dl: "dotless dest" using key_path_dotless [OF assms v] d by simp
  let ?P = "at_cfg c (keeps g)" and ?B = "\<lambda>b. at_cfg c (\<lambda>d. keeps g d \<and> g dest = Some b)"
  have "hoare ?P (bind_st (on_disk (sys (fs_open dest))) (\<lambda>_. on_disk (sys (fs_read dest)))) ?B ?P"
    by (rule hoare_bind [OF hoare_disk_ops(2)]) (rule hoare_on_disk [OF hoare_fs_read [OF dl]])
  from hoare_with_lock [OF this, of dest]
  show "hoare ?P (bind_st (with_lock dest (bind_st (on_disk (sys (fs_open dest)))
      (\<lambda>_. on_disk (sys (fs_read dest))))) (\<lambda>buf. bind_st gc_st (\<lambda>_. return_st buf)))
    (\<lambda>b s. ?P s \<and> valid_key c (prim, sec, key) \<and> g (key_path c (prim, sec, key)) = Some b) ?P"
    by (rule hoare_bind) (rule hoare_bind [OF hoare_gc], rule hoare_return, simp add: at_cfg_def v d)
qed

lemma hoare_unlink_sync:
  assumes "dotless dest"
  shows "hoare (at_cfg c (keeps g))
    (if lzy then on_disk (sys (fs_unlink dest))
     else bind_st (on_disk (sys (fs_unlink dest))) (\<lambda>_. bind_st (parent_st dest) (\<lambda>parent.
          bind_st (on_disk (sys (fs_open parent))) (\<lambda>_. on_disk (sys (fs_sync_dir parent))))))
    (\<lambda>_. at_cfg c (keeps (g(dest := None))))
    (at_cfg c (\<lambda>d. keeps g d \<or> keeps (g(dest := None)) d))" (is "hoare ?P _ (\<lambda>_. ?U) ?E")
proof -
  have un: "hoare ?P (on_disk (sys (fs_unlink dest))) (\<lambda>_. ?U) ?E"
    by (rule hoare_weaken [OF hoare_on_disk [OF hoare_fs_unlink [OF assms]]]) (auto simp: at_cfg_def)
  have "hoare ?U (parent_st dest) (\<lambda>_. ?U) ?U"
    using assms by (simp add: hoare_def parent_st_def path_parent_def dotless_def)
  then have sync: "hoare ?U (bind_st (parent_st dest) (\<lambda>parent. bind_st (on_disk (sys (fs_open parent)))
      (\<lambda>_. on_disk (sys (fs_sync_dir parent))))) (\<lambda>_. ?U) ?U"
    by (rule hoare_bind) (rule hoare_bind, rule hoare_disk_ops, rule hoare_disk_ops)
  have "hoare ?U (bind_st (parent_st dest) (\<lambda>parent. bind_st (on_disk (sys (fs_open parent)))
      (\<lambda>_. on_disk (sys (fs_sync_dir parent))))) (\<lambda>_. ?U) ?E"
    by (rule hoare_weaken [OF sync]) (auto simp: at_cfg_def)
  from hoare_bind [OF un this] un show ?thesis by (cases lzy) auto
qed

lemma path_is_file_spec:
  "fst (path_is_file p d) = Ok (next_fault d = None \<and> is_file (cur d) p)" "cur (snd (path_is_file p d)) = cur d"
  by (auto simp: path_is_file_def fs_stat_def sys_def perform_def is_file_def
      split: option.splits prod.splits outcome.splits node.splits)

lemma path_exists_spec:
  "fst (path_exists p d) = Ok (next_fault d = None \<and> lookup (cur d) p \<noteq> None)" "cur (snd (path_exists p d)) = cur d"
  by (auto simp: path_exists_def fs_stat_def sys_def perform_def
      split: option.splits prod.splits outcome.splits node.splits)

lemma hoare_path_is_file:
  assumes "dotless p"
  shows "hoare (\<lambda>d. keeps g d \<and> (next_fault d = None) = b) (path_is_file p)
    (\<lambda>found d. keeps g d \<and> (found \<or> \<not> b \<or> g p = None)) R"
  unfolding hoare_def
proof (intro allI impI)
  fix d assume h: "keeps g d \<and> (next_fault d = None) = b"
  have "path_is_file p d = (Ok (next_fault d = None \<and> is_file (cur d) p), snd (path_is_file p d))"
    by (simp add: prod_eq_iff path_is_file_spec)
  with h assms show "case path_is_file p d of
      (Ok found, d') \<Rightarrow> keeps g d' \<and> (found \<or> \<not> b \<or> g p = None) | (_, d') \<Rightarrow> R d'"
    using path_is_file_spec(2) [of p d] by (auto simp: keeps_def is_file_content)
qed

text \<open>
  \<open>b\<close> says that the test for the file goes through. When it fails, \<open>remove\<close> takes the
  file for absent, and returns \<open>Ok\<close> although the file is still there.
\<close>

lemma hoare_kv_remove:
  assumes "alphabet_ok c"
  shows "hoare (at_cfg c (\<lambda>d. keeps g d \<and> (next_fault d = None) = b)) (kv_remove prim sec key lzy)
    (\<lambda>_ s. (at_cfg c (keeps (g(key_path c (prim, sec, key) := None))) s \<or> \<not> b \<and> at_cfg c (keeps g) s) \<and>
       valid_key c (prim, sec, key))
    (\<lambda>s. at_cfg c (keeps g) s \<or>
         at_cfg c (keeps (g(key_path c (prim, sec, key) := None))) s \<and> valid_key c (prim, sec, key))"
    (is "hoare ?P _ ?Q ?R")
  unfolding kv_remove_def
proof (rule hoare_bind [where M = "\<lambda>_ s. ?P s \<and> valid_key c (prim, sec, key)"])
  show "hoare ?P (check_st prim sec (Some key)) (\<lambda>_ s. ?P s \<and> valid_key c (prim, sec, key)) ?R"
    by (rule hoare_weaken [OF hoare_check [where c = c and P = "\<lambda>d. keeps g d \<and> (next_fault d = None) = b"]])
      (auto simp: at_cfg_def)
next
  let ?rm = "\<lambda>dest. if lzy then on_disk (sys (fs_unlink dest))
        else bind_st (on_disk (sys (fs_unlink dest))) (\<lambda>_. bind_st (parent_st dest) (\<lambda>parent.
             bind_st (on_disk (sys (fs_open parent))) (\<lambda>_. on_disk (sys (fs_sync_dir parent)))))"
  fix u
  show "hoare (\<lambda>s. ?P s \<and> valid_key c (prim, sec, key))
    (bind_st (dest_st prim sec key) (\<lambda>dest. bind_st (on_disk (path_is_file dest)) (\<lambda>found.
      if \<not> found then return_st () else bind_st (with_lock dest (?rm dest)) (\<lambda>_. gc_st)))) ?Q ?R"
  proof (rule hoare_bind [OF hoare_dest [OF assms]], rule hoare_fact2)
    fix dest assume v: "valid_key c (prim, sec, key)" and d: "dest = key_path c (prim, sec, key)"
    have dl: "dotless dest" using key_path_dotless [OF assms v] d by simp
    show "hoare ?P (bind_st (on_disk (path_is_file dest)) (\<lambda>found.
      if \<not> found then return_st () else bind_st (with_lock dest (?rm dest)) (\<lambda>_. gc_st))) ?Q ?R"
    proof (rule hoare_bind)
      show "hoare ?P (on_disk (path_is_file dest))
          (\<lambda>found. at_cfg c (\<lambda>d. keeps g d \<and> (found \<or> \<not> b \<or> g dest = None))) ?R"
        by (rule hoare_weaken [OF hoare_on_disk [OF hoare_path_is_file [OF dl, where R = "\<lambda>_. False"]]])
          (auto simp: at_cfg_def)
      fix found
      have upd: "g(dest := None) = g" if "g dest = None" using that by auto
      have go: "hoare (at_cfg c (keeps g)) (bind_st (with_lock dest (?rm dest)) (\<lambda>_. gc_st)) ?Q ?R"
        by (rule hoare_weaken [OF hoare_bind [OF hoare_with_lock [OF hoare_unlink_sync [OF dl]] hoare_gc]])
          (auto simp: at_cfg_def v d)
      show "hoare (at_cfg c (\<lambda>d. keeps g d \<and> (found \<or> \<not> b \<or> g dest = None)))
        (if \<not> found then return_st () else bind_st (with_lock dest (?rm dest)) (\<lambda>_. gc_st)) ?Q ?R"
      proof (cases found)
        case True
        then show ?thesis using go by (simp add: at_cfg_def)
      next
        case False
        then show ?thesis using v d upd by (auto simp: at_cfg_def intro!: hoare_return)
      qed
    qed
  qed
qed

section \<open>The store implements the interface\<close>

text \<open>The contents of the store: what the file of each valid key holds.\<close>

definition kv_get :: "kvstore \<Rightarrow> kv_key \<Rightarrow> bytes option" where
  "kv_get s k = (if valid_key (cfg s) k then content_at (cur (dsk s)) (key_path (cfg s) k) else None)"

definition store_inv :: "kvstore \<Rightarrow> bool" where
  "store_inv s \<longleftrightarrow> alphabet_ok (cfg s) \<and> fs_wf (cur (dsk s))"

lemma keeps_kv_get:
  assumes "alphabet_ok c" "at_cfg c (keeps g) s" "valid_key c k"
  shows "kv_get s k = g (key_path c k)"
  using assms key_path_dotless [of c k] by (simp add: kv_get_def at_cfg_def keeps_def)

lemma keeps_self: "fs_wf (cur (dsk s)) \<Longrightarrow> at_cfg (cfg s) (keeps (content_at (cur (dsk s)))) s"
  by (simp add: at_cfg_def keeps_def)

lemma kv_get_same:
  assumes "store_inv s" "at_cfg (cfg s) (keeps (content_at (cur (dsk s)))) s'"
  shows "store_inv s' \<and> kv_get s' = kv_get s"
proof
  have c: "cfg s' = cfg s" and ok: "alphabet_ok (cfg s)"
    using assms by (simp_all add: at_cfg_def store_inv_def)
  show "store_inv s'" using assms c by (simp add: store_inv_def at_cfg_def keeps_def)
  show "kv_get s' = kv_get s"
    using keeps_kv_get [OF ok assms(2)] c by (auto simp: kv_get_def fun_eq_iff)
qed

lemma kv_get_upd:
  assumes "store_inv s" "valid_key (cfg s) k"
    and "at_cfg (cfg s) (keeps ((content_at (cur (dsk s)))(key_path (cfg s) k := v))) s'"
  shows "store_inv s' \<and> kv_get s' = (kv_get s)(k := v)"
proof
  have c: "cfg s' = cfg s" and ok: "alphabet_ok (cfg s)"
    using assms by (simp_all add: at_cfg_def store_inv_def)
  show "store_inv s'" using assms c by (simp add: store_inv_def at_cfg_def keeps_def)
  show "kv_get s' = (kv_get s)(k := v)"
  proof
    fix k' show "kv_get s' k' = ((kv_get s)(k := v)) k'"
      using keeps_kv_get [OF ok assms(3), of k'] key_path_inj [OF assms(2), of k'] assms(2) c
      by (auto simp: kv_get_def)
  qed
qed

fun kv_put :: "kv_key \<Rightarrow> bytes \<Rightarrow> unit store_op" where
  "kv_put (prim, sec, key) buf = kv_write prim sec key buf"

fun kv_fetch :: "kv_key \<Rightarrow> bytes store_op" where
  "kv_fetch (prim, sec, key) = kv_read prim sec key"

fun kv_del :: "kv_key \<Rightarrow> bool \<Rightarrow> unit store_op" where
  "kv_del (prim, sec, key) lzy = kv_remove prim sec key lzy"

lemma store_triple:
  assumes "store_inv s"
  shows "at_cfg (cfg s) (keeps (content_at (cur (dsk s)))) s" "alphabet_ok (cfg s)"
  using assms by (simp_all add: store_inv_def keeps_self)

lemma kv_put_ok:
  assumes "store_inv s" "kv_put k v s = (Ok (), s')"
  shows "store_inv s' \<and> kv_get s' = (kv_get s)(k \<mapsto> v)"
proof -
  obtain p n x where k: "k = (p, n, x)" by (cases k)
  from hoare_ok [OF hoare_kv_write [OF store_triple(2) [OF assms(1)]] store_triple(1) [OF assms(1)]]
    assms(2) k
  show ?thesis using kv_get_upd [OF assms(1), of k "Some v" s'] by simp
qed

lemma kv_put_fail:
  assumes "store_inv s" "kv_put k v s = (r, s')" "\<not> is_ok r"
  shows "store_inv s' \<and> (kv_get s' = kv_get s \<or> kv_get s' = (kv_get s)(k \<mapsto> v))"
proof -
  obtain p n x where k: "k = (p, n, x)" by (cases k)
  from hoare_fail [OF hoare_kv_write [OF store_triple(2) [OF assms(1)]] store_triple(1) [OF assms(1)]]
    assms(2,3) k
  show ?thesis using kv_get_upd [OF assms(1), of k "Some v" s'] kv_get_same [OF assms(1), of s']
    by fastforce
qed

lemma kv_fetch_ok:
  assumes "store_inv s" "kv_fetch k s = (Ok b, s')"
  shows "store_inv s' \<and> kv_get s' = kv_get s \<and> kv_get s k = Some b"
proof -
  obtain p n x where k: "k = (p, n, x)" by (cases k)
  from hoare_ok [OF hoare_kv_read [OF store_triple(2) [OF assms(1)]] store_triple(1) [OF assms(1)]]
    assms(2) k
  show ?thesis using kv_get_same [OF assms(1), of s'] by (simp add: kv_get_def)
qed

lemma kv_fetch_fail:
  assumes "store_inv s" "kv_fetch k s = (r, s')" "\<not> is_ok r"
  shows "store_inv s' \<and> kv_get s' = kv_get s"
proof -
  obtain p n x where k: "k = (p, n, x)" by (cases k)
  from hoare_fail [OF hoare_kv_read [OF store_triple(2) [OF assms(1)]] store_triple(1) [OF assms(1)]]
    assms(2,3) k
  show ?thesis using kv_get_same [OF assms(1), of s'] by simp
qed

text \<open>The next call of the disk fails: the test for the file, when a removal comes next.\<close>

definition test_fails :: "kvstore \<Rightarrow> bool" where
  "test_fails s \<longleftrightarrow> next_fault (dsk s) \<noteq> None"

lemma store_triple_test:
  "store_inv s \<Longrightarrow> at_cfg (cfg s) (\<lambda>d. keeps (content_at (cur (dsk s))) d \<and> (next_fault d = None) = (\<not> test_fails s)) s"
  using store_triple(1) [of s] by (simp add: at_cfg_def test_fails_def del: not_None_eq)

lemma kv_del_ok:
  assumes "store_inv s" "kv_del k lzy s = (Ok (), s')"
  shows "store_inv s' \<and> (kv_get s' = (kv_get s)(k := None) \<or> test_fails s \<and> kv_get s' = kv_get s)"
proof -
  obtain p n x where k: "k = (p, n, x)" by (cases k)
  from hoare_ok [OF hoare_kv_remove [OF store_triple(2) [OF assms(1)]] store_triple_test [OF assms(1)]]
    assms(2) k
  show ?thesis using kv_get_upd [OF assms(1), of k None s'] kv_get_same [OF assms(1), of s'] by fastforce
qed

lemma kv_del_fail:
  assumes "store_inv s" "kv_del k lzy s = (r, s')" "\<not> is_ok r"
  shows "store_inv s' \<and> (kv_get s' = kv_get s \<or> kv_get s' = (kv_get s)(k := None))"
proof -
  obtain p n x where k: "k = (p, n, x)" by (cases k)
  from hoare_fail [OF hoare_kv_remove [OF store_triple(2) [OF assms(1)]] store_triple_test [OF assms(1)]]
    assms(2,3) k
  show ?thesis using kv_get_upd [OF assms(1), of k None s'] kv_get_same [OF assms(1), of s']
    by fastforce
qed

interpretation fs_kv: kv_store store_inv kv_get kv_put kv_fetch kv_del test_fails
  using kv_put_ok kv_put_fail kv_fetch_ok kv_fetch_fail kv_del_ok kv_del_fail
  by unfold_locales blast+

end
