(* ===== verification/Fs_Store_Props.thy ===== *)
theory Fs_Store_Props imports Fs_Store_Correct begin

text \<open>
  The properties of the key-value store. The interface gives what an operation does when it
  returns or fails; the first section adds that, without faults, it does return. The last ones
  are on listing keys and on the table of locks.
\<close>

section \<open>Without faults the operations return\<close>

lemma sys_no_fault:
  "faults d = [] \<Longrightarrow> sys c d = (case c (cur d) of (r, f) \<Rightarrow> (r, d\<lparr>cur := f, hist := f # hist d\<rparr>))"
  by (simp add: sys_def next_fault_def perform_def split: prod.splits)

lemma sys_write_no_fault:
  "faults d = [] \<Longrightarrow> sys_write i b d =
     (Ok (), d\<lparr>cur := put_data i (data_of (cur d) i @ b) (cur d),
                hist := put_data i (data_of (cur d) i @ b) (cur d) # hist d\<rparr>)"
  by (simp add: sys_write_def next_fault_def perform_def fs_write_def)

text \<open>Directories can be made along a path none of whose prefixes is a file.\<close>

definition dirs_free :: "fs \<Rightarrow> path \<Rightarrow> bool" where
  "dirs_free f p \<longleftrightarrow> list_all (\<lambda>n. content_at f (take n p) = None) [0..<Suc (length p)]"

lemma create_dirs_ok:
  assumes "faults d = []" "lookup (cur d) pre = Some Dir"
    and "\<And>n i. n \<le> length cs \<Longrightarrow> lookup (cur d) (pre @ take n cs) \<noteq> Some (File i)"
  shows "\<exists>d'. create_dirs pre cs d = (Ok (), d') \<and> faults d' = [] \<and>
    lookup (cur d') (pre @ cs) = Some Dir \<and>
    (\<forall>q. length (pre @ cs) < length q \<longrightarrow> lookup (cur d') q = lookup (cur d) q)"
  using assms
proof (induction cs arbitrary: pre d)
  case (Cons c cs)
  have nf: "lookup (cur d) (pre @ [c]) \<noteq> Some (File i)" for i using Cons.prems(3) [of 1] by simp
  have rest: "lookup (cur d) ((pre @ [c]) @ take n cs) \<noteq> Some (File i)" if "n \<le> length cs" for n i
    using Cons.prems(3) [of "Suc n"] that by simp
  show ?case
  proof (cases "lookup (cur d) (pre @ [c])")
    case None
    let ?f = "put_ent (pre @ [c]) Dir (cur d)"
    let ?d = "d\<lparr>cur := ?f, hist := ?f # hist d\<rparr>"
    have "\<exists>d'. create_dirs (pre @ [c]) cs ?d = (Ok (), d') \<and> faults d' = [] \<and>
        lookup (cur d') ((pre @ [c]) @ cs) = Some Dir \<and>
        (\<forall>q. length ((pre @ [c]) @ cs) < length q \<longrightarrow> lookup (cur d') q = lookup (cur ?d) q)"
      by (rule Cons.IH) (use Cons.prems(1) rest in \<open>auto simp: fs_simps\<close>)
    then show ?thesis using None Cons.prems(1)
      by (fastforce simp: sys_no_fault fs_mkdir_def fs_simps)
  next
    case (Some n)
    then have "lookup (cur d) (pre @ [c]) = Some Dir" using nf by (cases n) auto
    with Cons.IH [OF Cons.prems(1) this rest] show ?thesis by auto
  qed
qed auto

lemma create_dir_all_ok:
  assumes "faults d = []" "dirs_free (cur d) p"
  obtains d' where "create_dir_all p d = (Ok (), d')" "faults d' = []" "lookup (cur d') p = Some Dir"
    "\<And>q. length p < length q \<Longrightarrow> lookup (cur d') q = lookup (cur d) q"
proof -
  have "lookup (cur d) (take n p) \<noteq> Some (File i)" if "n \<le> length p" for n i
  proof -
    have "content_at (cur d) (take n p) = None"
      using assms(2) that by (simp add: dirs_free_def list_all_iff del: upt_Suc)
    then show ?thesis by (auto simp: content_at_def)
  qed
  with create_dirs_ok [of d "[]" p] assms(1) that show thesis
    by (auto simp: create_dir_all_def)
qed

lemma write_tmp_ok:
  assumes "faults (dsk s) = []" "lookup (cur (dsk s)) (butlast tmp) = Some Dir" "tmp \<noteq> []"
    "lookup (cur (dsk s)) tmp \<noteq> Some Dir" "cfg s = c"
  obtains s' i where "write_tmp tmp b s = (Ok (), s')" "faults (dsk s') = []" "cfg s' = c"
    "lookup (cur (dsk s')) tmp = Some (File i)"
    "\<And>q. q \<noteq> tmp \<Longrightarrow> lookup (cur (dsk s')) q = lookup (cur (dsk s)) q"
proof (cases "lookup (cur (dsk s)) tmp")
  case None
  then show thesis using assms that
    by (auto simp: write_tmp_def bind_st_def on_disk_def sys_no_fault sys_write_no_fault fs_create_def
        parent_dir_def new_file_def Let_def fs_sync_def fs_simps)
next
  case (Some n)
  then obtain i where "lookup (cur (dsk s)) tmp = Some (File i)" using assms(4) by (cases n) auto
  then show thesis using assms that
    by (auto simp: write_tmp_def bind_st_def on_disk_def sys_no_fault sys_write_no_fault fs_create_def
        parent_dir_def Let_def fs_sync_def fs_simps)
qed

lemma publish_ok:
  assumes "faults (dsk s) = []" "lookup (cur (dsk s)) tmp = Some (File i)"
    "lookup (cur (dsk s)) parent = Some Dir" "parent = butlast dest" "dest \<noteq> []" "tmp \<noteq> []"
    "tmp \<noteq> dest" "lookup (cur (dsk s)) dest \<noteq> Some Dir"
  shows "\<exists>s'. publish tmp dest parent s = (Ok (), s') \<and> faults (dsk s') = []"
proof -
  have "length parent < length dest" using assms(4,5) by simp
  then have "parent \<noteq> tmp" "parent \<noteq> dest" using assms(2,3) by auto
  then show ?thesis using assms
    by (auto simp: publish_def bind_st_def on_disk_def sys_no_fault fs_rename_def parent_dir_def
        fs_open_def fs_sync_dir_def fs_simps)
qed

text \<open>No directory is where \<open>write\<close> puts its temporary file or the value.\<close>

definition room_for :: "kvstore \<Rightarrow> kv_key \<Rightarrow> bool" where
  "room_for s k \<longleftrightarrow>
     dirs_free (cur (dsk s)) (key_dir (cfg s) k) \<and>
     lookup (cur (dsk s)) (key_path (cfg s) k) \<noteq> Some Dir \<and>
     lookup (cur (dsk s)) (set_extension (key_path (cfg s) k) (show_u64 (tmp_file_counter s) @ ''.tmp''))
       \<noteq> Some Dir"

lemma kv_put_returns:
  assumes "store_inv s" "valid_key (cfg s) k" "faults (dsk s) = []" "room_for s k"
  shows "is_ok (fst (kv_put k v s))" "faults (dsk (snd (kv_put k v s))) = []"
proof -
  obtain prim sec key where k: "k = (prim, sec, key)" by (cases k)
  have ok: "alphabet_ok (cfg s)" using assms(1) by (simp add: store_inv_def)
  let ?dest = "key_path (cfg s) k" and ?parent = "key_dir (cfg s) k"
  let ?tmp = "set_extension ?dest (show_u64 (tmp_file_counter s) @ ''.tmp'')"
  have dl: "dotless ?dest" by (rule key_path_dotless [OF ok assms(2)])
  have tmp: "is_tmp_of ?dest ?tmp" by (auto simp: is_tmp_of_def)
  note tf = is_tmp_of_facts [OF dl tmp]
  have shorter: "p \<noteq> [] \<Longrightarrow> length (butlast p) < length p" for p :: path by simp
  have len: "length ?parent < length ?dest" "length ?parent < length ?tmp"
    using shorter [of ?dest] shorter [of ?tmp] tf by simp_all
  obtain d where d: "create_dir_all ?parent (dsk s) = (Ok (), d)" "faults d = []"
    "lookup (cur d) ?parent = Some Dir"
    "\<And>q. length ?parent < length q \<Longrightarrow> lookup (cur d) q = lookup (cur (dsk s)) q"
    using create_dir_all_ok assms(3,4) by (metis room_for_def)
  let ?s = "s\<lparr>dsk := d, tmp_file_counter := tmp_file_counter s + 1\<rparr>"
  obtain s' i where s': "write_tmp ?tmp v ?s = (Ok (), s')" "faults (dsk s') = []" "cfg s' = cfg s"
    "lookup (cur (dsk s')) ?tmp = Some (File i)"
    "\<And>q. q \<noteq> ?tmp \<Longrightarrow> lookup (cur (dsk s')) q = lookup (cur d) q"
    by (rule write_tmp_ok [of ?s ?tmp "cfg s" v])
      (use d tf len assms(4) in \<open>auto simp: room_for_def\<close>)
  have neq: "?parent \<noteq> ?tmp" using len by auto
  have acq: "dsk (acquire ?dest s') = dsk s'" by (simp add: acquire_def Let_def)
  have "lookup (cur (dsk s')) ?parent = Some Dir" using s'(5) neq d(3) by simp
  moreover have "lookup (cur (dsk s')) ?dest \<noteq> Some Dir"
    using s'(5) [of ?dest] tf(3) d(4) [OF len(1)] assms(4) by (simp add: room_for_def)
  ultimately have "\<exists>s''. publish ?tmp ?dest ?parent (acquire ?dest s') = (Ok (), s'') \<and> faults (dsk s'') = []"
    by (intro publish_ok [where i = i]) (simp_all add: acq s'(2,4) tf(1,3))
  then obtain s'' where s'': "publish ?tmp ?dest ?parent (acquire ?dest s') = (Ok (), s'')"
    "faults (dsk s'') = []" by blast
  have parent: "path_parent ?dest = Some ?parent" by (simp add: path_parent_def)
  have "kv_put k v s = (Ok (), garbage_collect_locks (release ?dest s''))"
    using assms(2) d(1) s'(1) s'' dest_file_path_key [OF ok, of prim sec key] parent
    by (simp add: k kv_write_def bind_st_def check_st_def dest_st_def parent_st_def on_disk_def
        tmp_path_st_def with_lock_def gc_st_def valid_key.simps Let_def)
  moreover have "dsk (garbage_collect_locks (release ?dest s'')) = dsk s''"
    by (simp add: garbage_collect_locks_def release_def Let_def split: option.splits)
  ultimately show "is_ok (fst (kv_put k v s))" "faults (dsk (snd (kv_put k v s))) = []"
    using s''(2) by simp_all
qed

lemma kv_fetch_returns:
  assumes "store_inv s" "faults (dsk s) = []" "kv_get s k = Some v"
  shows "fst (kv_fetch k s) = Ok v"
proof -
  obtain prim sec key where k: "k = (prim, sec, key)" by (cases k)
  have ok: "alphabet_ok (cfg s)" using assms(1) by (simp add: store_inv_def)
  have vk: "valid_key (cfg s) k" and c: "content_at (cur (dsk s)) (key_path (cfg s) k) = Some v"
    using assms(3) by (auto simp: kv_get_def split: if_splits)
  show ?thesis
    using vk c assms(2) dest_file_path_key [OF ok, of prim sec key]
    by (auto simp: k kv_read_def bind_st_def check_st_def dest_st_def on_disk_def with_lock_def gc_st_def
        return_st_def valid_key.simps acquire_def Let_def sys_no_fault fs_open_def fs_read_def
        content_at_def split: option.splits node.splits)
qed

section \<open>Listing\<close>

text \<open>Every entry has a proper name and is in a directory.\<close>

definition tree_ok :: "fs \<Rightarrow> bool" where
  "tree_ok f \<longleftrightarrow> list_all (\<lambda>(p, n). [] \<notin> set p \<and> lookup f (butlast p) = Some Dir) (ents f)"

lemma tree_ok_entry:
  assumes "tree_ok f" "lookup f p = Some n" "p \<noteq> []"
  shows "[] \<notin> set p \<and> lookup f (butlast p) = Some Dir \<and> p \<in> set (map fst (ents f))"
proof -
  have "(p, n) \<in> set (ents f)" using assms(2,3) by (simp add: lookup_def map_of_SomeD)
  with assms(1) show ?thesis by (force simp: tree_ok_def list_all_iff)
qed

definition lists_as_key :: "fs \<Rightarrow> path \<Rightarrow> bool" where
  "lists_as_key f p \<longleftrightarrow> path_extension p \<noteq> Some ''tmp'' \<and> is_file f p"

lemma dir_entry_is_key_Ok:
  assumes "dir_entry_is_key p s = (Ok b, s')"
  shows "b = lists_as_key (cur (dsk s)) p \<and> cur (dsk s') = cur (dsk s) \<and> cfg s' = cfg s"
  using assms
  by (auto simp: dir_entry_is_key_def return_st_def bind_st_def on_disk_def sys_def perform_def
      fs_metadata_def lists_as_key_def is_file_def
      split: if_splits prod.splits outcome.splits option.splits node.splits)

lemma key_of_child:
  assumes "p \<noteq> []" "butlast p = base" "get_key_from_dir_entry c p base = Ok key"
  shows "key = last p \<and> is_valid_kvstore_str c key"
proof -
  have p: "p = base @ [last p]" using assms by (metis append_butlast_last_id)
  show ?thesis using assms(3)
    by (subst (asm) (1) p)
      (auto simp: get_key_from_dir_entry_def strip_prefix_def Let_def split: if_splits)
qed

lemma list_entries_Ok:
  assumes "list_entries c base ps keys s = (Ok r, s')"
    and "\<forall>p\<in>set ps. p \<noteq> [] \<and> butlast p = base"
  shows "r = keys @ map last (filter (lists_as_key (cur (dsk s))) ps) \<and>
    cur (dsk s') = cur (dsk s) \<and> cfg s' = cfg s \<and>
    (\<forall>p\<in>set ps. lists_as_key (cur (dsk s)) p \<longrightarrow> is_valid_kvstore_str c (last p))"
  using assms
proof (induction ps arbitrary: keys s)
  case Nil
  then show ?case by (simp add: return_st_def)
next
  case (Cons p ps)
  obtain b s1 where s1: "dir_entry_is_key p s = (Ok b, s1)"
    using Cons.prems(1) by (auto simp: bind_st_def split: prod.splits outcome.splits)
  note f1 = dir_entry_is_key_Ok [OF this]
  show ?case
  proof (cases b)
    case False
    with Cons.prems(1) s1 have "list_entries c base ps keys s1 = (Ok r, s')" by (simp add: bind_st_def)
    from Cons.IH [OF this] Cons.prems(2) f1 False show ?thesis by simp
  next
    case True
    obtain key where key: "get_key_from_dir_entry c p base = Ok key"
      "list_entries c base ps (keys @ [key]) s1 = (Ok r, s')"
      using Cons.prems(1) s1 True
      by (auto simp: bind_st_def lift_st_def split: outcome.splits)
    have "key = last p" "is_valid_kvstore_str c (last p)"
      using key_of_child [OF _ _ key(1)] Cons.prems(2) by auto
    with Cons.IH [OF key(2)] Cons.prems(2) f1 True show ?thesis by simp
  qed
qed

lemma get_dest_dir_path_key:
  assumes "alphabet_ok (cfg s)" "is_valid_kvstore_str (cfg s) prim" "is_valid_kvstore_str (cfg s) sec"
  shows "get_dest_dir_path s prim sec = key_dir (cfg s) (prim, sec, key)"
  using valid_str_chars [OF assms(1,2)] valid_str_chars [OF assms(1,3)]
  by (simp add: get_dest_dir_path_def Let_def path_push_simple)

lemma key_path_snoc: "key_path c (prim, sec, key) = key_dir c (prim, sec, key) @ [key]"
  by (simp add: key_path.simps)

lemma lists_as_key_iff:
  assumes "alphabet_ok c" "is_valid_kvstore_str c (last p)"
  shows "lists_as_key f p \<longleftrightarrow> content_at f p \<noteq> None"
proof -
  have "p \<noteq> [] \<Longrightarrow> snd (name_split (last p)) = None"
    using valid_str_chars [OF assms] by (simp add: name_split_dotless)
  then have "path_extension p \<noteq> Some ''tmp''" by (simp add: path_extension_def)
  then show ?thesis
    by (auto simp: lists_as_key_def is_file_def content_at_def split: option.splits node.splits)
qed

lemma kv_list_Ok:
  assumes "kv_list prim sec s = (Ok keys, s')"
  shows "(prim = [] \<longrightarrow> sec = []) \<and> is_valid_kvstore_str (cfg s) prim \<and> is_valid_kvstore_str (cfg s) sec \<and>
    (let d = get_dest_dir_path s prim sec; f = cur (dsk s) in
       (lookup f d = None \<or> test_fails s) \<and> keys = [] \<or>
       lookup f d = Some Dir \<and> keys = map last (filter (lists_as_key f) (children f d)) \<and>
       (\<forall>p\<in>set (children f d). lists_as_key f p \<longrightarrow> is_valid_kvstore_str (cfg s) (last p)))"
proof -
  let ?d = "get_dest_dir_path s prim sec"
  have v: "check_namespace_key_validity (cfg s) prim sec None = Ok ()"
    using assms by (auto simp: kv_list_def bind_st_def check_st_def split: outcome.splits)
  obtain d0 where d0: "path_exists ?d (dsk s) = (Ok (\<not> test_fails s \<and> lookup (cur (dsk s)) ?d \<noteq> None), d0)"
    "cur d0 = cur (dsk s)"
    using path_exists_spec [of ?d "dsk s"] unfolding test_fails_def not_not by (metis prod.collapse)
  let ?s0 = "s\<lparr>dsk := d0\<rparr>"
  show ?thesis
  proof (cases "\<not> test_fails s \<and> lookup (cur (dsk s)) ?d \<noteq> None")
    case False
    then show ?thesis using assms v d0
      by (auto simp: kv_list_def bind_st_def check_st_def on_disk_def return_st_def check_namespace_key_validity_def Let_def
          split: if_splits)
  next
    case True
    then obtain n where n: "lookup (cur (dsk s)) ?d = Some n" by blast
    obtain es s1 where s1: "on_disk (sys (fs_read_dir ?d)) ?s0 = (Ok es, s1)"
      using assms v True d0
      by (auto simp: kv_list_def bind_st_def check_st_def on_disk_def Let_def split: outcome.splits prod.splits)
    then have es: "n = Dir" "es = children (cur (dsk s)) ?d" "cur (dsk s1) = cur (dsk s)"
      using n d0(2) by (auto simp: on_disk_def sys_def perform_def fs_read_dir_def
          split: option.splits prod.splits node.splits)
    have "fst (list_entries (cfg s) ?d es [] s1) = Ok keys"
      using assms v True d0 s1
      by (auto simp: kv_list_def bind_st_def check_st_def on_disk_def Let_def gc_st_def return_st_def
          split: outcome.splits prod.splits)
    then obtain s2 where "list_entries (cfg s) ?d es [] s1 = (Ok keys, s2)" by (metis prod.collapse)
    from list_entries_Ok [OF this] es n v show ?thesis
      by (auto simp: children_def Let_def check_namespace_key_validity_def split: if_splits)
  qed
qed

lemma distinct_map_last: "distinct ps \<Longrightarrow> \<forall>p\<in>set ps. p \<noteq> [] \<and> butlast p = d \<Longrightarrow> distinct (map last ps)"
  by (auto simp: distinct_map inj_on_def) (metis append_butlast_last_id)

lemma child_snoc: "q \<in> set (children f d) \<Longrightarrow> q = d @ [last q]"
  by (auto simp: children_def)

lemma kv_list_sound_complete:
  assumes "store_inv s" "tree_ok (cur (dsk s))" "kv_list prim sec s = (Ok keys, s')"
  shows "distinct keys \<and> set keys = {key. kv_get s (prim, sec, key) \<noteq> None} \<or> test_fails s \<and> keys = []"
proof (cases "test_fails s \<and> keys = []")
  case False
  let ?f = "cur (dsk s)" and ?d = "get_dest_dir_path s prim sec"
  have ok: "alphabet_ok (cfg s)" and wf: "fs_wf ?f" using assms(1) by (simp_all add: store_inv_def)
  note L = kv_list_Ok [OF assms(3), unfolded Let_def]
  have names: "prim = [] \<longrightarrow> sec = []" "is_valid_kvstore_str (cfg s) prim"
    "is_valid_kvstore_str (cfg s) sec" using L by blast+
  have keys: "set keys = last ` set (filter (lists_as_key ?f) (children ?f ?d)) \<or>
      lookup ?f ?d = None \<and> keys = []"
    using L False by auto
  have valid: "q \<in> set (children ?f ?d) \<Longrightarrow> lists_as_key ?f q \<Longrightarrow> keys \<noteq> [] \<Longrightarrow>
      is_valid_kvstore_str (cfg s) (last q)" for q
    using L by auto
  have d: "key_path (cfg s) (prim, sec, key) = ?d @ [key]" for key
    using get_dest_dir_path_key [OF ok names(2,3), of key] by (simp only: key_path_snoc)
  have mem: "key \<in> set keys \<longleftrightarrow> kv_get s (prim, sec, key) \<noteq> None" for key
  proof
    assume "key \<in> set keys"
    moreover from this have ne: "keys \<noteq> []" by auto
    ultimately obtain q where q: "q \<in> set (children ?f ?d)" "lists_as_key ?f q" "key = last q"
      using keys by auto
    have qd: "q = ?d @ [key]" unfolding q(3) by (rule child_snoc [OF q(1)])
    have p: "lists_as_key ?f (?d @ [key])" "is_valid_kvstore_str (cfg s) key"
      using q(2) valid [OF q(1,2) ne] unfolding qd by simp_all
    from p(1) obtain i where i: "lookup ?f (?d @ [key]) = Some (File i)"
      by (auto simp: lists_as_key_def is_file_def split: option.splits node.splits)
    have "valid_key (cfg s) (prim, sec, key)"
      using names p(2) tree_ok_entry [OF assms(2) i] by (auto simp: valid_key_iff)
    then show "kv_get s (prim, sec, key) \<noteq> None" using i by (simp add: kv_get_def d content_at_def)
  next
    assume get: "kv_get s (prim, sec, key) \<noteq> None"
    then have v: "valid_key (cfg s) (prim, sec, key)" and c: "content_at ?f (?d @ [key]) \<noteq> None"
      by (auto simp: kv_get_def d split: if_splits)
    have vk: "is_valid_kvstore_str (cfg s) (last (?d @ [key]))" using v by (simp add: valid_key_iff)
    obtain n where n: "lookup ?f (?d @ [key]) = Some n" using c
      by (auto simp: content_at_def split: option.splits)
    from tree_ok_entry [OF assms(2) n] have dir: "lookup ?f ?d = Some Dir" "?d @ [key] \<in> set (children ?f ?d)"
      by (auto simp: children_def)
    moreover have "lists_as_key ?f (?d @ [key])" using lists_as_key_iff [OF ok vk] c by simp
    ultimately have "?d @ [key] \<in> set (filter (lists_as_key ?f) (children ?f ?d))" by simp
    then show "key \<in> set keys" using keys dir(1) by (force intro: image_eqI)
  qed
  then have "set keys = {key. kv_get s (prim, sec, key) \<noteq> None}" by auto
  moreover have "distinct (children ?f ?d)" using wf by (simp add: fs_wf_def children_def)
  then have "distinct (filter (lists_as_key ?f) (children ?f ?d))" by (rule distinct_filter)
  then have "distinct (map last (filter (lists_as_key ?f) (children ?f ?d)))"
    by (rule distinct_map_last [where d = ?d]) (auto simp: children_def)
  then have "distinct keys" using L by auto
  ultimately show ?thesis by simp
qed simp

section \<open>The table of locks\<close>

text \<open>
  Threads interleave at three points: cloning the lock of a path, dropping it, and a garbage
  collection. The list holds the path of every clone that is alive.
\<close>

datatype lock_event = Clone path | Drop_clone path | Collect

fun lock_step :: "kvstore \<times> path list \<Rightarrow> lock_event \<Rightarrow> kvstore \<times> path list" where
  "lock_step (s, hs) (Clone p) = (acquire p s, p # hs)"
| "lock_step (s, hs) (Drop_clone p) =
     (if p \<in> set hs then (release p s, remove1 p hs) else (s, hs))"
| "lock_step (s, hs) Collect = (garbage_collect_locks s, hs)"

fun lock_inv :: "kvstore \<times> path list \<Rightarrow> bool" where
  "lock_inv (s, hs) \<longleftrightarrow>
     distinct (map fst (locks s)) \<and>
     (\<forall>p. map_of (locks s) p = Some (Suc (count_list hs p)) \<or>
          map_of (locks s) p = None \<and> p \<notin> set hs)"

lemma map_of_filter_vals:
  "distinct (map fst al) \<Longrightarrow>
   map_of (filter (\<lambda>(_, v). P v) al) k = (case map_of al k of Some v \<Rightarrow> if P v then Some v else None | None \<Rightarrow> None)"
  by (induction al) (auto split: option.splits dest: map_of_SomeD simp: image_iff)

lemma distinct_filter_keys: "distinct (map fst al) \<Longrightarrow> distinct (map fst (filter P al))"
  by (induction al) auto

lemma count_list_remove1:
  "x \<in> set xs \<Longrightarrow> count_list (remove1 x xs) y = (if y = x then count_list xs y - 1 else count_list xs y)"
  by (induction xs) (auto simp: count_list_0_iff)

lemma count_list_pos: "x \<in> set xs \<Longrightarrow> count_list xs x = Suc (count_list xs x - 1)"
  by (cases "count_list xs x") (auto simp: count_list_0_iff)

lemma lock_step_keeps:
  assumes "lock_inv st"
  shows "lock_inv (lock_step st e)"
proof -
  obtain s hs where st: "st = (s, hs)" by (cases st)
  have d: "distinct (map fst (locks s))"
    and m: "map_of (locks s) p = Some (Suc (count_list hs p)) \<or> map_of (locks s) p = None \<and> p \<notin> set hs" for p
    using assms st by auto
  show ?thesis
  proof (cases e)
    case (Clone q)
    have "(case map_of (locks s) q of None \<Rightarrow> 1 | Some n \<Rightarrow> n) = Suc (count_list hs q)"
      using m [of q] by (auto simp: count_list_0_iff)
    then show ?thesis using st Clone d m by (auto simp: acquire_def Let_def alist_simps distinct_update)
  next
    case (Drop_clone q)
    show ?thesis
    proof (cases "q \<in> set hs")
      case True
      then have "map_of (locks s) q = Some (Suc (count_list hs q))" using m [of q] by auto
      moreover have "\<lbrakk>p \<noteq> q; p \<notin> set hs\<rbrakk> \<Longrightarrow> p \<notin> set (remove1 q hs)" for p
        using notin_set_remove1 by metis
      ultimately show ?thesis using st Drop_clone d m True count_list_pos [OF True]
        by (auto simp: release_def alist_simps distinct_update count_list_remove1)
    qed (use st Drop_clone d m in auto)
  next
    case Collect
    show ?thesis
    proof (cases "unat (gc_counter s) mod GC_LOCK_INTERVAL = 0")
      case True
      have "\<forall>p. map_of (filter (\<lambda>(_, v). 1 < v) (locks s)) p = Some (Suc (count_list hs p)) \<or>
          map_of (filter (\<lambda>(_, v). 1 < v) (locks s)) p = None \<and> p \<notin> set hs"
      proof
        fix p show "map_of (filter (\<lambda>(_, v). 1 < v) (locks s)) p = Some (Suc (count_list hs p)) \<or>
            map_of (filter (\<lambda>(_, v). 1 < v) (locks s)) p = None \<and> p \<notin> set hs"
          using m [of p] count_list_0_iff [of hs p]
          by (cases "count_list hs p") (auto simp: map_of_filter_vals [OF d])
      qed
      then show ?thesis using st Collect d True
        by (simp add: garbage_collect_locks_def Let_def distinct_filter_keys)
    next
      case False
      then show ?thesis using st Collect d m by (simp add: garbage_collect_locks_def Let_def)
    qed
  qed
qed

interpretation lock_table: invariant_system lock_step lock_inv
  by unfold_locales (rule lock_step_keeps)

section \<open>Properties\<close>

text \<open>A store on an empty disk, with the alphabet of the library, for the witnesses.\<close>

definition sample_cfg :: config where
  "sample_cfg = \<lparr>data_dir = [''data''],
     alphabet = ''abcdefghijklmnopqrstuvwxyzABCDEFGHIJKLMNOPQRSTUVWXYZ0123456789_-'',
     key_max_len = 120, debug_assertions = False\<rparr>"

definition empty_fs :: fs where
  "empty_fs = \<lparr>ents = [], durable = [], pending = [], contents = [], unsynced = [], next_ino = 0\<rparr>"

definition sample_disk :: "(io_error \<times> nat) option list \<Rightarrow> disk" where
  "sample_disk fl = \<lparr>cur = empty_fs, faults = fl, hist = []\<rparr>"

definition sample_store :: "(io_error \<times> nat) option list \<Rightarrow> kvstore" where
  "sample_store fl = store_new sample_cfg (sample_disk fl)"

definition manager_key :: kv_key where
  "manager_key = ([], [], ''manager'')"

definition monitor_key :: kv_key where
  "monitor_key = (''monitors'', [], ''ab_1'')"

lemmas sample_defs = sample_cfg_def empty_fs_def sample_disk_def sample_store_def store_new_def
  manager_key_def monitor_key_def

lemma sample_store_inv: "store_inv (sample_store fl)"
  by (simp add: sample_defs store_inv_def alphabet_ok_def fs_wf_def lookup_def)

lemma sample_keys_valid: "valid_key sample_cfg manager_key" "valid_key sample_cfg monitor_key"
  by (simp_all add: valid_key_iff manager_key_def monitor_key_def is_valid_kvstore_str_def sample_cfg_def)

text \<open>
  C17. Without faults, writing a value under a valid key and reading it back gives the value:
  both calls return \<open>Ok\<close>.
\<close>

theorem kv_write_read_back:
  assumes "store_inv s" "valid_key (cfg s) k" "faults (dsk s) = []" "room_for s k"
  shows "fst (kv_put k v s) = Ok () \<and> fst (kv_fetch k (snd (kv_put k v s))) = Ok v"
proof -
  obtain s' where put: "kv_put k v s = (Ok (), s')" "faults (dsk s') = []"
    using kv_put_returns [OF assms, of v] that by (cases "kv_put k v s"; cases "fst (kv_put k v s)") auto
  note spec = fs_kv.put_ok [OF assms(1) put(1)]
  then have "kv_get s' k = Some v" by simp
  with kv_fetch_returns [OF conjunct1 [OF spec] put(2)] put(1) show ?thesis by simp
qed

theorem kv_write_read_back_witness:
  "fst (kv_put monitor_key [7, 8] (sample_store [])) = Ok () \<and>
   fst (kv_fetch monitor_key (snd (kv_put monitor_key [7, 8] (sample_store [])))) = Ok [7, 8]"
  by (rule kv_write_read_back [OF sample_store_inv])
    (simp_all add: sample_defs valid_key_iff is_valid_kvstore_str_def, code_simp)

text \<open>
  C15. Whatever system calls fail, and whatever the outcome, a write leaves the contents of the
  store as they were or with exactly its own key changed to exactly its value; after
  \<open>Ok\<close> it is the latter. A torn value or a change of another key cannot be read.
\<close>

theorem kv_write_atomic:
  assumes "store_inv s" "kv_put k v s = (r, s')"
  shows "store_inv s' \<and> kv_get s' \<in> {kv_get s, (kv_get s)(k \<mapsto> v)} \<and>
    (r = Ok () \<longrightarrow> kv_get s' = (kv_get s)(k \<mapsto> v))"
  using fs_kv.put_cases [OF assms] fs_kv.put_ok [OF assms(1), of k v s'] assms(2) by auto

text \<open>The fourth call, the write of the bytes, fails after one byte.\<close>

theorem kv_write_atomic_witness:
  "kv_get (snd (kv_put monitor_key [7, 8] (sample_store [None, None, None, Some (OtherError ''ENOSPC'', 1)])))
     \<in> {kv_get (sample_store []), (kv_get (sample_store []))(monitor_key \<mapsto> [7, 8])} \<and>
   fst (kv_put monitor_key [7, 8] (sample_store [None, None, None, Some (OtherError ''ENOSPC'', 1)])) =
     Err (OtherError ''ENOSPC'')"
proof
  let ?s = "sample_store [None, None, None, Some (OtherError ''ENOSPC'', 1)]"
  have "kv_get ?s = kv_get (sample_store [])" by (simp add: kv_get_def sample_defs fun_eq_iff)
  moreover have "kv_put monitor_key [7, 8] ?s =
      (fst (kv_put monitor_key [7, 8] ?s), snd (kv_put monitor_key [7, 8] ?s))" by simp
  note kv_write_atomic [OF sample_store_inv this]
  ultimately show "kv_get (snd (kv_put monitor_key [7, 8] ?s))
      \<in> {kv_get (sample_store []), (kv_get (sample_store []))(monitor_key \<mapsto> [7, 8])}" by simp
  show "fst (kv_put monitor_key [7, 8] ?s) = Err (OtherError ''ENOSPC'')" by code_simp
qed


text \<open>A removal of one of two keys, and one whose test fails.\<close>

definition two_keys :: "(io_error \<times> nat) option list \<Rightarrow> kvstore" where
  "two_keys fl = (let s = snd (kv_put manager_key [1] (snd (kv_put monitor_key [7] (sample_store []))))
     in s\<lparr>dsk := (dsk s)\<lparr>faults := fl\<rparr>\<rparr>)"

lemma two_keys_inv: "store_inv (two_keys fl)"
proof -
  obtain r1 s1 where p1: "kv_put monitor_key [7] (sample_store []) = (r1, s1)" by fastforce
  obtain r2 s2 where p2: "kv_put manager_key [1] s1 = (r2, s2)" by fastforce
  have "store_inv s2" using fs_kv.put_cases [OF sample_store_inv p1] fs_kv.put_cases [OF _ p2] by blast
  then show ?thesis using p1 p2 by (simp add: two_keys_def store_inv_def Let_def)
qed




text \<open>
  C22. However threads interleave cloning a path's lock, dropping it and garbage collection, the
  table never loses the lock of a path while a clone of it is alive, so a second thread always
  gets the same lock and never a fresh one.
\<close>

theorem locks_survive_collection:
  "case run_steps lock_step (store_new c d, []) es of
     (s, held) \<Rightarrow> map_of (locks s) p \<in>
       {Some (Suc (count_list held p))} \<union> (if p \<in> set held then {} else {None})"
proof -
  have "lock_inv (store_new c d, [])" by (simp add: store_new_def)
  from lock_table.run_keeps [OF this, of es]
  obtain s held where st: "run_steps lock_step (store_new c d, []) es = (s, held)"
    and inv: "lock_inv (s, held)" by (cases "run_steps lock_step (store_new c d, []) es") metis
  from inv have "map_of (locks s) p = Some (Suc (count_list held p)) \<or>
      map_of (locks s) p = None \<and> p \<notin> set held"
    by (simp del: map_of_eq_Some_iff)
  then show ?thesis by (auto simp: st simp del: map_of_eq_Some_iff)
qed

end
