(* ===== verification/Fs_Store_Crash.thy ===== *)
theory Fs_Store_Crash imports Fs_Store_Props begin

text \<open>
  Power loss. The comment in \<open>write\<close> asks for two things: the old data is never lost
  before the new data is there, and the old data is never seen again once the call has returned.
  Both are proved here for a key whose directory was already durable; the last section shows what
  happens when the write had to make the directory.
\<close>

section \<open>What is on the disk for good\<close>

definition settled :: "fs \<Rightarrow> path \<Rightarrow> bool" where
  "settled f p \<longleftrightarrow> map_of (durable f) p = map_of (ents f) p \<and> p \<notin> set (map fst (pending f))"

definition data_synced :: "fs \<Rightarrow> path \<Rightarrow> bool" where
  "data_synced f p \<longleftrightarrow> (case lookup f p of Some (File i) \<Rightarrow> i \<notin> set (unsynced f) | _ \<Rightarrow> True)"

definition dirs_durable :: "fs \<Rightarrow> path \<Rightarrow> bool" where
  "dirs_durable f p \<longleftrightarrow> list_all (\<lambda>a. lookup f a = Some Dir \<and> settled f a) (ancestors p)"

text \<open>The directories of the file are durable, and so is the file or its absence.\<close>

definition durable_at :: "fs \<Rightarrow> path \<Rightarrow> bool" where
  "durable_at f p \<longleftrightarrow> dirs_durable f p \<and> settled f p \<and> data_synced f p"

text \<open>Every value a power loss can leave for \<open>p\<close> is in \<open>V\<close>.\<close>

definition crash_safe :: "path \<Rightarrow> bytes option set \<Rightarrow> fs \<Rightarrow> bool" where
  "crash_safe p V f \<longleftrightarrow> (\<forall>r. crash_read f p r \<longrightarrow> r \<in> V)"

lemma crash_safe_mono: "crash_safe p V f \<Longrightarrow> V \<subseteq> W \<Longrightarrow> crash_safe p W f"
  by (auto simp: crash_safe_def)

lemma ancestors_facts: "a \<in> set (ancestors p) \<Longrightarrow> a \<noteq> [] \<and> length a < length p \<and> length (butlast a) < length (butlast p)"
  by (auto simp: ancestors_def)

lemma settled_ent: "settled f p \<Longrightarrow> possible_ent f p v \<longleftrightarrow> v = map_of (ents f) p"
  by (force simp: settled_def possible_ent_def)

lemma crash_safeI:
  assumes "dirs_durable f p" "p \<noteq> []"
    and "\<And>v. possible_ent f p v \<Longrightarrow>
      (case v of Some (File j) \<Rightarrow> j \<notin> set (unsynced f) \<and> Some (data_of f j) \<in> V | _ \<Rightarrow> None \<in> V)"
  shows "crash_safe p V f"
  unfolding crash_safe_def
proof (intro allI impI)
  fix r assume r: "crash_read f p r"
  have anc: "possible_ent f a v \<longleftrightarrow> v = Some Dir" if "a \<in> set (ancestors p)" for a v
    using assms(1) that ancestors_facts [OF that] settled_ent [of f a v]
    by (auto simp: dirs_durable_def list_all_iff lookup_def)
  show "r \<in> V"
  proof (cases r)
    case None
    then obtain v where "possible_ent f p v" "\<forall>i. v \<noteq> Some (File i)"
      using r anc by (auto simp: crash_read_def list_ex_iff)
    with assms(3) [of v] None show ?thesis by (auto split: option.splits node.splits)
  next
    case (Some b)
    then obtain i where "possible_ent f p (Some (File i))" "possible_data f i b"
      using r by (auto simp: crash_read_def)
    with assms(3) [of "Some (File i)"] Some show ?thesis by (auto simp: possible_data_def)
  qed
qed

section \<open>The stages of a write\<close>

definition before :: "path \<Rightarrow> bytes option \<Rightarrow> fs \<Rightarrow> bool" where
  "before dest old f \<longleftrightarrow> fs_wf f \<and> durable_at f dest \<and> content_at f dest = old"

definition prepared :: "path \<Rightarrow> bytes option \<Rightarrow> path \<Rightarrow> nat \<Rightarrow> bytes \<Rightarrow> fs \<Rightarrow> bool" where
  "prepared dest old tmp i b f \<longleftrightarrow>
     before dest old f \<and> lookup f tmp = Some (File i) \<and> data_of f i = b"

definition after :: "path \<Rightarrow> bytes \<Rightarrow> bytes option set \<Rightarrow> fs \<Rightarrow> bool" where
  "after dest b V f \<longleftrightarrow> dirs_durable f dest \<and>
     (\<exists>i. lookup f dest = Some (File i) \<and> data_of f i = b \<and> i \<notin> set (unsynced f)) \<and>
     (\<forall>v. possible_ent f dest v \<longrightarrow>
        (case v of Some (File j) \<Rightarrow> j \<notin> set (unsynced f) \<and> Some (data_of f j) \<in> V | _ \<Rightarrow> None \<in> V))"

lemma afterI:
  assumes "dirs_durable f dest" "lookup f dest = Some (File i)" "data_of f i = b" "i \<notin> set (unsynced f)"
    and "\<And>v. possible_ent f dest v \<Longrightarrow>
      (case v of Some (File j) \<Rightarrow> j \<notin> set (unsynced f) \<and> Some (data_of f j) \<in> V | _ \<Rightarrow> None \<in> V)"
  shows "after dest b V f"
  unfolding after_def using assms by blast

lemma after_safe: "after dest b V f \<Longrightarrow> dest \<noteq> [] \<Longrightarrow> crash_safe dest V f"
  by (rule crash_safeI) (auto simp: after_def)

lemma before_safe:
  assumes "before dest old f" "dest \<noteq> []"
  shows "crash_safe dest {old} f"
proof (rule crash_safeI)
  show "dirs_durable f dest" using assms(1) by (simp add: before_def durable_at_def)
  fix v assume "possible_ent f dest v"
  then have "v = lookup f dest" using assms settled_ent [of f dest v]
    by (simp add: before_def durable_at_def lookup_def)
  then show "case v of Some (File j) \<Rightarrow> j \<notin> set (unsynced f) \<and> Some (data_of f j) \<in> {old} | _ \<Rightarrow> None \<in> {old}"
    using assms(1)
    by (auto simp: before_def durable_at_def data_synced_def content_at_def split: option.splits node.splits)
qed (rule assms(2))

text \<open>A change that leaves alone the entries and the file that matter.\<close>

lemma settled_cong:
  assumes "lookup f' p = lookup f p" "p \<noteq> []" "durable f' = durable f"
    "\<And>v. (p, v) \<in> set (pending f') \<longleftrightarrow> (p, v) \<in> set (pending f)"
  shows "settled f' p = settled f p"
proof -
  have "p \<in> set (map fst (pending f')) \<longleftrightarrow> p \<in> set (map fst (pending f))"
    using assms(4) by (force simp: image_iff)
  then show ?thesis using assms(1-3) by (simp add: settled_def lookup_def)
qed

lemma dirs_durable_cong:
  assumes "\<And>q. length q < length p \<Longrightarrow> lookup f' q = lookup f q" "durable f' = durable f"
    "\<And>q v. length q < length p \<Longrightarrow> (q, v) \<in> set (pending f') \<longleftrightarrow> (q, v) \<in> set (pending f)"
  shows "dirs_durable f' p = dirs_durable f p"
  using assms ancestors_facts [of _ p]
  by (auto simp: dirs_durable_def list_all_iff settled_cong [OF assms(1) _ assms(2,3)])

lemma before_cong:
  assumes "before dest old f" "fs_wf f'" "dest \<noteq> []"
    "\<And>q. q \<noteq> tmp \<Longrightarrow> lookup f' q = lookup f q" "durable f' = durable f"
    "\<And>q v. q \<noteq> tmp \<Longrightarrow> (q, v) \<in> set (pending f') \<longleftrightarrow> (q, v) \<in> set (pending f)"
    "tmp \<noteq> dest" "length tmp = length dest"
    "\<And>j. lookup f dest = Some (File j) \<Longrightarrow> data_of f' j = data_of f j"
    "\<And>j. lookup f dest = Some (File j) \<Longrightarrow> j \<in> set (unsynced f') \<Longrightarrow> j \<in> set (unsynced f)"
  shows "before dest old f'"
proof -
  have ne: "dest \<noteq> tmp" "\<And>q. length q < length dest \<Longrightarrow> q \<noteq> tmp" using assms(7,8) by auto
  have "dirs_durable f' dest = dirs_durable f dest"
    by (rule dirs_durable_cong) (use assms ne in auto)
  moreover have "settled f' dest = settled f dest"
    by (rule settled_cong) (use assms ne in auto)
  moreover have "content_at f' dest = content_at f dest"
    by (rule content_at_cong) (use assms ne in auto)
  moreover have "data_synced f dest \<Longrightarrow> data_synced f' dest"
    using assms(4) [OF ne(1)] assms(10) by (auto simp: data_synced_def split: option.splits node.splits)
  ultimately show ?thesis using assms(1,2) by (simp add: before_def durable_at_def)
qed

section \<open>The trail of trees\<close>

text \<open>
  The tree is in stage \<open>A\<close>, and every tree since the history \<open>H\<close> was safe.
\<close>

definition trail :: "fs list \<Rightarrow> (fs \<Rightarrow> bool) \<Rightarrow> (fs \<Rightarrow> bool) \<Rightarrow> disk \<Rightarrow> bool" where
  "trail H C A d \<longleftrightarrow> A (cur d) \<and> C (cur d) \<and> (\<exists>new. hist d = new @ H \<and> (\<forall>f\<in>set new. C f))"

lemma trail_step:
  assumes "trail H C A d" "B f" "C f"
  shows "trail H C B (d\<lparr>cur := f, faults := x, hist := f # hist d\<rparr>)"
proof -
  obtain new where "hist d = new @ H" "\<forall>f\<in>set new. C f" using assms(1) by (auto simp: trail_def)
  then show ?thesis using assms(2,3) by (auto simp: trail_def intro: exI [of _ "f # new"])
qed

lemma trail_faults: "trail H C A (d\<lparr>faults := x\<rparr>) = trail H C A d"
  by (simp add: trail_def)

lemma trail_weaken: "trail H C A d \<Longrightarrow> (\<And>f. A f \<Longrightarrow> B f) \<Longrightarrow> trail H C B d"
  by (auto simp: trail_def)

lemma hoare_sys_trail:
  assumes "\<And>f a f'. A f \<Longrightarrow> C f \<Longrightarrow> c f = (Ok a, f') \<Longrightarrow> B a f' \<and> C f'"
    and "\<And>f r f'. c f = (r, f') \<Longrightarrow> \<not> is_ok r \<Longrightarrow> f' = f"
  shows "hoare (trail H C A) (sys c) (\<lambda>a. trail H C (B a)) (trail H C A)"
proof (rule hoare_sys)
  fix d r f' assume t: "trail H C A d" and c: "c (cur d) = (r, f')"
  let ?d = "d\<lparr>cur := f', faults := tl (faults d), hist := f' # hist d\<rparr>"
  have A: "A (cur d)" "C (cur d)" using t by (simp_all add: trail_def)
  have fail: "trail H C A ?d" if "\<not> is_ok r"
    using assms(2) [OF c that] A trail_step [OF t, of A f'] by simp
  show "case r of Ok a \<Rightarrow> trail H C (B a) ?d | _ \<Rightarrow> trail H C A ?d"
    using assms(1) [OF A] c trail_step [OF t] fail by (cases r) auto
qed (simp add: trail_faults)

section \<open>System call by system call\<close>

definition beside :: "path \<Rightarrow> path \<Rightarrow> bool" where
  "beside dest tmp \<longleftrightarrow> dest \<noteq> [] \<and> tmp \<noteq> dest \<and> length tmp = length dest"

lemma tmp_beside: "dotless dest \<Longrightarrow> is_tmp_of dest tmp \<Longrightarrow> beside dest tmp"
proof -
  assume a: "dotless dest" "is_tmp_of dest tmp"
  have "dest \<noteq> []" using a(1) by (simp add: dotless_def)
  moreover have "length tmp = length dest"
    using is_tmp_of_facts(1,4) [OF a] calculation by (metis append_butlast_last_id length_append_singleton)
  ultimately show ?thesis using is_tmp_of_facts(3) [OF a] by (simp add: beside_def)
qed

lemma before_in: "before dest old f \<Longrightarrow> dest \<noteq> [] \<Longrightarrow> old \<in> V \<Longrightarrow> crash_safe dest V f"
  using crash_safe_mono [OF before_safe] by blast

lemma before_create:
  assumes "before dest old f" "beside dest tmp" "fs_create tmp f = (Ok i, f')"
  shows "prepared dest old tmp i [] f'"
proof -
  have wf: "fs_wf f" using assms(1) by (simp add: before_def)
  note facts = fs_create_Ok [OF wf assms(3)]
  have "before dest old f'"
  proof (rule before_cong [OF assms(1), where tmp = tmp])
    show "fs_wf f'" "durable f' = durable f" using facts by simp_all
    show "lookup f' q = lookup f q" if "q \<noteq> tmp" for q using facts that by simp
    show "(q, v) \<in> set (pending f') \<longleftrightarrow> (q, v) \<in> set (pending f)" if "q \<noteq> tmp" for q v using facts that by simp
    fix j assume j: "lookup f dest = Some (File j)"
    then have "j \<noteq> i" using facts(6) [of dest] assms(2) by (auto simp: beside_def)
    then show "data_of f' j = data_of f j" "j \<in> set (unsynced f') \<Longrightarrow> j \<in> set (unsynced f)"
      using facts(7,10) by simp_all
  qed (use assms(2) in \<open>simp_all add: beside_def\<close>)
  then show ?thesis using facts by (simp add: prepared_def)
qed

lemma prepared_other_ino:
  assumes "prepared dest old tmp i b f" "beside dest tmp" "lookup f dest = Some (File j)"
  shows "j \<noteq> i"
  using assms fs_wf_inj [of f tmp i dest] by (auto simp: prepared_def before_def beside_def)

lemma prepared_data:
  assumes p: "prepared dest old tmp i b f" and "beside dest tmp"
  shows "prepared dest old tmp i b' (put_data i b' f)"
proof -
  have B: "before dest old f" and l: "lookup f tmp = Some (File i)" using p by (simp_all add: prepared_def)
  have "before dest old (put_data i b' f)"
    by (rule before_cong [OF B, where tmp = tmp])
      (use assms prepared_other_ino [OF assms] B in \<open>auto simp: beside_def fs_simps before_def fs_wf_put_data\<close>)
  then show ?thesis using l by (simp add: prepared_def fs_simps)
qed

lemma prepared_sync:
  assumes p: "prepared dest old tmp i b f" and "beside dest tmp"
  shows "prepared dest old tmp i b (f\<lparr>unsynced := removeAll i (unsynced f)\<rparr>)"
proof -
  let ?f = "f\<lparr>unsynced := removeAll i (unsynced f)\<rparr>"
  have B: "before dest old f" using p by (simp add: prepared_def)
  then have "fs_wf ?f" using fs_wf_cong [of ?f f] by (simp add: before_def)
  then have "before dest old ?f"
    by (intro before_cong [OF B, where tmp = tmp]) (use assms in \<open>auto simp: beside_def fs_simps\<close>)
  then show ?thesis using p by (simp add: prepared_def fs_simps)
qed

definition ready :: "path \<Rightarrow> bytes option \<Rightarrow> path \<Rightarrow> bytes \<Rightarrow> fs \<Rightarrow> bool" where
  "ready dest old tmp b f \<longleftrightarrow> (\<exists>i. prepared dest old tmp i b f \<and> i \<notin> set (unsynced f))"

lemma ready_rename:
  assumes "ready dest old tmp b f" "beside dest tmp" "tmp \<noteq> []" "fs_rename tmp dest f = (Ok u, f')"
  shows "after dest b {old, Some b} f'"
proof -
  obtain i where p: "prepared dest old tmp i b f" and i: "i \<notin> set (unsynced f)"
    using assms(1) by (auto simp: ready_def)
  have ne: "tmp \<noteq> dest" "dest \<noteq> []" "length tmp = length dest" using assms(2) by (simp_all add: beside_def)
  have tmp: "lookup f tmp = Some (File i)" "data_of f i = b" and B: "before dest old f"
    using p by (simp_all add: prepared_def)
  have f': "f' = put_ent dest (File i) (drop_ent tmp f)" and nd: "lookup f dest \<noteq> Some Dir"
    using fs_rename_Ok [OF assms(4) ne(1,2)] tmp(1) by auto
  show ?thesis
  proof (rule afterI)
    have "dirs_durable f' dest = dirs_durable f dest"
      by (rule dirs_durable_cong) (use ne assms(3) in \<open>auto simp: f' fs_simps\<close>)
    then show "dirs_durable f' dest" using B by (simp add: before_def durable_at_def)
    show "lookup f' dest = Some (File i)" "data_of f' i = b" "i \<notin> set (unsynced f')"
      using tmp i ne assms(3) by (simp_all add: f' fs_simps)
    fix v assume v: "possible_ent f' dest v"
    show "case v of Some (File j) \<Rightarrow> j \<notin> set (unsynced f') \<and> Some (data_of f' j) \<in> {old, Some b}
      | _ \<Rightarrow> None \<in> {old, Some b}"
    proof -
      have "v = Some (File i) \<or> v = lookup f dest"
        using v B ne by (force simp: possible_ent_def f' fs_simps before_def durable_at_def settled_def lookup_def)
      then show ?thesis using i tmp(2) B nd
        by (auto simp: f' fs_simps before_def durable_at_def data_synced_def content_at_def
            split: option.splits node.splits)
    qed
  qed
qed

lemma map_of_filter_key: "map_of (filter (\<lambda>(p, n). P p) al) q = (if P q then map_of al q else None)"
  by (induction al) auto

lemma after_sync_dir:
  assumes "after dest b V f" "dest \<noteq> []" "fs_sync_dir (butlast dest) f = (Ok u, f')"
  shows "after dest b {Some b} f' \<and> durable_at f' dest"
proof -
  let ?d = "butlast dest"
  have f': "f' = f\<lparr>durable := filter (\<lambda>(p, n). butlast p \<noteq> ?d) (durable f) @
                           filter (\<lambda>(p, n). butlast p = ?d) (ents f),
                pending := filter (\<lambda>(p, v). butlast p \<noteq> ?d) (pending f)\<rparr>"
    using assms(3) by (simp add: fs_sync_dir_def)
  have look: "lookup f' q = lookup f q" for q by (simp add: f' fs_simps)
  have dur: "map_of (durable f') q = (if butlast q = ?d then map_of (ents f) q else map_of (durable f) q)" for q
    by (simp add: f' map_add_def map_of_filter_key split: option.splits)
  have pend: "q \<in> fst ` set (pending f') \<longleftrightarrow> q \<in> fst ` set (pending f) \<and> butlast q \<noteq> ?d" for q
    by (force simp: f')
  obtain i where i: "lookup f dest = Some (File i)" "data_of f i = b" "i \<notin> set (unsynced f)"
    using assms(1) by (auto simp: after_def)
  have "settled f' a" if "a \<in> set (ancestors dest)" for a
    using assms(1) that ancestors_facts [OF that] dur [of a] pend [of a] look [of a]
    by (auto simp: after_def dirs_durable_def list_all_iff settled_def lookup_def)
  then have "dirs_durable f' dest"
    using assms(1) look by (simp add: after_def dirs_durable_def list_all_iff)
  moreover have "v = Some (File i)" if v: "possible_ent f' dest v" for v
    using v dur [of dest] pend [of dest] i(1) assms(2) by (force simp: possible_ent_def lookup_def)
  moreover have same: "unsynced f' = unsynced f" "data_of f' j = data_of f j" for j
    by (simp_all add: f' fs_simps)
  ultimately have "after dest b {Some b} f'"
    using i look by (intro afterI [where i = i]) fastforce+
  moreover have "data_synced f' dest"
    using i look same(1) by (simp add: data_synced_def)
  moreover have "settled f' dest"
    using dur [of dest] pend [of dest] by (simp add: settled_def f')
  ultimately show ?thesis by (simp add: after_def durable_at_def)
qed

section \<open>The whole call\<close>

lemma create_dirs_existing:
  "list_all (\<lambda>n. lookup (cur d) (pre @ take (Suc n) cs) = Some Dir) [0..<length cs] \<Longrightarrow>
   create_dirs pre cs d = (Ok (), d)"
proof (induction cs arbitrary: pre)
  case (Cons c cs)
  have "lookup (cur d) (pre @ [c]) = Some Dir" using Cons.prems by (force simp: list_all_iff)
  moreover have "list_all (\<lambda>n. lookup (cur d) ((pre @ [c]) @ take (Suc n) cs) = Some Dir) [0..<length cs]"
    using Cons.prems by (force simp: list_all_iff)
  ultimately show ?case using Cons.IH [of "pre @ [c]"] by simp
qed simp

lemma parent_exists:
  assumes "dirs_durable (cur d) dest" "dest \<noteq> []"
  shows "create_dir_all (butlast dest) d = (Ok (), d)"
proof -
  have "lookup (cur d) (take (Suc n) (butlast dest)) = Some Dir" if "n < length (butlast dest)" for n
  proof -
    have "take (Suc n) (butlast dest) = take (Suc n) dest" using that by (simp add: take_butlast)
    moreover have "take (Suc n) dest \<in> set (ancestors dest)"
      using that by (auto simp: ancestors_def)
    ultimately show ?thesis using assms(1) by (auto simp: dirs_durable_def list_all_iff)
  qed
  then show ?thesis
    using create_dirs_existing [of d "[]" "butlast dest"] by (simp add: create_dir_all_def list_all_iff)
qed

abbreviation anything :: "fs \<Rightarrow> bool" where
  "anything \<equiv> \<lambda>f. True"

lemma trail_any: "trail H C A d \<Longrightarrow> trail H C anything d"
  by (rule trail_weaken) auto

text \<open>A step of the call: stage \<open>A\<close> to stage \<open>B\<close>, safe also where it fails.\<close>

lemma step_st:
  assumes "\<And>f a f'. A f \<Longrightarrow> C f \<Longrightarrow> c f = (Ok a, f') \<Longrightarrow> B a f' \<and> C f'"
    and "\<And>f r f'. c f = (r, f') \<Longrightarrow> \<not> is_ok r \<Longrightarrow> f' = f"
  shows "hoare (at_cfg k (trail H C A)) (on_disk (sys c)) (\<lambda>a. at_cfg k (trail H C (B a)))
    (at_cfg k (trail H C anything))"
  by (rule hoare_weaken [OF hoare_on_disk [OF hoare_sys_trail [of A C c B]]])
    (use assms in \<open>auto simp: at_cfg_def trail_any\<close>)

lemma write_step:
  assumes bs: "beside dest tmp" and V: "old \<in> V" and d: "dest \<noteq> []"
  shows "hoare (at_cfg k (trail H (crash_safe dest V) (prepared dest old tmp i [])))
    (on_disk (sys_write i buf)) (\<lambda>_. at_cfg k (trail H (crash_safe dest V) (prepared dest old tmp i buf)))
    (at_cfg k (trail H (crash_safe dest V) anything))"
proof (rule hoare_on_disk, unfold hoare_def, intro allI impI)
  let ?C = "crash_safe dest V"
  fix dk assume t: "trail H ?C (prepared dest old tmp i []) dk"
  then have p: "prepared dest old tmp i [] (cur dk)" by (simp add: trail_def)
  then have e: "data_of (cur dk) i = []" by (simp add: prepared_def)
  have put: "trail H ?C (prepared dest old tmp i b)
      (dk\<lparr>cur := put_data i b (cur dk), faults := x, hist := put_data i b (cur dk) # hist dk\<rparr>)" for b x
  proof (rule trail_step [OF t])
    show q: "prepared dest old tmp i b (put_data i b (cur dk))" by (rule prepared_data [OF p bs])
    show "crash_safe dest V (put_data i b (cur dk))"
      using q by (intro before_in [OF _ d V]) (simp add: prepared_def)
  qed
  show "case sys_write i buf dk of (Ok a, s') \<Rightarrow> trail H ?C (prepared dest old tmp i buf) s'
      | (_, s') \<Rightarrow> trail H ?C anything s'"
    using put e trail_any [OF put]
    by (auto simp: sys_write_def perform_def fs_write_def split: option.splits)
qed

lemma write_tmp_trail:
  assumes bs: "beside dest tmp" and V: "old \<in> V" and d: "dest \<noteq> []"
  shows "hoare (at_cfg k (trail H (crash_safe dest V) (before dest old))) (write_tmp tmp buf)
    (\<lambda>_. at_cfg k (trail H (crash_safe dest V) (ready dest old tmp buf)))
    (at_cfg k (trail H (crash_safe dest V) anything))"
  unfolding write_tmp_def
proof (rule hoare_bind [OF step_st hoare_bind [OF write_step [OF assms] step_st]])
  fix f i f' assume "before dest old f" "fs_create tmp f = (Ok i, f')"
  from before_create [OF this(1) bs this(2)]
  show "prepared dest old tmp i [] f' \<and> crash_safe dest V f'"
    using before_in [OF _ d V] by (simp add: prepared_def)
next
  fix i f u f' assume "prepared dest old tmp i buf f" "fs_sync i f = (Ok u, f')"
  then have "prepared dest old tmp i buf f'" "i \<notin> set (unsynced f')"
    using prepared_sync [OF _ bs] by (auto simp: fs_sync_def)
  then show "ready dest old tmp buf f' \<and> crash_safe dest V f'"
    using before_in [OF _ d V] by (auto simp: ready_def prepared_def)
qed (auto simp: fs_create_fail fs_sync_def)

lemma publish_trail:
  assumes bs: "beside dest tmp" and t: "tmp \<noteq> []" and d: "dest \<noteq> []"
  shows "hoare (at_cfg k (trail H (crash_safe dest {old, Some buf}) (ready dest old tmp buf)))
    (publish tmp dest (butlast dest))
    (\<lambda>_. at_cfg k (trail H (crash_safe dest {old, Some buf}) (\<lambda>f. after dest buf {Some buf} f \<and> durable_at f dest)))
    (at_cfg k (trail H (crash_safe dest {old, Some buf}) anything))"
  unfolding publish_def
proof (rule hoare_bind [OF step_st hoare_bind [OF step_st step_st]])
  fix f u f' assume "ready dest old tmp buf f" "fs_rename tmp dest f = (Ok u, f')"
  from ready_rename [OF this(1) bs t this(2)]
  show "after dest buf {old, Some buf} f' \<and> crash_safe dest {old, Some buf} f'"
    using after_safe [OF _ d] by blast
next
  fix f u f' assume "after dest buf {old, Some buf} f" "fs_sync_dir (butlast dest) f = (Ok u, f')"
  from after_sync_dir [OF this(1) d this(2)]
  show "(after dest buf {Some buf} f' \<and> durable_at f' dest) \<and> crash_safe dest {old, Some buf} f'"
    using crash_safe_mono [OF after_safe [OF _ d]] by blast
qed (auto simp: fs_rename_fail fs_sync_dir_def fs_open_def after_safe [OF _ d] split: option.splits)

lemma kv_write_trail:
  assumes ok: "alphabet_ok c" and v: "valid_key c (prim, sec, key)"
  defines "dest \<equiv> key_path c (prim, sec, key)"
  shows "hoare (at_cfg c (trail H (crash_safe dest {old, Some buf}) (before dest old)))
    (kv_write prim sec key buf)
    (\<lambda>_. at_cfg c (trail H (crash_safe dest {old, Some buf}) (\<lambda>f. after dest buf {Some buf} f \<and> durable_at f dest)))
    (at_cfg c (trail H (crash_safe dest {old, Some buf}) anything))" (is "hoare ?P _ ?Q ?R")
  unfolding kv_write_def
proof (rule hoare_bind)
  have dl: "dotless dest" unfolding dest_def by (rule key_path_dotless [OF ok v])
  have d: "dest \<noteq> []" by (simp add: dest_def)
  show "hoare ?P (check_st prim sec (Some key)) (\<lambda>_ s. ?P s \<and> valid_key c (prim, sec, key)) ?R"
    by (rule hoare_weaken [OF hoare_check [of c "trail H (crash_safe dest {old, Some buf}) (before dest old)"]])
      (auto simp: at_cfg_def trail_any)
  fix u
  have mk: "hoare ?P (on_disk (create_dir_all (butlast dest))) (\<lambda>_. ?P) ?R"
    using parent_exists [OF _ d]
    by (auto simp: hoare_def at_cfg_def on_disk_def trail_def before_def durable_at_def)
  have tmp: "hoare ?P (bind_st (write_tmp tmp buf) (\<lambda>_.
      bind_st (with_lock dest (publish tmp dest (butlast dest))) (\<lambda>_. gc_st))) ?Q ?R"
    if t: "is_tmp_of dest tmp" for tmp
    using tmp_beside [OF dl t] is_tmp_of_facts(1) [OF dl t] d
    by (intro hoare_bind [OF write_tmp_trail hoare_bind [OF hoare_with_lock [OF publish_trail] hoare_gc]]) auto
  show "hoare (\<lambda>s. ?P s \<and> valid_key c (prim, sec, key))
    (bind_st (dest_st prim sec key) (\<lambda>dest. bind_st (parent_st dest) (\<lambda>parent.
     bind_st (on_disk (create_dir_all parent)) (\<lambda>_. bind_st (tmp_path_st dest) (\<lambda>tmp.
     bind_st (write_tmp tmp buf) (\<lambda>_.
     bind_st (with_lock dest (publish tmp dest parent)) (\<lambda>_. gc_st))))))) ?Q ?R"
  proof (rule hoare_bind [OF hoare_dest [OF ok]], rule hoare_fact2)
    fix p assume "p = key_path c (prim, sec, key)"
    then have p: "p = dest" by (simp add: dest_def)
    show "hoare ?P (bind_st (parent_st p) (\<lambda>parent.
      bind_st (on_disk (create_dir_all parent)) (\<lambda>_. bind_st (tmp_path_st p) (\<lambda>tmp.
      bind_st (write_tmp tmp buf) (\<lambda>_.
      bind_st (with_lock p (publish tmp p parent)) (\<lambda>_. gc_st)))))) ?Q ?R"
      unfolding p
    proof (rule hoare_bind [OF hoare_parent [OF d]], rule hoare_fact)
      fix parent assume pa: "parent = butlast dest"
      show "hoare ?P (bind_st (on_disk (create_dir_all parent)) (\<lambda>_. bind_st (tmp_path_st dest) (\<lambda>tmp.
        bind_st (write_tmp tmp buf) (\<lambda>_.
        bind_st (with_lock dest (publish tmp dest parent)) (\<lambda>_. gc_st))))) ?Q ?R"
        unfolding pa
        by (rule hoare_bind [OF mk], rule hoare_bind [OF hoare_tmp_path], rule hoare_fact, rule tmp)
    qed
  qed
qed

section \<open>What a new namespace loses\<close>

text \<open>A property of trees that each system call of the write keeps.\<close>

lemma hoare_sys_inv:
  assumes "\<And>f. P f \<Longrightarrow> P (snd (c f))"
  shows "hoare (at_cfg k (\<lambda>d. P (cur d))) (on_disk (sys c)) (\<lambda>a. at_cfg k (\<lambda>d. P (cur d))) (at_cfg k (\<lambda>d. P (cur d)))"
  by (rule hoare_on_disk, rule hoare_sys) (use assms in \<open>force split: outcome.splits\<close>)+

lemma durable_same:
  "durable (snd (fs_create p f)) = durable f" "durable (snd (fs_write i b f)) = durable f"
  "durable (snd (fs_sync i f)) = durable f" "durable (snd (fs_rename p q f)) = durable f"
  "durable (snd (fs_open p f)) = durable f" "durable (snd (fs_mkdir p f)) = durable f"
  by (auto simp: fs_create_def new_file_def Let_def fs_write_def fs_sync_def fs_rename_def fs_open_def
      fs_mkdir_def put_ent_def put_data_def drop_ent_def split: outcome.splits option.splits node.splits)

lemma durable_sync_dir:
  "butlast q \<noteq> d \<Longrightarrow> map_of (durable (snd (fs_sync_dir d f))) q = map_of (durable f) q"
  by (simp add: fs_sync_dir_def map_add_def map_of_filter_key split: option.splits)

definition unsettled :: "path \<Rightarrow> disk \<Rightarrow> bool" where
  "unsettled ns d \<longleftrightarrow> map_of (durable (cur d)) ns = None"

lemma create_dirs_unsettled: "unsettled ns d \<Longrightarrow> unsettled ns (snd (create_dirs pre cs d))"
proof (induction pre cs d rule: create_dirs.induct)
  case (2 pre c cs d)
  have "unsettled ns (snd (sys (fs_mkdir (pre @ [c])) d))"
    using 2(3) by (simp add: unsettled_def sys_def perform_def fs_mkdir_def put_ent_def split: option.splits)
  then show ?case using 2
    by (cases "lookup (cur d) (pre @ [c])"; cases "the (lookup (cur d) (pre @ [c]))";
        cases "sys (fs_mkdir (pre @ [c])) d"; cases "fst (sys (fs_mkdir (pre @ [c])) d)") auto
qed simp

lemma hoare_unsettled:
  assumes "ns \<noteq> []"
  shows
    "hoare (at_cfg c (unsettled ns)) (on_disk (create_dir_all p)) (\<lambda>_. at_cfg c (unsettled ns)) (at_cfg c (unsettled ns))"
    "hoare (at_cfg c (unsettled ns)) (write_tmp tmp b) (\<lambda>_. at_cfg c (unsettled ns)) (at_cfg c (unsettled ns))"
    "hoare (at_cfg c (unsettled ns)) (publish tmp dest ns) (\<lambda>_. at_cfg c (unsettled ns)) (at_cfg c (unsettled ns))"
proof -
  note inv = hoare_sys_inv [of "\<lambda>f. map_of (durable f) ns = None", folded unsettled_def]
  show "hoare (at_cfg c (unsettled ns)) (on_disk (create_dir_all p)) (\<lambda>_. at_cfg c (unsettled ns)) (at_cfg c (unsettled ns))"
    using create_dirs_unsettled [of ns]
    by (intro hoare_on_disk hoareI) (metis create_dir_all_def snd_conv)+
  have w: "hoare (at_cfg c (unsettled ns)) (on_disk (sys_write i b)) (\<lambda>_. at_cfg c (unsettled ns)) (at_cfg c (unsettled ns))" for i
    by (rule hoare_on_disk)
      (auto simp: hoare_def sys_write_def perform_def unsettled_def fs_write_def put_data_def split: option.splits)
  show "hoare (at_cfg c (unsettled ns)) (write_tmp tmp b) (\<lambda>_. at_cfg c (unsettled ns)) (at_cfg c (unsettled ns))"
    unfolding write_tmp_def by (intro hoare_bind [OF inv hoare_bind [OF w inv]]) (simp_all add: durable_same)
  have "butlast ns \<noteq> ns" using assms by (metis append_butlast_last_id append_self_conv not_Cons_self2)
  then show "hoare (at_cfg c (unsettled ns)) (publish tmp dest ns) (\<lambda>_. at_cfg c (unsettled ns)) (at_cfg c (unsettled ns))"
    unfolding publish_def
    by (intro hoare_bind [OF inv hoare_bind [OF inv inv]]) (simp_all add: durable_same durable_sync_dir)
qed

lemma kv_write_unsettled:
  assumes ok: "alphabet_ok c" and ns: "key_dir c (prim, sec, key) \<noteq> []" (is "?ns \<noteq> []")
  shows "hoare (at_cfg c (unsettled (key_dir c (prim, sec, key)))) (kv_write prim sec key buf)
    (\<lambda>_. at_cfg c (unsettled (key_dir c (prim, sec, key))))
    (at_cfg c (unsettled (key_dir c (prim, sec, key))))" (is "hoare ?P _ (\<lambda>_. ?P) ?P")
  unfolding kv_write_def
proof (rule hoare_bind [OF hoare_check], rule hoare_bind [OF hoare_dest [OF ok]], rule hoare_fact2)
  fix dest assume d: "dest = key_path c (prim, sec, key)"
  note U = hoare_unsettled [OF ns]
  show "hoare ?P (bind_st (parent_st dest) (\<lambda>parent. bind_st (on_disk (create_dir_all parent)) (\<lambda>_.
    bind_st (tmp_path_st dest) (\<lambda>tmp. bind_st (write_tmp tmp buf) (\<lambda>_.
    bind_st (with_lock dest (publish tmp dest parent)) (\<lambda>_. gc_st)))))) (\<lambda>_. ?P) ?P"
  proof (rule hoare_bind [OF hoare_parent], simp add: d, rule hoare_fact)
    fix parent assume "parent = butlast dest"
    then have p: "parent = ?ns" by (simp add: d)
    show "hoare ?P (bind_st (on_disk (create_dir_all parent)) (\<lambda>_.
      bind_st (tmp_path_st dest) (\<lambda>tmp. bind_st (write_tmp tmp buf) (\<lambda>_.
      bind_st (with_lock dest (publish tmp dest parent)) (\<lambda>_. gc_st))))) (\<lambda>_. ?P) ?P"
      unfolding p
      by (rule hoare_bind [OF U(1)], rule hoare_bind [OF hoare_tmp_path], rule hoare_fact,
          rule hoare_bind [OF U(2)], rule hoare_bind [OF hoare_with_lock [OF U(3)]], rule hoare_gc)
  qed
qed

section \<open>Properties\<close>

text \<open>
  C1. The claim of the comment in \<open>write\<close>, for a key whose directory is durable, with the value it
  holds, as after an earlier write. Then a power loss at any moment during the call, whatever fails, leaves the old value or the new one, whole; and
  once the call has returned \<open>Ok\<close>, only the new one. The key is durable again afterwards, so
  the next write starts from the same situation. The first write of a namespace, which makes the
  directory, is not among these (\<open>kv_write_new_namespace_lost\<close>).
\<close>

theorem kv_write_crash_safe:
  assumes "store_inv s" "valid_key (cfg s) k" "durable_at (cur (dsk s)) (key_path (cfg s) k)"
    "kv_put k v s = (r, s')"
  shows "(\<exists>new. hist (dsk s') = new @ hist (dsk s) \<and>
            list_all (crash_safe (key_path (cfg s) k) {kv_get s k, Some v}) new) \<and>
    (r = Ok () \<longrightarrow> crash_safe (key_path (cfg s) k) {Some v} (cur (dsk s')) \<and>
                   durable_at (cur (dsk s')) (key_path (cfg s) k))"
proof -
  obtain prim sec key where k: "k = (prim, sec, key)" by (cases k)
  have ok: "alphabet_ok (cfg s)" using assms(1) by (simp add: store_inv_def)
  let ?p = "key_path (cfg s) k" and ?H = "hist (dsk s)"
  let ?C = "crash_safe ?p {kv_get s k, Some v}"
  have "before ?p (kv_get s k) (cur (dsk s))"
    using assms(1-3) by (simp add: before_def store_inv_def kv_get_def)
  then have start: "at_cfg (cfg s) (trail ?H ?C (before ?p (kv_get s k))) s"
    using before_in by (simp add: at_cfg_def trail_def)
  have put: "kv_write prim sec key v s = (r, s')" using assms(4) k by simp
  note T = kv_write_trail [OF ok assms(2) [unfolded k], where H = ?H and buf = v and old = "kv_get s k", folded k]
  show ?thesis
  proof (cases "r = Ok ()")
    case True
    from hoare_ok [OF T start] put True
    have fin: "trail ?H ?C (\<lambda>f. after ?p v {Some v} f \<and> durable_at f ?p) (dsk s')"
      by (simp add: at_cfg_def)
    then show ?thesis using after_safe [of ?p v "{Some v}"] by (auto simp: trail_def list_all_iff)
  next
    case False
    then have "\<not> is_ok r" by (auto simp: is_ok_iff)
    from hoare_fail [OF T start put this] False show ?thesis
      by (auto simp: at_cfg_def trail_def list_all_iff)
  qed
qed

text \<open>A disk on which the data directory is durable.\<close>

definition mounted_store :: "kvstore" where
  "mounted_store = store_new sample_cfg
     \<lparr>cur = empty_fs\<lparr>ents := [([''data''], Dir)], durable := [([''data''], Dir)]\<rparr>, faults = [], hist = []\<rparr>"

lemma mounted_inv: "store_inv mounted_store"
  by (simp add: mounted_store_def sample_defs store_inv_def alphabet_ok_def fs_wf_def lookup_def)

lemma mounted_cfg: "cfg mounted_store = sample_cfg"
  by (simp add: mounted_store_def store_new_def)

theorem kv_write_crash_safe_witness:
  "crash_safe (key_path sample_cfg manager_key) {Some [5]}
     (cur (dsk (snd (kv_put manager_key [5] mounted_store))))"
proof -
  have put: "kv_put manager_key [5] mounted_store = (Ok (), snd (kv_put manager_key [5] mounted_store))"
    by (rule prod_eqI) (simp_all, code_simp)
  have dur: "durable_at (cur (dsk mounted_store)) (key_path (cfg mounted_store) manager_key)"
    by code_simp
  have valid: "valid_key (cfg mounted_store) manager_key"
    by (simp add: mounted_cfg sample_keys_valid)
  from kv_write_crash_safe [OF mounted_inv valid dur put] show ?thesis by (simp add: mounted_cfg)
qed

text \<open>
  C18. The write that makes its namespace's directory is not durable: \<open>write\<close> syncs the
  directory of the file, but nobody syncs the directory that the new directory was entered in. As
  long as that entry was not durable before, a power loss after \<open>Ok\<close> can lose the value.
\<close>

theorem kv_write_new_namespace_lost:
  assumes "store_inv s" "map_of (durable (cur (dsk s))) (key_dir (cfg s) k) = None"
    "key_dir (cfg s) k \<noteq> []" "kv_put k v s = (Ok (), s')"
  shows "crash_read (cur (dsk s')) (key_path (cfg s) k) None"
proof -
  obtain prim sec key where k: "k = (prim, sec, key)" by (cases k)
  have ok: "alphabet_ok (cfg s)" using assms(1) by (simp add: store_inv_def)
  have start: "at_cfg (cfg s) (unsettled (key_dir (cfg s) k)) s"
    using assms(2) by (simp add: at_cfg_def unsettled_def)
  have put: "kv_write prim sec key v s = (Ok (), s')" using assms(4) k by simp
  have "at_cfg (cfg s) (unsettled (key_dir (cfg s) k)) s'"
    using hoare_ok [OF kv_write_unsettled [OF ok assms(3) [unfolded k]] start [unfolded k] put]
    unfolding k .
  then have "unsettled (key_dir (cfg s) k) (dsk s')" by (simp add: at_cfg_def)
  then have "possible_ent (cur (dsk s')) (key_dir (cfg s) k) None"
    by (simp add: unsettled_def possible_ent_def)
  moreover have "key_dir (cfg s) k \<in> set (ancestors (key_path (cfg s) k))"
  proof -
    have "take (length (key_dir (cfg s) k)) (key_path (cfg s) k) = key_dir (cfg s) k"
      "length (key_dir (cfg s) k) < length (key_path (cfg s) k)"
      unfolding k key_path_snoc by simp_all
    then show ?thesis using assms(3) by (force simp: ancestors_def Suc_le_eq)
  qed
  ultimately have "list_ex (\<lambda>a. \<exists>v. possible_ent (cur (dsk s')) a v \<and> v \<noteq> Some Dir)
      (ancestors (key_path (cfg s) k))"
    unfolding list_ex_iff by blast
  then show ?thesis by (simp add: crash_read_def)
qed

theorem kv_write_new_namespace_lost_witness:
  "fst (kv_put monitor_key [5] mounted_store) = Ok () \<and>
   crash_read (cur (dsk (snd (kv_put monitor_key [5] mounted_store)))) (key_path sample_cfg monitor_key) None"
proof -
  have put: "kv_put monitor_key [5] mounted_store = (Ok (), snd (kv_put monitor_key [5] mounted_store))"
    by (rule prod_eqI) (simp_all, code_simp)
  have "map_of (durable (cur (dsk mounted_store))) (key_dir (cfg mounted_store) monitor_key) = None"
    "key_dir (cfg mounted_store) monitor_key \<noteq> []"
    by (simp_all add: mounted_store_def sample_defs)
  from kv_write_new_namespace_lost [OF mounted_inv this put] put show ?thesis
    by (metis fst_conv mounted_cfg)
qed

end
