(* ===== verification/Hex_Utils.thy ===== *)
theory Hex_Utils imports Rust_Str begin

text \<open>
  \<open>src/src/hex_utils.rs\<close>: decoding of hexadecimal text into bytes, encoding of bytes,
  and the public-key parser built on it. The accumulator \<open>b\<close> and the bytes are 8-bit
  words, with the source's shift and bitwise or. \<open>PublicKey::from_slice\<close> belongs to
  \<open>secp256k1\<close> and is the parameter \<open>from_slice\<close>.
\<close>

unbundle bit_operations_syntax

section \<open>Decoding\<close>

text \<open>The match on one byte of the text: upper case, lower case, digits, anything else.\<close>

definition hex_digit :: "u8 \<Rightarrow> u8 option" where
  "hex_digit c =
     (if 65 \<le> c \<and> c \<le> 70 then Some (c - 65 + 10)
      else if 97 \<le> c \<and> c \<le> 102 then Some (c - 97 + 10)
      else if 48 \<le> c \<and> c \<le> 57 then Some (c - 48)
      else None)"

fun to_vec_loop :: "nat \<Rightarrow> u8 \<Rightarrow> bytes \<Rightarrow> bytes \<Rightarrow> bytes option" where
  "to_vec_loop idx b out [] = Some out"
| "to_vec_loop idx b out (c # cs) =
     (let b = push_bit 4 b in
      case hex_digit c of
        None \<Rightarrow> None
      | Some d \<Rightarrow>
          (let b = b OR d in
           if odd idx then to_vec_loop (Suc idx) 0 (out @ [b]) cs
           else to_vec_loop (Suc idx) b out cs))"

definition to_vec :: "string \<Rightarrow> bytes option" where
  "to_vec hex = to_vec_loop 0 0 [] (as_bytes hex)"

section \<open>Encoding\<close>

text \<open>\<open>{:02x}\<close>: two lower-case digits for each byte.\<close>

definition nibble_char :: "nat \<Rightarrow> char" where
  "nibble_char n = (if n < 10 then char_of (48 + n) else char_of (87 + n))"

fun hex_str :: "bytes \<Rightarrow> string" where
  "hex_str [] = []"
| "hex_str (v # vs) = nibble_char (unat v div 16) # nibble_char (unat v mod 16) # hex_str vs"

section \<open>Public keys\<close>

definition to_compressed_pubkey :: "(bytes \<Rightarrow> 'pk option) \<Rightarrow> string \<Rightarrow> 'pk option" where
  "to_compressed_pubkey from_slice hex =
     (if length hex \<noteq> 33 * 2 then None
      else (case to_vec (take (33 * 2) hex) of
              None \<Rightarrow> None
            | Some data \<Rightarrow> from_slice data))"

section \<open>Decoding by pairs\<close>

text \<open>The reference reading: the text two digits at a time; a single last digit is dropped.\<close>

fun hex_pairs :: "bytes \<Rightarrow> bytes option" where
  "hex_pairs [] = Some []"
| "hex_pairs [c] = (case hex_digit c of None \<Rightarrow> None | Some _ \<Rightarrow> Some [])"
| "hex_pairs (c # d # cs) =
     (case (hex_digit c, hex_digit d, hex_pairs cs) of
        (Some h, Some l, Some bs) \<Rightarrow> Some ((push_bit 4 h OR l) # bs)
      | _ \<Rightarrow> None)"

lemma to_vec_loop_pairs:
  "even idx \<Longrightarrow> to_vec_loop idx 0 out cs = map_option ((@) out) (hex_pairs cs)"
proof (induction cs arbitrary: idx out rule: hex_pairs.induct)
  case (3 c d cs)
  show ?case
  proof (cases "hex_digit c")
    case (Some h)
    then show ?thesis
      using 3 by (auto simp: Let_def option.map_comp comp_def split: option.splits)
  qed (simp add: Let_def)
qed (auto simp: Let_def split: option.splits)

lemma to_vec_pairs: "to_vec s = hex_pairs (as_bytes s)"
  using to_vec_loop_pairs [of 0 "[]" "as_bytes s"] by (cases "hex_pairs (as_bytes s)") (simp_all add: to_vec_def)

definition is_hex :: "char \<Rightarrow> bool" where
  "is_hex c \<longleftrightarrow> hex_digit (of_char c) \<noteq> None"

lemma hex_pairs_defined: "hex_pairs cs \<noteq> None \<longleftrightarrow> list_all (\<lambda>c. hex_digit c \<noteq> None) cs"
  by (induction cs rule: hex_pairs.induct) (auto split: option.splits)

lemma to_vec_defined: "to_vec s \<noteq> None \<longleftrightarrow> list_all is_hex s"
  using hex_pairs_defined [of "as_bytes s"]
  by (simp add: to_vec_pairs as_bytes_def list_all_length is_hex_def)

lemma hex_pairs_length: "hex_pairs cs = Some bs \<Longrightarrow> length bs = length cs div 2"
  by (induction cs arbitrary: bs rule: hex_pairs.induct) (auto split: option.splits)

lemma to_vec_length: "to_vec s = Some bs \<Longrightarrow> length bs = length s div 2"
  using hex_pairs_length [of "as_bytes s" bs] by (simp add: to_vec_pairs)

lemma hex_pairs_snoc:
  "even (length cs) \<Longrightarrow> hex_digit c \<noteq> None \<Longrightarrow> hex_pairs (cs @ [c]) = hex_pairs cs"
  by (induction cs rule: hex_pairs.induct) (auto split: option.splits)

section \<open>Digits of a byte\<close>

lemma nibble_hex: "n < 16 \<Longrightarrow> hex_digit (of_char (nibble_char n)) = Some (of_nat n)"
proof -
  assume "n < 16"
  then have "n \<in> set [0..<16]" by simp
  then show ?thesis
    by (simp add: upt_conv_Cons nibble_char_def)
      (elim disjE; simp add: hex_digit_def word_le_nat_alt byte_of_char_of)
qed

lemma high_nibble: "word_of_nat (unat v div 16) = drop_bit 4 (v :: u8)"
  using unsigned_less [of v, where 'a = nat]
  by (simp add: word_unat_eq_iff unat_of_nat drop_bit_eq_div unat_div)

lemma low_nibble: "word_of_nat (unat v mod 16) = take_bit 4 (v :: u8)"
  using unsigned_less [of v, where 'a = nat]
  by (simp add: word_unat_eq_iff unat_of_nat take_bit_eq_mod unat_mod)

lemma byte_nibbles: "push_bit 4 (word_of_nat (unat v div 16)) OR word_of_nat (unat v mod 16) = (v :: u8)"
  unfolding high_nibble low_nibble by (rule bit_word_eqI) (auto simp: bit_simps)

lemma unat_div_16: "unat (v :: u8) div 16 < 16"
  using unsigned_less [of v, where 'a = nat] by simp

lemma hex_pairs_hex_str: "hex_pairs (as_bytes (hex_str bs)) = Some bs"
  by (induction bs) (simp_all add: as_bytes_def nibble_hex byte_nibbles unat_div_16)

lemma length_hex_str [simp]: "length (hex_str bs) = 2 * length bs"
  by (induction bs) auto

text \<open>\<open>hex_str\<close> and \<open>to_vec\<close> are a codec.\<close>

interpretation hex_text: codec hex_str to_vec
  by unfold_locales (simp add: to_vec_pairs hex_pairs_hex_str)

section \<open>Encoding what was decoded\<close>

definition to_ascii_lowercase :: "char \<Rightarrow> char" where
  "to_ascii_lowercase c =
     (if 65 \<le> (of_char c :: nat) \<and> (of_char c :: nat) \<le> 90 then char_of (of_char c + 32 :: nat) else c)"

definition digit_ok :: "char \<Rightarrow> bool" where
  "digit_ok c \<longleftrightarrow>
     (case hex_digit (of_char c) of
        None \<Rightarrow> True
      | Some d \<Rightarrow> d < 16 \<and> nibble_char (unat d) = to_ascii_lowercase c)"

lemma digits_ok: "list_all (\<lambda>n. digit_ok (char_of n)) ([48..<58] @ [65..<71] @ [97..<103])"
  by code_simp

lemma unat_byte: "unat (of_char c :: u8) = of_char c"
proof -
  have "(of_char c :: nat) < 256" by (metis nat_of_char_less_256)
  moreover have "(of_char c :: u8) = of_nat (of_char c)" by (simp only: of_nat_of_char)
  ultimately show ?thesis by (simp add: unat_of_nat)
qed

lemma hex_digit_facts:
  assumes "hex_digit (of_char c) = Some d"
  shows "d < 16" "nibble_char (unat d) = to_ascii_lowercase c"
proof -
  have "48 \<le> (of_char c :: nat) \<and> (of_char c :: nat) < 58 \<or> 65 \<le> (of_char c :: nat) \<and> (of_char c :: nat) < 71 \<or>
      97 \<le> (of_char c :: nat) \<and> (of_char c :: nat) < 103"
    using assms by (auto simp: hex_digit_def word_le_nat_alt unat_byte split: if_splits)
  then have "(of_char c :: nat) \<in> set ([48..<58] @ [65..<71] @ [97..<103])"
    by (simp only: set_append set_upt Un_iff atLeastLessThan_iff)
  from bspec [OF digits_ok [unfolded list_all_iff] this] have "digit_ok c" by simp
  then show "d < 16" "nibble_char (unat d) = to_ascii_lowercase c"
    using assms by (simp_all add: digit_ok_def)
qed

lemma pair_values:
  "list_all (\<lambda>h. list_all (\<lambda>l.
     unat (push_bit 4 (word_of_nat h) OR word_of_nat l :: u8) = 16 * h + l) [0..<16]) [0..<16]"
  by code_simp

lemma pair_nibbles:
  assumes "h < 16" "l < (16 :: u8)"
  shows "unat (push_bit 4 h OR l) div 16 = unat h" "unat (push_bit 4 h OR l) mod 16 = unat l"
proof -
  have b: "unat h < 16" "unat l < 16" using assms by (simp_all add: word_less_nat_alt)
  have "unat (push_bit 4 (word_of_nat (unat h)) OR word_of_nat (unat l) :: u8) = 16 * unat h + unat l"
    by (rule bspec [OF bspec [OF pair_values [unfolded list_all_iff set_upt]]]) (use b in simp_all)
  then have "unat (push_bit 4 h OR l) = 16 * unat h + unat l" by simp
  with b show "unat (push_bit 4 h OR l) div 16 = unat h" "unat (push_bit 4 h OR l) mod 16 = unat l"
    by simp_all
qed

lemma hex_str_pairs:
  "even (length s) \<Longrightarrow> hex_pairs (as_bytes s) = Some bs \<Longrightarrow> hex_str bs = map to_ascii_lowercase s"
proof (induction s arbitrary: bs rule: induct_list012)
  case (3 c d s)
  then obtain h l bs' where p: "hex_digit (of_char c) = Some h" "hex_digit (of_char d) = Some l"
    "hex_pairs (as_bytes s) = Some bs'" "bs = (push_bit 4 h OR l) # bs'"
    by (auto simp: as_bytes_def split: option.splits)
  have "h < 16" "l < 16" using hex_digit_facts p(1,2) by auto
  then show ?case
    using p 3 by (simp add: pair_nibbles hex_digit_facts(2) [OF p(1)] hex_digit_facts(2) [OF p(2)])
qed (auto simp: as_bytes_def)

section \<open>Properties\<close>

text \<open>
  Bytes written with \<open>hex_str\<close> are read back by \<open>to_vec\<close>: public keys, payment
  hashes and ids survive the trip through text.
\<close>

theorem hex_round_trip: "to_vec (hex_str bs) = Some bs"
  by (rule hex_text.dec_enc)

text \<open>
  C40. \<open>to_vec\<close> fails exactly on texts with a character that is no hexadecimal digit;
  otherwise it gives half as many bytes (rounded down), and for a text of even length these
  bytes print as the text in lower case.
\<close>

theorem to_vec_correct:
  "case to_vec s of
     None \<Rightarrow> \<not> list_all is_hex s
   | Some bs \<Rightarrow> list_all is_hex s \<and> length bs = length s div 2 \<and>
       (if even (length s) then hex_str bs = map to_ascii_lowercase s else True)"
proof (cases "to_vec s")
  case None
  then show ?thesis using to_vec_defined [of s] by simp
next
  case (Some bs)
  then show ?thesis
    using to_vec_defined [of s] to_vec_length [OF Some] hex_str_pairs [of s bs] by (simp add: to_vec_pairs)
qed

text \<open>
  A single last digit is checked but contributes nothing: the text with it decodes to the same
  bytes as the text without. Callers that compare no length accept such a text.
\<close>

theorem to_vec_drops_last_digit:
  assumes "even (length s)" "is_hex c"
  shows "to_vec (s @ [c]) = to_vec s"
  using assms hex_pairs_snoc [of "as_bytes s" "of_char c"]
  by (simp add: to_vec_pairs as_bytes_append is_hex_def) (simp add: as_bytes_def)

theorem to_vec_drops_last_digit_witness:
  "to_vec ''ab3'' = to_vec ''ab'' \<and> to_vec ''ab'' = Some [0xab]"
proof
  show "to_vec ''ab3'' = to_vec ''ab''"
    using to_vec_drops_last_digit [of "''ab''" "CHR ''3''"]
    by (simp add: is_hex_def hex_digit_def)
  show "to_vec ''ab'' = Some [0xab]" by code_simp
qed

end
