(* ===== verification/Payments.thy ===== *)
theory Payments imports Fs_Store_Crash Hex_Utils begin

text \<open>
  The payment tables of \<open>src/src/main.rs\<close> (\<open>PaymentInfo\<close>, the two
  \<open>PaymentInfoStorage\<close> types and what the event handler and the startup code do to
  them) and their files (\<open>src/src/disk.rs\<close>). Hashes, ids, preimages and secrets are
  byte strings. The TLV encoding of a table is generated by a macro of \<open>lightning\<close>: it is
  the parameter \<open>enc\<close>, and its reader the parameter \<open>dec\<close>.
\<close>

section \<open>The tables\<close>

datatype htlc_status = Pending | Succeeded | Failed

type_synonym millisat_amount = "u64 option"

definition show_millisat_amount :: "millisat_amount \<Rightarrow> string" where
  "show_millisat_amount a = (case a of Some amt \<Rightarrow> show_u64 amt | None \<Rightarrow> ''unknown'')"

record payment_info =
  preimage :: "bytes option"
  secret :: "bytes option"
  status :: htlc_status
  amt_msat :: millisat_amount

type_synonym payments = "(bytes \<times> payment_info) list"

record payment_db =
  inbound_payments :: payments
  outbound_payments :: payments
  fs_store :: kvstore

definition INBOUND_PAYMENTS_FNAME :: string where
  "INBOUND_PAYMENTS_FNAME = ''inbound_payments''"

definition OUTBOUND_PAYMENTS_FNAME :: string where
  "OUTBOUND_PAYMENTS_FNAME = ''outbound_payments''"

section \<open>Updates\<close>

text \<open>\<open>PaymentPurpose\<close>: what a received payment was for.\<close>

datatype payment_purpose =
    Bolt11InvoicePayment "bytes option" bytes
  | Bolt12OfferPayment "bytes option" bytes
  | Bolt12RefundPayment "bytes option" bytes
  | SpontaneousPayment bytes

fun purpose_preimage :: "payment_purpose \<Rightarrow> bytes option" where
  "purpose_preimage (Bolt11InvoicePayment p s) = p"
| "purpose_preimage (Bolt12OfferPayment p s) = p"
| "purpose_preimage (Bolt12RefundPayment p s) = p"
| "purpose_preimage (SpontaneousPayment p) = Some p"

fun purpose_preimage_secret :: "payment_purpose \<Rightarrow> bytes option \<times> bytes option" where
  "purpose_preimage_secret (Bolt11InvoicePayment p s) = (p, Some s)"
| "purpose_preimage_secret (Bolt12OfferPayment p s) = (p, Some s)"
| "purpose_preimage_secret (Bolt12RefundPayment p s) = (p, Some s)"
| "purpose_preimage_secret (SpontaneousPayment p) = (Some p, None)"

text \<open>The entry of a claimed payment: updated when there, inserted when not.\<close>

definition record_claimed :: "bytes \<Rightarrow> payment_purpose \<Rightarrow> u64 \<Rightarrow> payments \<Rightarrow> payments" where
  "record_claimed payment_hash purpose amount_msat payments =
     (let (payment_preimage, payment_secret) = purpose_preimage_secret purpose
      in case map_of payments payment_hash of
           Some payment \<Rightarrow>
             AList.update payment_hash
               (payment\<lparr>status := Succeeded, preimage := payment_preimage, secret := payment_secret\<rparr>) payments
         | None \<Rightarrow>
             AList.update payment_hash
               \<lparr>preimage = payment_preimage, secret = payment_secret, status = Succeeded,
                amt_msat = Some amount_msat\<rparr> payments)"

text \<open>
  The loop over the outbound payments: \<open>payment_id.unwrap()\<close> is evaluated for every entry,
  and the entry of that id is changed and announced.
\<close>

definition sent_line :: "payment_info \<Rightarrow> u64 option \<Rightarrow> bytes \<Rightarrow> bytes \<Rightarrow> string" where
  "sent_line payment fee_paid_msat payment_hash payment_preimage =
     CHR 0x0A # ''EVENT: successfully sent payment of '' @ show_millisat_amount (amt_msat payment) @ '' millisatoshis'' @
     (case fee_paid_msat of Some fee \<Rightarrow> '' (fee '' @ show_u64 fee @ '' msat)'' | None \<Rightarrow> []) @
     '' from payment hash '' @ hex_str payment_hash @ '' with preimage '' @ hex_str payment_preimage"

fun mark_sent ::
  "bytes option \<Rightarrow> bytes \<Rightarrow> bytes \<Rightarrow> u64 option \<Rightarrow> payments \<Rightarrow> (unit, payments \<times> string list) outcome" where
  "mark_sent payment_id payment_preimage payment_hash fee [] = Ok ([], [])"
| "mark_sent payment_id payment_preimage payment_hash fee ((i, payment) # ps) =
     bind_out (unwrap_opt payment_id) (\<lambda>pid.
       let p = (if i = pid then payment\<lparr>preimage := Some payment_preimage, status := Succeeded\<rparr> else payment);
           line = (if i = pid then [sent_line payment fee payment_hash payment_preimage] else [])
       in bind_out (mark_sent payment_id payment_preimage payment_hash fee ps) (\<lambda>(rest, lines).
            Ok ((i, p) # rest, line @ lines)))"

definition mark_failed :: "bytes \<Rightarrow> payments \<Rightarrow> payments" where
  "mark_failed payment_id payments =
     (case map_of payments payment_id of
        Some payment \<Rightarrow> AList.update payment_id (payment\<lparr>status := Failed\<rparr>) payments
      | None \<Rightarrow> payments)"

text \<open>
  At startup: a payment that was pending when the node stopped and that the channel manager does
  not know any more has failed.
\<close>

definition fail_forgotten :: "bytes list \<Rightarrow> payments \<Rightarrow> payments" where
  "fail_forgotten recent payments =
     map_vals (\<lambda>payment_id info.
       if status info = Pending \<and> payment_id \<notin> set recent then info\<lparr>status := Failed\<rparr> else info) payments"

section \<open>Files\<close>

type_synonym 'a db_op = "(payment_db, unit, 'a) st"

text \<open>\<open>fs_store.write("", "", FNAME, &table.encode()).unwrap()\<close>.\<close>

definition persist_payments :: "(payments \<Rightarrow> bytes) \<Rightarrow> string \<Rightarrow> payments \<Rightarrow> unit db_op" where
  "persist_payments enc fname table db =
     (case kv_write [] [] fname (enc table) (fs_store db) of
        (r, s) \<Rightarrow> (unwrap_res r, db\<lparr>fs_store := s\<rparr>))"

definition persist_inbound :: "(payments \<Rightarrow> bytes) \<Rightarrow> unit db_op" where
  "persist_inbound enc db = persist_payments enc INBOUND_PAYMENTS_FNAME (inbound_payments db) db"

definition persist_outbound :: "(payments \<Rightarrow> bytes) \<Rightarrow> unit db_op" where
  "persist_outbound enc db = persist_payments enc OUTBOUND_PAYMENTS_FNAME (outbound_payments db) db"

text \<open>
  \<open>read_inbound_payment_info\<close> and \<open>read_outbound_payment_info\<close>, which differ only in
  their type: any failure to open, read or decode the file gives an empty table.
\<close>

definition read_payment_info :: "(bytes \<Rightarrow> payments option) \<Rightarrow> path \<Rightarrow> kvstore \<Rightarrow> payments \<times> kvstore" where
  "read_payment_info dec path s =
     (case on_disk (sys (fs_open path)) s of
        (Ok file, s1) \<Rightarrow>
          (case on_disk (sys (fs_read path)) s1 of
             (Ok buf, s2) \<Rightarrow> (case dec buf of Some info \<Rightarrow> (info, s2) | None \<Rightarrow> ([], s2))
           | (_, s2) \<Rightarrow> ([], s2))
      | (_, s1) \<Rightarrow> ([], s1))"

text \<open>The part of \<open>start_ldk\<close> that loads the tables and settles the forgotten payments.\<close>

definition load_payments ::
  "(payments \<Rightarrow> bytes) \<Rightarrow> (bytes \<Rightarrow> payments option) \<Rightarrow> bytes list \<Rightarrow> kvstore \<Rightarrow>
   (unit, unit) outcome \<times> payment_db" where
  "load_payments enc dec recent s =
     (let (inb, s1) = read_payment_info dec (data_dir (cfg s) @ [INBOUND_PAYMENTS_FNAME]) s;
          (outb, s2) = read_payment_info dec (data_dir (cfg s) @ [OUTBOUND_PAYMENTS_FNAME]) s1
      in persist_outbound enc
           \<lparr>inbound_payments = inb, outbound_payments = fail_forgotten recent outb, fs_store = s2\<rparr>)"

section \<open>What the updates do\<close>

lemma map_of_fail_forgotten [alist_simps]:
  "map_of (fail_forgotten recent ps) i =
     map_option (\<lambda>info. if status info = Pending \<and> i \<notin> set recent then info\<lparr>status := Failed\<rparr> else info)
       (map_of ps i)"
  by (simp add: fail_forgotten_def alist_simps)

lemma map_of_mark_failed [alist_simps]:
  "map_of (mark_failed i ps) j =
     (if j = i then map_option (\<lambda>p. p\<lparr>status := Failed\<rparr>) (map_of ps i) else map_of ps j)"
  by (auto simp: mark_failed_def alist_simps split: option.splits)

lemma map_of_record_claimed [alist_simps]:
  "map_of (record_claimed h purpose amt ps) j =
     (if j = h
      then Some \<lparr>preimage = fst (purpose_preimage_secret purpose), secret = snd (purpose_preimage_secret purpose),
                 status = Succeeded,
                 amt_msat = (case map_of ps h of Some p \<Rightarrow> amt_msat p | None \<Rightarrow> Some amt)\<rparr>
      else map_of ps j)"
  by (auto simp: record_claimed_def alist_simps split: prod.splits option.splits)

lemma mark_sent_Some:
  "\<exists>lines. mark_sent (Some pid) pre h fee ps =
     Ok (map_vals (\<lambda>i p. if i = pid then p\<lparr>preimage := Some pre, status := Succeeded\<rparr> else p) ps, lines)"
  by (induction ps) (auto simp: map_vals_def)

lemma mark_sent_None: "mark_sent None pre h fee ps = (if ps = [] then Ok ([], []) else
    Panic ''called `Option::unwrap()` on a `None` value'')"
  by (cases ps) auto

section \<open>What is on disk\<close>

text \<open>The key of a table and what its file holds.\<close>

abbreviation table_key :: "string \<Rightarrow> kv_key" where
  "table_key fname \<equiv> ([], [], fname)"

definition file_of :: "payment_db \<Rightarrow> string \<Rightarrow> bytes option" where
  "file_of db fname = kv_get (fs_store db) (table_key fname)"

definition db_inv :: "payment_db \<Rightarrow> bool" where
  "db_inv db \<longleftrightarrow> store_inv (fs_store db)"

lemma persist_payments_cases:
  assumes "db_inv db" "persist_payments enc fname t db = (r, db')"
  shows "db_inv db'" "inbound_payments db' = inbound_payments db"
    "outbound_payments db' = outbound_payments db"
    "file_of db' = file_of db \<or> file_of db' = (file_of db)(fname \<mapsto> enc t)"
    "r = Ok () \<Longrightarrow> file_of db' = (file_of db)(fname \<mapsto> enc t)"
    "r \<noteq> Ok () \<Longrightarrow> is_panic r"
proof -
  obtain q s' where w: "kv_put (table_key fname) (enc t) (fs_store db) = (q, s')"
    by (cases "kv_put (table_key fname) (enc t) (fs_store db)")
  then have db': "db' = db\<lparr>fs_store := s'\<rparr>" and r: "r = unwrap_res q"
    using assms(2) by (simp_all add: persist_payments_def)
  have inv: "store_inv (fs_store db)" using assms(1) by (simp add: db_inv_def)
  note c = fs_kv.put_cases [OF inv w]
  show "db_inv db'" "inbound_payments db' = inbound_payments db"
    "outbound_payments db' = outbound_payments db"
    using c db' by (simp_all add: db_inv_def)
  show "file_of db' = file_of db \<or> file_of db' = (file_of db)(fname \<mapsto> enc t)"
    using c db' by (auto simp: file_of_def fun_eq_iff)
  show "is_panic r" if "r \<noteq> Ok ()" using that r by (cases q) auto
  show "file_of db' = (file_of db)(fname \<mapsto> enc t)" if "r = Ok ()"
  proof -
    have "q = Ok ()" using that r by simp
    with fs_kv.put_ok [OF inv] w have "kv_get s' = (kv_get (fs_store db))(table_key fname \<mapsto> enc t)" by simp
    then show ?thesis by (auto simp: db' file_of_def fun_eq_iff)
  qed
qed

lemma on_disk_same_cur:
  assumes "on_disk (sys c) s = (r, s')" "\<And>f. snd (c f) = f"
  shows "cur (dsk s') = cur (dsk s)" "cfg s' = cfg s"
  using assms by (auto simp: on_disk_def sys_def perform_def split: prod.splits option.splits)
    (metis snd_conv)

lemma open_read_same: "snd (fs_open p f) = f" "snd (fs_read p f) = f"
  by (simp_all add: fs_open_def fs_read_def split: option.splits node.splits)

lemma read_payment_info_state:
  assumes "read_payment_info dec p s = (t, s')"
  shows "cur (dsk s') = cur (dsk s)" "cfg s' = cfg s"
  using assms on_disk_same_cur [of "fs_open p"] on_disk_same_cur [of "fs_read p"] open_read_same
  by (auto simp: read_payment_info_def split: prod.splits outcome.splits option.splits)

lemma same_cur_get: "cur (dsk s') = cur (dsk s) \<Longrightarrow> cfg s' = cfg s \<Longrightarrow> kv_get s' = kv_get s \<and> store_inv s' = store_inv s"
  by (simp add: kv_get_def store_inv_def fun_eq_iff)

lemma read_payment_info_value:
  assumes "faults (dsk s) = []" "kv_get s (table_key fname) = Some b" "dec b = Some t"
  shows "read_payment_info dec (data_dir (cfg s) @ [fname]) s =
    (t, snd (read_payment_info dec (data_dir (cfg s) @ [fname]) s))"
    "faults (dsk (snd (read_payment_info dec (data_dir (cfg s) @ [fname]) s))) = []"
proof -
  have "content_at (cur (dsk s)) (data_dir (cfg s) @ [fname]) = Some b"
    using assms(2) by (auto simp: kv_get_def key_path.simps split: if_splits)
  then show "read_payment_info dec (data_dir (cfg s) @ [fname]) s =
      (t, snd (read_payment_info dec (data_dir (cfg s) @ [fname]) s))"
    "faults (dsk (snd (read_payment_info dec (data_dir (cfg s) @ [fname]) s))) = []"
    using assms(1,3)
    by (auto simp: read_payment_info_def on_disk_def sys_no_fault fs_open_def fs_read_def content_at_def
        split: option.splits node.splits)
qed

section \<open>Startup\<close>

lemma load_payments_unfold:
  assumes "read_payment_info dec (data_dir (cfg s) @ [INBOUND_PAYMENTS_FNAME]) s = (inb, s1)"
    and "read_payment_info dec (data_dir (cfg s) @ [OUTBOUND_PAYMENTS_FNAME]) s1 = (outb, s2)"
  shows "load_payments enc dec recent s = persist_outbound enc
      \<lparr>inbound_payments = inb, outbound_payments = fail_forgotten recent outb, fs_store = s2\<rparr>"
    "store_inv s \<Longrightarrow> db_inv \<lparr>inbound_payments = inb, outbound_payments = x, fs_store = s2\<rparr>"
    "kv_get s2 = kv_get s"
  using assms read_payment_info_state [OF assms(1)] read_payment_info_state [OF assms(2)]
    same_cur_get [of s2 s]
  by (simp_all add: load_payments_def db_inv_def)

lemma file_of_mk: "file_of \<lparr>inbound_payments = i, outbound_payments = ob, fs_store = s\<rparr> f = kv_get s (table_key f)"
  by (simp add: file_of_def)

text \<open>The tables that a restart sees are the ones that were persisted, with the forgotten failed.\<close>

lemma restart_restores:
  assumes inv: "store_inv s" and nf: "faults (dsk s) = []"
    and inb: "kv_get s (table_key INBOUND_PAYMENTS_FNAME) = Some (enc ib)" "dec (enc ib) = Some ib"
    and outb: "kv_get s (table_key OUTBOUND_PAYMENTS_FNAME) = Some (enc ob)" "dec (enc ob) = Some ob"
    and load: "load_payments enc dec recent s = (r, db)"
  shows "inbound_payments db = ib" "outbound_payments db = fail_forgotten recent ob"
    "r = Ok () \<Longrightarrow> file_of db OUTBOUND_PAYMENTS_FNAME = Some (enc (fail_forgotten recent ob))"
proof -
  let ?p = "\<lambda>f. data_dir (cfg s) @ [f]"
  obtain s1 where r1: "read_payment_info dec (?p INBOUND_PAYMENTS_FNAME) s = (ib, s1)" "faults (dsk s1) = []"
    using read_payment_info_value [where b = "enc ib" and dec = dec, OF nf inb] by blast
  have g1: "kv_get s1 = kv_get s" "cfg s1 = cfg s"
    using read_payment_info_state [OF r1(1)] same_cur_get [of s1 s] by simp_all
  have "kv_get s1 (table_key OUTBOUND_PAYMENTS_FNAME) = Some (enc ob)" using outb(1) g1 by simp
  from read_payment_info_value(1) [where b = "enc ob" and dec = dec, OF r1(2) this outb(2)] g1(2)
  obtain s2 where r2: "read_payment_info dec (?p OUTBOUND_PAYMENTS_FNAME) s1 = (ob, s2)" by metis
  note U = load_payments_unfold [OF r1(1) r2]
  note c = persist_payments_cases [OF U(2) [OF inv], of enc OUTBOUND_PAYMENTS_FNAME "fail_forgotten recent ob" "fail_forgotten recent ob" r db]
  have p: "persist_payments enc OUTBOUND_PAYMENTS_FNAME (fail_forgotten recent ob)
      \<lparr>inbound_payments = ib, outbound_payments = fail_forgotten recent ob, fs_store = s2\<rparr> = (r, db)"
    using load U(1) by (simp add: persist_outbound_def)
  show "inbound_payments db = ib" "outbound_payments db = fail_forgotten recent ob"
    "r = Ok () \<Longrightarrow> file_of db OUTBOUND_PAYMENTS_FNAME = Some (enc (fail_forgotten recent ob))"
    using c(2,3,5) [OF p] by simp_all
qed

text \<open>A first open that fails gives the empty table, whatever the file holds.\<close>

lemma unreadable_is_empty:
  assumes "faults (dsk s) = Some (e, n) # fl"
  shows "fst (read_payment_info dec p s) = []"
  using assms by (simp add: read_payment_info_def on_disk_def sys_def next_fault_def split: prod.splits)

end
