(* ===== verification/Bitcoind_Client.thy ===== *)
theory Bitcoind_Client imports Rust_Str begin

text \<open>
  \<open>src/src/bitcoind_client.rs\<close>: the client that is the node's fee estimator, broadcaster
  and block source. The fee table is a \<open>HashMap\<close> of atomics shared by the polling task
  and the readers; the polling task stores eight values one after the other, and a reader may
  look between any two of them. The RPC connection (\<open>lightning_block_sync\<close>) and base64
  are parameters.
\<close>

section \<open>The fee table\<close>

datatype confirmation_target =
    MaximumFeeEstimate
  | UrgentOnChainSweep
  | MinAllowedAnchorChannelRemoteFee
  | MinAllowedNonAnchorChannelRemoteFee
  | AnchorChannelFee
  | NonAnchorChannelFee
  | ChannelCloseMinimum
  | OutputSpendingFee

instantiation confirmation_target :: enum
begin

definition enum_confirmation_target :: "confirmation_target list" where
  "enum_confirmation_target =
     [MaximumFeeEstimate, UrgentOnChainSweep, MinAllowedAnchorChannelRemoteFee,
      MinAllowedNonAnchorChannelRemoteFee, AnchorChannelFee, NonAnchorChannelFee,
      ChannelCloseMinimum, OutputSpendingFee]"

definition enum_all_confirmation_target :: "(confirmation_target \<Rightarrow> bool) \<Rightarrow> bool" where
  "enum_all_confirmation_target P \<longleftrightarrow> list_all P enum_class.enum"

definition enum_ex_confirmation_target :: "(confirmation_target \<Rightarrow> bool) \<Rightarrow> bool" where
  "enum_ex_confirmation_target P \<longleftrightarrow> list_ex P enum_class.enum"

instance
proof
  show univ: "UNIV = set (enum_class.enum :: confirmation_target list)"
    by (auto simp: enum_confirmation_target_def intro: confirmation_target.exhaust)
  show "distinct (enum_class.enum :: confirmation_target list)"
    by (simp add: enum_confirmation_target_def)
  fix P :: "confirmation_target \<Rightarrow> bool"
  show "enum_class.enum_all P \<longleftrightarrow> Ball UNIV P"
    by (simp add: enum_all_confirmation_target_def list_all_iff univ)
  show "enum_class.enum_ex P \<longleftrightarrow> Bex UNIV P"
    by (simp add: enum_ex_confirmation_target_def list_ex_iff univ)
qed

end

type_synonym fees = "(confirmation_target \<times> u32) list"

definition MIN_FEERATE :: u32 where
  "MIN_FEERATE = 253"

text \<open>The inserts of \<open>BitcoindClient::new\<close>, in their order.\<close>

definition initial_fees :: fees where
  "initial_fees =
     (let m = AList.update MaximumFeeEstimate 50000 [];
          m = AList.update UrgentOnChainSweep 5000 m;
          m = AList.update MinAllowedAnchorChannelRemoteFee MIN_FEERATE m;
          m = AList.update MinAllowedNonAnchorChannelRemoteFee MIN_FEERATE m;
          m = AList.update AnchorChannelFee MIN_FEERATE m;
          m = AList.update NonAnchorChannelFee 2000 m;
          m = AList.update ChannelCloseMinimum MIN_FEERATE m
      in AList.update OutputSpendingFee MIN_FEERATE m)"

text \<open>\<open>FeeEstimator::get_est_sat_per_1000_weight\<close>.\<close>

definition get_est_sat_per_1000_weight :: "fees \<Rightarrow> confirmation_target \<Rightarrow> (unit, u32) outcome" where
  "get_est_sat_per_1000_weight fees confirmation_target =
     unwrap_opt (map_of fees confirmation_target)"

section \<open>The client\<close>

record 'rpc bitcoind_client =
  bitcoind_rpc_client :: 'rpc
  network :: string
  host :: string
  port :: u16
  rpc_user :: string
  rpc_password :: string
  fee_table :: fees

definition rpc_credentials :: "(string \<Rightarrow> string) \<Rightarrow> string \<Rightarrow> string \<Rightarrow> string" where
  "rpc_credentials base64_encode user password = base64_encode (user @ '':'' @ password)"

definition client_new ::
  "(string \<Rightarrow> string) \<Rightarrow> (string \<Rightarrow> string \<times> u16 \<Rightarrow> ('e, 'rpc) outcome) \<Rightarrow> ('e \<Rightarrow> string) \<Rightarrow>
   string \<Rightarrow> u16 \<Rightarrow> string \<Rightarrow> string \<Rightarrow> string \<Rightarrow> (string, 'rpc bitcoind_client) outcome" where
  "client_new base64_encode rpc_new debug_e hst prt user password net =
     (let http_endpoint = (hst, prt);
          creds = rpc_credentials base64_encode user password
      in case rpc_new creds http_endpoint of
           Ok rpc \<Rightarrow>
             Ok \<lparr>bitcoind_rpc_client = rpc, network = net, host = hst, port = prt,
                 rpc_user = user, rpc_password = password, fee_table = initial_fees\<rparr>
         | Err e \<Rightarrow> Err (''RpcClient creation failed: '' @ debug_e e)
         | Panic m \<Rightarrow> Panic m)"

definition get_new_rpc_client ::
  "(string \<Rightarrow> string) \<Rightarrow> (string \<Rightarrow> string \<times> u16 \<Rightarrow> ('e, 'rpc) outcome) \<Rightarrow>
   'rpc bitcoind_client \<Rightarrow> ('e, 'rpc) outcome" where
  "get_new_rpc_client base64_encode rpc_new self =
     (let http_endpoint = (host self, port self);
          creds = rpc_credentials base64_encode (rpc_user self) (rpc_password self)
      in rpc_new creds http_endpoint)"

section \<open>Polling for fee estimates\<close>

datatype fee_request = GetMempoolInfo | EstimateSmartFee nat string

text \<open>
  The answer to a request is the \<open>feerate_sat_per_kw\<close> of the parsed response, or the
  error of the call, which \<open>unwrap\<close> turns into a panic.
\<close>

type_synonym 'e fee_rpc = "fee_request \<Rightarrow> ('e, u32 option) outcome"

record estimates =
  mempoolmin_estimate :: u32
  background_estimate :: u32
  normal_estimate :: u32
  high_prio_estimate :: u32
  very_high_prio_estimate :: u32

definition floor_or :: "u32 \<Rightarrow> u32 option \<Rightarrow> u32" where
  "floor_or dflt feerate_sat_per_kw =
     (case feerate_sat_per_kw of Some feerate \<Rightarrow> max feerate MIN_FEERATE | None \<Rightarrow> dflt)"

definition fetch_estimates :: "'e fee_rpc \<Rightarrow> (unit, estimates) outcome" where
  "fetch_estimates rpc =
     bind_out (unwrap_res (rpc GetMempoolInfo)) (\<lambda>r1.
       let mempoolmin = floor_or MIN_FEERATE r1 in
     bind_out (unwrap_res (rpc (EstimateSmartFee 144 ''ECONOMICAL''))) (\<lambda>r2.
       let background = floor_or MIN_FEERATE r2 in
     bind_out (unwrap_res (rpc (EstimateSmartFee 18 ''ECONOMICAL''))) (\<lambda>r3.
       let normal = floor_or 2000 r3 in
     bind_out (unwrap_res (rpc (EstimateSmartFee 6 ''CONSERVATIVE''))) (\<lambda>r4.
       let high_prio = floor_or 5000 r4 in
     bind_out (unwrap_res (rpc (EstimateSmartFee 2 ''CONSERVATIVE''))) (\<lambda>r5.
       let very_high_prio = floor_or 50000 r5 in
     Ok \<lparr>mempoolmin_estimate = mempoolmin, background_estimate = background,
         normal_estimate = normal, high_prio_estimate = high_prio,
         very_high_prio_estimate = very_high_prio\<rparr>)))))"

text \<open>
  \<open>u32\<close> subtraction: with overflow checks (the \<open>dev\<close> profile) it panics below zero,
  without them (\<open>release\<close>) it wraps.
\<close>

definition sub_u32 :: "bool \<Rightarrow> u32 \<Rightarrow> u32 \<Rightarrow> (unit, u32) outcome" where
  "sub_u32 overflow_checks a b =
     (if overflow_checks \<and> a < b then Panic ''attempt to subtract with overflow'' else Ok (a - b))"

definition poll_stores :: "bool \<Rightarrow> estimates \<Rightarrow> (confirmation_target \<times> (unit, u32) outcome) list" where
  "poll_stores overflow_checks e =
     [(MaximumFeeEstimate, Ok (very_high_prio_estimate e)),
      (UrgentOnChainSweep, Ok (high_prio_estimate e)),
      (MinAllowedAnchorChannelRemoteFee, Ok (mempoolmin_estimate e)),
      (MinAllowedNonAnchorChannelRemoteFee, sub_u32 overflow_checks (background_estimate e) 250),
      (AnchorChannelFee, Ok (background_estimate e)),
      (NonAnchorChannelFee, Ok (normal_estimate e)),
      (ChannelCloseMinimum, Ok (background_estimate e)),
      (OutputSpendingFee, Ok (background_estimate e))]"

text \<open>\<open>fees.get(&target).unwrap().store(value, _)\<close>.\<close>

fun store_fee :: "fees \<Rightarrow> confirmation_target \<times> (unit, u32) outcome \<Rightarrow> (unit, fees) outcome" where
  "store_fee fees (t, v) =
     bind_out (unwrap_opt (map_of fees t)) (\<lambda>_. bind_out v (\<lambda>x. Ok (AList.update t x fees)))"

text \<open>The stores in sequence: the table at the end, or at the store that panicked.\<close>

fun apply_stores ::
  "fees \<Rightarrow> (confirmation_target \<times> (unit, u32) outcome) list \<Rightarrow> (unit, unit) outcome \<times> fees" where
  "apply_stores fees [] = (Ok (), fees)"
| "apply_stores fees (s # ss) =
     (case store_fee fees s of
        Ok fees' \<Rightarrow> apply_stores fees' ss
      | Err e \<Rightarrow> (Err e, fees)
      | Panic m \<Rightarrow> (Panic m, fees))"

text \<open>One iteration of the polling loop.\<close>

definition poll_round :: "bool \<Rightarrow> 'e fee_rpc \<Rightarrow> fees \<Rightarrow> (unit, unit) outcome \<times> fees" where
  "poll_round overflow_checks rpc fees =
     (case fetch_estimates rpc of
        Ok e \<Rightarrow> apply_stores fees (poll_stores overflow_checks e)
      | Err x \<Rightarrow> (Err x, fees)
      | Panic m \<Rightarrow> (Panic m, fees))"

text \<open>
  What a reader can see: the table after the first \<open>k\<close> stores of an iteration. A run is a
  sequence of iterations, each cut off after some number of stores (eight for a whole one).
\<close>

fun poll_step :: "bool \<Rightarrow> fees \<Rightarrow> 'e fee_rpc \<times> nat \<Rightarrow> fees" where
  "poll_step overflow_checks fees (rpc, k) =
     (case fetch_estimates rpc of
        Ok e \<Rightarrow> snd (apply_stores fees (take k (poll_stores overflow_checks e)))
      | _ \<Rightarrow> fees)"

section \<open>Broadcasting\<close>

text \<open>
  \<open>broadcast_transactions\<close> serialises every transaction and spawns one task for each; a
  task calls \<open>sendrawtransaction\<close> and logs the result. The scheduler runs the tasks in any
  order, so the model is the list of what each task logs, for an order given by the caller.
\<close>

datatype ('r, 'e) log_entry = LogInfo 'r | LogError 'e

definition broadcast_task ::
  "(string \<Rightarrow> string \<Rightarrow> ('e, 'r) outcome) \<Rightarrow> string \<Rightarrow> (unit, ('r, 'e) log_entry) outcome" where
  "broadcast_task call_method tx =
     (case call_method ''sendrawtransaction'' tx of
        Ok result \<Rightarrow> Ok (LogInfo result)
      | Err e \<Rightarrow> Ok (LogError e)
      | Panic m \<Rightarrow> Panic m)"

definition broadcast_tasks :: "('tx \<Rightarrow> string) \<Rightarrow> 'tx list \<Rightarrow> string list" where
  "broadcast_tasks serialize_hex txs = map serialize_hex txs"

section \<open>The invariant of the fee table\<close>

text \<open>
  Every target has a fee, at least 253 sat per 1000 weight; the one for the lowest fee a
  non-anchor peer may use is allowed 250 less.
\<close>

definition fee_floor :: "confirmation_target \<Rightarrow> u32" where
  "fee_floor t = (if t = MinAllowedNonAnchorChannelRemoteFee then 3 else MIN_FEERATE)"

definition fee_inv :: "fees \<Rightarrow> bool" where
  "fee_inv fees \<longleftrightarrow> (\<forall>t. \<exists>w. map_of fees t = Some w \<and> fee_floor t \<le> w)"

fun store_ok :: "confirmation_target \<times> (unit, u32) outcome \<Rightarrow> bool" where
  "store_ok (t, Ok x) \<longleftrightarrow> fee_floor t \<le> x"
| "store_ok (t, _) \<longleftrightarrow> False"

lemma fee_inv_initial: "fee_inv initial_fees"
  unfolding fee_inv_def
proof
  fix t show "\<exists>w. map_of initial_fees t = Some w \<and> fee_floor t \<le> w"
    by (cases t) (simp_all add: initial_fees_def Let_def fee_floor_def MIN_FEERATE_def)
qed

lemma store_fee_keeps:
  assumes "fee_inv fees" "store_ok s"
  shows "\<exists>fees'. store_fee fees s = Ok fees' \<and> fee_inv fees'"
proof -
  obtain t x where s: "s = (t, Ok x)" "fee_floor t \<le> x"
    using assms(2) by (cases s rule: store_ok.cases) auto
  obtain w where "map_of fees t = Some w" using assms(1) by (auto simp: fee_inv_def)
  with s assms(1) show ?thesis by (auto simp: fee_inv_def alist_simps)
qed

lemma apply_stores_keeps:
  "fee_inv fees \<Longrightarrow> list_all store_ok ss \<Longrightarrow>
   fst (apply_stores fees ss) = Ok () \<and> fee_inv (snd (apply_stores fees ss))"
proof (induction ss arbitrary: fees)
  case (Cons s ss)
  then obtain fees' where "store_fee fees s = Ok fees'" "fee_inv fees'"
    using store_fee_keeps [of fees s] by auto
  with Cons show ?case by simp
qed simp

lemma floor_or_min: "MIN_FEERATE \<le> d \<Longrightarrow> MIN_FEERATE \<le> floor_or d r"
  by (simp add: floor_or_def split: option.splits)

lemma fetch_estimates_Ok:
  "fetch_estimates rpc = Ok e \<longleftrightarrow>
     (\<exists>r1 r2 r3 r4 r5.
        rpc GetMempoolInfo = Ok r1 \<and> rpc (EstimateSmartFee 144 ''ECONOMICAL'') = Ok r2 \<and>
        rpc (EstimateSmartFee 18 ''ECONOMICAL'') = Ok r3 \<and>
        rpc (EstimateSmartFee 6 ''CONSERVATIVE'') = Ok r4 \<and>
        rpc (EstimateSmartFee 2 ''CONSERVATIVE'') = Ok r5 \<and>
        e = \<lparr>mempoolmin_estimate = floor_or MIN_FEERATE r1,
             background_estimate = floor_or MIN_FEERATE r2, normal_estimate = floor_or 2000 r3,
             high_prio_estimate = floor_or 5000 r4, very_high_prio_estimate = floor_or 50000 r5\<rparr>)"
  unfolding fetch_estimates_def Let_def bind_out_Ok_iff unwrap_res_Ok_iff by blast

lemma min_fee_defaults:
  "MIN_FEERATE \<le> MIN_FEERATE" "MIN_FEERATE \<le> 2000" "MIN_FEERATE \<le> 5000" "MIN_FEERATE \<le> 50000"
  by (simp_all add: MIN_FEERATE_def)

lemma remote_fee_no_underflow:
  assumes "MIN_FEERATE \<le> b"
  shows "sub_u32 ovf b 250 = Ok (b - 250)" "3 \<le> b - 250"
proof -
  have "253 \<le> unat b" using assms by (simp add: MIN_FEERATE_def word_le_nat_alt)
  then show "sub_u32 ovf b 250 = Ok (b - 250)" "3 \<le> b - 250"
    by (simp_all add: sub_u32_def word_le_nat_alt word_less_nat_alt unat_sub)
qed

lemma poll_stores_ok:
  assumes "fetch_estimates rpc = Ok e"
  shows "list_all store_ok (poll_stores ovf e)"
  using assms
  by (auto simp: fetch_estimates_Ok poll_stores_def fee_floor_def remote_fee_no_underflow
      floor_or_min min_fee_defaults)

lemma poll_step_keeps: "fee_inv fees \<Longrightarrow> fee_inv (poll_step ovf fees rk)"
proof -
  assume inv: "fee_inv fees"
  obtain rpc k where rk: "rk = (rpc, k)" by (cases rk)
  show ?thesis
  proof (cases "fetch_estimates rpc")
    case (Ok e)
    then have "list_all store_ok (take k (poll_stores ovf e))"
      by (intro list_all_take poll_stores_ok)
    then show ?thesis using apply_stores_keeps [OF inv] Ok rk by simp
  qed (simp_all add: rk inv)
qed

interpretation fee_polling: invariant_system "poll_step ovf" fee_inv for ovf
  by unfold_locales (rule poll_step_keeps)

section \<open>Properties\<close>

text \<open>
  C35. At every moment of a run of the polling task, between any two of its stores and whatever
  the node answered so far, a reader asking for a fee gets one (the table has an entry for every
  target, so the \<open>unwrap\<close> never panics), and it is at least 253 sat per 1000 weight, or
  3 for the lowest fee a non-anchor peer may use.
\<close>

theorem fee_reads_have_floor:
  "\<exists>w. get_est_sat_per_1000_weight (run_steps (poll_step ovf) initial_fees evs) t = Ok w \<and>
       fee_floor t \<le> w"
  using fee_polling.run_keeps [OF fee_inv_initial, of ovf evs]
  by (auto simp: fee_inv_def get_est_sat_per_1000_weight_def)

text \<open>
  A whole polling iteration whose five requests are answered ends without a panic and sets
  every target to the estimate the source assigns to it, each raised to the 253 floor or
  replaced by its default where the node had no estimate; the subtraction of 250 is exact.
\<close>

theorem poll_round_sets_fees:
  assumes "fee_inv fees"
    and "rpc GetMempoolInfo = Ok r1" and "rpc (EstimateSmartFee 144 ''ECONOMICAL'') = Ok r2"
    and "rpc (EstimateSmartFee 18 ''ECONOMICAL'') = Ok r3"
    and "rpc (EstimateSmartFee 6 ''CONSERVATIVE'') = Ok r4"
    and "rpc (EstimateSmartFee 2 ''CONSERVATIVE'') = Ok r5"
  shows "fst (poll_round ovf rpc fees) = Ok () \<and>
    map_of (snd (poll_round ovf rpc fees)) t = Some (case t of
        MaximumFeeEstimate \<Rightarrow> floor_or 50000 r5
      | UrgentOnChainSweep \<Rightarrow> floor_or 5000 r4
      | MinAllowedAnchorChannelRemoteFee \<Rightarrow> floor_or MIN_FEERATE r1
      | MinAllowedNonAnchorChannelRemoteFee \<Rightarrow> floor_or MIN_FEERATE r2 - 250
      | AnchorChannelFee \<Rightarrow> floor_or MIN_FEERATE r2
      | NonAnchorChannelFee \<Rightarrow> floor_or 2000 r3
      | ChannelCloseMinimum \<Rightarrow> floor_or MIN_FEERATE r2
      | OutputSpendingFee \<Rightarrow> floor_or MIN_FEERATE r2)"
proof -
  have present: "\<exists>w. map_of fees u = Some w" for u
    using assms(1) by (auto simp: fee_inv_def)
  have sub: "sub_u32 ovf (floor_or MIN_FEERATE r2) 250 = Ok (floor_or MIN_FEERATE r2 - 250)"
    by (simp add: remote_fee_no_underflow floor_or_min)
  have "poll_round ovf rpc fees = apply_stores fees (poll_stores ovf
      \<lparr>mempoolmin_estimate = floor_or MIN_FEERATE r1, background_estimate = floor_or MIN_FEERATE r2,
       normal_estimate = floor_or 2000 r3, high_prio_estimate = floor_or 5000 r4,
       very_high_prio_estimate = floor_or 50000 r5\<rparr>)"
    by (simp add: poll_round_def fetch_estimates_def Let_def assms)
  then show ?thesis
    using present [of MaximumFeeEstimate] present [of UrgentOnChainSweep]
      present [of MinAllowedAnchorChannelRemoteFee] present [of MinAllowedNonAnchorChannelRemoteFee]
      present [of AnchorChannelFee] present [of NonAnchorChannelFee]
      present [of ChannelCloseMinimum] present [of OutputSpendingFee]
    by (cases t) (auto simp: poll_stores_def sub alist_simps)
qed

definition sample_rpc :: "unit fee_rpc" where
  "sample_rpc q = Ok (case q of GetMempoolInfo \<Rightarrow> Some 250 | EstimateSmartFee n m \<Rightarrow>
     if n = 144 then Some 100 else if n = 2 then None else Some 3000)"

lemma poll_round_sets_fees_witness:
  "map_of (snd (poll_round True sample_rpc initial_fees)) MinAllowedNonAnchorChannelRemoteFee = Some 3 \<and>
   map_of (snd (poll_round True sample_rpc initial_fees)) MaximumFeeEstimate = Some 50000"
proof -
  note set = poll_round_sets_fees [OF fee_inv_initial, of sample_rpc "Some 250" "Some 100"
      "Some 3000" "Some 3000" None True]
  have "map_of (snd (poll_round True sample_rpc initial_fees)) MinAllowedNonAnchorChannelRemoteFee =
      Some (floor_or MIN_FEERATE (Some 100) - 250)"
    using set by (simp add: sample_rpc_def)
  moreover have "map_of (snd (poll_round True sample_rpc initial_fees)) MaximumFeeEstimate =
      Some (floor_or 50000 None)"
    using set by (simp add: sample_rpc_def)
  ultimately show ?thesis by (simp add: floor_or_def MIN_FEERATE_def)
qed

definition polled_requests :: "fee_request list" where
  "polled_requests = [GetMempoolInfo, EstimateSmartFee 144 ''ECONOMICAL'', EstimateSmartFee 18 ''ECONOMICAL'',
     EstimateSmartFee 6 ''CONSERVATIVE'', EstimateSmartFee 2 ''CONSERVATIVE'']"

lemma failed_request_panics:
  assumes "q \<in> set polled_requests" "\<not> is_ok (rpc q)"
  shows "is_panic (fst (poll_round ovf rpc fees)) \<and> snd (poll_round ovf rpc fees) = fees"
proof -
  have "is_panic (fetch_estimates rpc)"
    using assms by (auto simp: polled_requests_def fetch_estimates_def Let_def bind_unwrap_panic is_ok_iff)
  then show ?thesis by (cases "fetch_estimates rpc") (simp_all add: poll_round_def)
qed

text \<open>
  One failed answer among the five requests of an iteration is a panic of the polling task
  (and, with \<open>panic = "abort"\<close>, the end of the node), before any fee is stored.
\<close>

theorem poll_round_failed_request:
  assumes "q \<in> {GetMempoolInfo, EstimateSmartFee 144 ''ECONOMICAL'', EstimateSmartFee 18 ''ECONOMICAL'',
      EstimateSmartFee 6 ''CONSERVATIVE'', EstimateSmartFee 2 ''CONSERVATIVE''}"
    and "\<not> is_ok (rpc q)"
  shows "is_panic (fst (poll_round ovf rpc fees)) \<and> snd (poll_round ovf rpc fees) = fees"
  by (rule failed_request_panics) (use assms in \<open>simp_all add: polled_requests_def\<close>)

lemma poll_round_failed_request_witness:
  "is_panic (fst (poll_round False (sample_rpc(EstimateSmartFee 2 ''CONSERVATIVE'' := Err ())) initial_fees))"
  using poll_round_failed_request [of "EstimateSmartFee 2 ''CONSERVATIVE''"
      "sample_rpc(EstimateSmartFee 2 ''CONSERVATIVE'' := Err ())" False initial_fees]
  by simp

end
