(* ===== verification/Events.thy ===== *)
theory Events imports Payments Bitcoind_Client begin

text \<open>
  \<open>handle_ldk_events\<close> of \<open>src/src/main.rs\<close>: the handler that the background processor
  calls for every event of the Lightning library. Its effects are the payment tables with their
  files, the text it prints, and the calls it makes into the library and the tasks it spawns,
  recorded in order. What the library answers during one call is the record \<open>ldk_env\<close>.
\<close>

unbundle bit_operations_syntax

section \<open>State\<close>

type_synonym u128 = "128 word"

datatype task = ForwardHtlcs u64 | ConnectNode bytes "string list"

datatype ldk_call =
    FundingTransactionGenerated bytes bytes bytes
  | ClaimFunds bytes
  | AcceptInboundChannel bytes bytes u128
  | TrackSpendableOutputs "bytes list" "bytes option"
  | HandleBumpTransaction bytes
  | Spawn task

record node_state =
  db :: payment_db
  stdout :: string
  calls :: "ldk_call list"

record ldk_env =
  enc :: "payments \<Rightarrow> bytes"
  best_height :: u32
  locktime_from_height :: "u32 \<Rightarrow> u32 option"
  create_funding_transaction :: "bytes \<Rightarrow> u64 \<Rightarrow> confirmation_target \<Rightarrow> u32 \<Rightarrow> (unit, bytes) outcome"
  funding_accepted :: "bytes \<Rightarrow> bytes \<Rightarrow> bytes \<Rightarrow> bool"
  secure_random_bytes :: bytes
  accept_inbound_channel :: "bytes \<Rightarrow> bytes \<Rightarrow> u128 \<Rightarrow> string option"
  channels :: "(bytes \<times> bytes) list"
  nodes :: "bytes \<Rightarrow> string option option"
  sweeper_tracks :: bool

type_synonym 'a handler = "(node_state, unit, 'a) st"

definition print_st :: "string \<Rightarrow> unit handler" where
  "print_st t s = (Ok (), s\<lparr>stdout := stdout s @ t\<rparr>)"

definition println_st :: "string \<Rightarrow> unit handler" where
  "println_st t = print_st (t @ [CHR 0x0A])"

definition prompt_st :: "unit handler" where
  "prompt_st = print_st ''> ''"

definition call_st :: "ldk_call \<Rightarrow> unit handler" where
  "call_st c s = (Ok (), s\<lparr>calls := calls s @ [c]\<rparr>)"

definition on_db :: "'a db_op \<Rightarrow> 'a handler" where
  "on_db m s = (case m (db s) of (r, d) \<Rightarrow> (r, s\<lparr>db := d\<rparr>))"

definition set_inbound :: "payments \<Rightarrow> unit db_op" where
  "set_inbound t d = (Ok (), d\<lparr>inbound_payments := t\<rparr>)"

definition set_outbound :: "payments \<Rightarrow> unit db_op" where
  "set_outbound t d = (Ok (), d\<lparr>outbound_payments := t\<rparr>)"

section \<open>Events\<close>

datatype ldk_event =
    FundingGenerationReady bytes bytes u64 bytes
  | FundingTxBroadcastSafe
  | PaymentClaimable bytes payment_purpose u64
  | PaymentClaimed bytes payment_purpose u64
  | PaymentSent bytes bytes "u64 option" "bytes option"
  | OpenChannelRequest bytes bytes
  | PaymentPathSuccessful
  | PaymentPathFailed
  | ProbeSuccessful
  | ProbeFailed
  | PaymentFailed "bytes option" "string option" bytes
  | InvoiceReceived
  | PaymentForwarded "bytes option" "bytes option" "u64 option" bool "u64 option"
  | HTLCHandlingFailed
  | PendingHTLCsForwardable nat
  | SpendableOutputs "bytes list" "bytes option"
  | ChannelPending bytes bytes
  | ChannelReady bytes bytes
  | ChannelClosed bytes string "bytes option"
  | DiscardFunding
  | HTLCIntercepted
  | OnionMessageIntercepted
  | OnionMessagePeerConnected
  | BumpTransaction bytes
  | ConnectionNeeded bytes "string list"

section \<open>Parts of the handler\<close>

definition be_u128 :: "bytes \<Rightarrow> u128" where
  "be_u128 bs = foldl (\<lambda>acc b. push_bit 8 acc OR ucast b) 0 bs"

text \<open>The closures that describe the two ends of a forwarded payment.\<close>

definition node_str :: "ldk_env \<Rightarrow> bytes option \<Rightarrow> string" where
  "node_str env channel_id =
     (case channel_id of
        None \<Rightarrow> []
      | Some channel_id \<Rightarrow>
          (case find (\<lambda>c. fst c = channel_id) (channels env) of
             None \<Rightarrow> []
           | Some channel \<Rightarrow>
               (case nodes env (snd channel) of
                  None \<Rightarrow> ''private node''
                | Some None \<Rightarrow> ''unnamed node''
                | Some (Some alias) \<Rightarrow> ''node '' @ alias)))"

definition channel_str :: "bytes option \<Rightarrow> string" where
  "channel_str channel_id =
     (case channel_id of None \<Rightarrow> [] | Some c \<Rightarrow> '' with channel '' @ hex_str c)"

definition forwarded_line ::
  "ldk_env \<Rightarrow> bytes option \<Rightarrow> bytes option \<Rightarrow> u64 option \<Rightarrow> bool \<Rightarrow> u64 option \<Rightarrow> string" where
  "forwarded_line env prev nxt total_fee_earned_msat claim_from_onchain_tx amount =
     (let from_prev_str = '' from '' @ node_str env prev @ channel_str prev;
          to_next_str = '' to '' @ node_str env nxt @ channel_str nxt;
          from_onchain_str = (if claim_from_onchain_tx then ''from onchain downstream claim''
                              else ''from HTLC fulfill message'');
          amt_args = (case amount of Some v \<Rightarrow> show_u64 v | None \<Rightarrow> ''?'')
      in CHR 0x0A # ''EVENT: Forwarded payment for '' @ amt_args @ '' msat'' @ from_prev_str @ to_next_str @
         (case total_fee_earned_msat of
            Some fee_earned \<Rightarrow> '', earning '' @ show_u64 fee_earned @ '' msat ''
          | None \<Rightarrow> '', claiming onchain '') @ from_onchain_str)"

text \<open>
  The body of the task that waits before forwarding: the wait is drawn from
  \<open>gen_range(min, min * 5)\<close>, which panics on an empty range; the product is a
  \<open>u64\<close>.
\<close>

definition forward_wait :: "bool \<Rightarrow> (u64 \<Rightarrow> u64 \<Rightarrow> u64) \<Rightarrow> u64 \<Rightarrow> (unit, u64) outcome" where
  "forward_wait overflow_checks gen_range mn =
     (if overflow_checks \<and> unat mn * 5 \<ge> 2 ^ 64 then Panic ''attempt to multiply with overflow''
      else if \<not> mn < mn * 5 then Panic ''gen_range called with low >= high''
      else Ok (gen_range mn (mn * 5)))"

text \<open>
  The body of the task that connects to a node: the addresses that were tried, in order, and
  whether the last one succeeded.
\<close>

fun connect_sockaddrs :: "('a \<Rightarrow> bool) \<Rightarrow> 'a list \<Rightarrow> 'a list \<times> bool" where
  "connect_sockaddrs connect [] = ([], False)"
| "connect_sockaddrs connect (addr # addrs) =
     (if connect addr then ([addr], True)
      else (case connect_sockaddrs connect addrs of (tried, ok) \<Rightarrow> (addr # tried, ok)))"

fun connect_addresses :: "('s \<Rightarrow> 'a list option) \<Rightarrow> ('a \<Rightarrow> bool) \<Rightarrow> 's list \<Rightarrow> 'a list \<times> bool" where
  "connect_addresses resolve connect [] = ([], False)"
| "connect_addresses resolve connect (address # addresses) =
     (case resolve address of
        None \<Rightarrow> connect_addresses resolve connect addresses
      | Some sockaddrs \<Rightarrow>
          (case connect_sockaddrs connect sockaddrs of
             (tried, True) \<Rightarrow> (tried, True)
           | (tried, False) \<Rightarrow>
               (case connect_addresses resolve connect addresses of (tried', ok) \<Rightarrow> (tried @ tried', ok))))"

section \<open>The handler\<close>

definition payment_claimable :: "bytes \<Rightarrow> payment_purpose \<Rightarrow> u64 \<Rightarrow> unit handler" where
  "payment_claimable payment_hash purpose amount_msat =
     bind_st (println_st (CHR 0x0A # ''EVENT: received payment from payment hash '' @ hex_str payment_hash @
       '' of '' @ show_u64 amount_msat @ '' millisatoshis'')) (\<lambda>_.
     bind_st prompt_st (\<lambda>_.
     bind_st (lift_st (unwrap_opt (purpose_preimage purpose))) (\<lambda>payment_preimage.
     call_st (ClaimFunds payment_preimage))))"

definition payment_claimed :: "ldk_env \<Rightarrow> bytes \<Rightarrow> payment_purpose \<Rightarrow> u64 \<Rightarrow> unit handler" where
  "payment_claimed env payment_hash purpose amount_msat =
     bind_st (println_st (CHR 0x0A # ''EVENT: claimed payment from payment hash '' @ hex_str payment_hash @
       '' of '' @ show_u64 amount_msat @ '' millisatoshis'')) (\<lambda>_.
     bind_st prompt_st (\<lambda>_ s.
     bind_st (on_db (set_inbound
       (record_claimed payment_hash purpose amount_msat (inbound_payments (db s))))) (\<lambda>_.
     on_db (persist_inbound (enc env))) s))"

definition payment_sent ::
  "ldk_env \<Rightarrow> bytes \<Rightarrow> bytes \<Rightarrow> u64 option \<Rightarrow> bytes option \<Rightarrow> unit handler" where
  "payment_sent env payment_preimage payment_hash fee_paid_msat payment_id s =
     (case mark_sent payment_id payment_preimage payment_hash fee_paid_msat (outbound_payments (db s)) of
        Ok (table, lines) \<Rightarrow>
          bind_st (on_db (set_outbound table)) (\<lambda>_.
          bind_st (print_st (concat (map (\<lambda>l. l @ [CHR 0x0A] @ ''> '') lines))) (\<lambda>_.
          on_db (persist_outbound (enc env)))) s
      | Err e \<Rightarrow> (Err e, s)
      | Panic m \<Rightarrow> (Panic m, s))"

definition payment_failed :: "ldk_env \<Rightarrow> bytes option \<Rightarrow> string option \<Rightarrow> bytes \<Rightarrow> unit handler" where
  "payment_failed env payment_hash reason payment_id =
     (let r = (case reason of Some r \<Rightarrow> r | None \<Rightarrow> ''RetriesExhausted'') in
     bind_st (print_st (case payment_hash of
         Some hash \<Rightarrow> CHR 0x0A # ''EVENT: Failed to send payment to payment ID '' @ hex_str payment_id @
           '', payment hash '' @ hex_str hash @ '': '' @ r
       | None \<Rightarrow> CHR 0x0A # ''EVENT: Failed fetch invoice for payment ID '' @ hex_str payment_id @ '': '' @ r)) (\<lambda>_.
     bind_st prompt_st (\<lambda>_ s.
     bind_st (on_db (set_outbound (mark_failed payment_id (outbound_payments (db s))))) (\<lambda>_.
     on_db (persist_outbound (enc env))) s)))"

definition open_channel_request :: "ldk_env \<Rightarrow> bytes \<Rightarrow> bytes \<Rightarrow> unit handler" where
  "open_channel_request env temporary_channel_id counterparty_node_id =
     (let user_channel_id = be_u128 (take 16 (secure_random_bytes env)) in
     bind_st (call_st (AcceptInboundChannel temporary_channel_id counterparty_node_id user_channel_id)) (\<lambda>_.
     bind_st (print_st (case accept_inbound_channel env temporary_channel_id counterparty_node_id user_channel_id of
         Some e \<Rightarrow> CHR 0x0A # ''EVENT: Failed to accept inbound channel ('' @ hex_str temporary_channel_id @
           '') from '' @ hex_str counterparty_node_id @ '': '' @ e
       | None \<Rightarrow> CHR 0x0A # ''EVENT: Accepted inbound channel ('' @ hex_str temporary_channel_id @
           '') from '' @ hex_str counterparty_node_id)) (\<lambda>_.
     prompt_st)))"

definition funding_generation_ready :: "ldk_env \<Rightarrow> bytes \<Rightarrow> bytes \<Rightarrow> u64 \<Rightarrow> bytes \<Rightarrow> unit handler" where
  "funding_generation_ready env temporary_channel_id counterparty_node_id channel_value_satoshis output_script =
     (let locktime = (case locktime_from_height env (best_height env) of Some l \<Rightarrow> l | None \<Rightarrow> 0) in
     bind_st (lift_st (create_funding_transaction env output_script channel_value_satoshis
       AnchorChannelFee locktime)) (\<lambda>final_tx.
     bind_st (call_st (FundingTransactionGenerated temporary_channel_id counterparty_node_id final_tx)) (\<lambda>_.
     if \<not> funding_accepted env temporary_channel_id counterparty_node_id final_tx
     then bind_st (println_st (CHR 0x0A # ''ERROR: Channel went away before we could fund it. The peer disconnected or refused the channel.'')) (\<lambda>_.
       prompt_st)
     else return_st ())))"

definition payment_forwarded ::
  "ldk_env \<Rightarrow> bytes option \<Rightarrow> bytes option \<Rightarrow> u64 option \<Rightarrow> bool \<Rightarrow> u64 option \<Rightarrow> unit handler" where
  "payment_forwarded env prev nxt fee onchain amt =
     bind_st (println_st (forwarded_line env prev nxt fee onchain amt)) (\<lambda>_. prompt_st)"

definition pending_htlcs_forwardable :: "nat \<Rightarrow> unit handler" where
  "pending_htlcs_forwardable time_forwardable = call_st (Spawn (ForwardHtlcs (of_nat time_forwardable)))"

definition spendable_outputs :: "ldk_env \<Rightarrow> bytes list \<Rightarrow> bytes option \<Rightarrow> unit handler" where
  "spendable_outputs env outputs channel_id =
     bind_st (call_st (TrackSpendableOutputs outputs channel_id)) (\<lambda>_.
       lift_st (unwrap_opt (if sweeper_tracks env then Some () else None)))"

definition channel_pending :: "bytes \<Rightarrow> bytes \<Rightarrow> unit handler" where
  "channel_pending channel_id counterparty_node_id =
     bind_st (println_st (CHR 0x0A # ''EVENT: Channel '' @ hex_str channel_id @ '' with peer '' @ hex_str counterparty_node_id @
       '' is pending awaiting funding lock-in!'')) (\<lambda>_. prompt_st)"

definition channel_ready :: "bytes \<Rightarrow> bytes \<Rightarrow> unit handler" where
  "channel_ready channel_id counterparty_node_id =
     bind_st (println_st (CHR 0x0A # ''EVENT: Channel '' @ hex_str channel_id @ '' with peer '' @ hex_str counterparty_node_id @
       '' is ready to be used!'')) (\<lambda>_. prompt_st)"

definition channel_closed :: "bytes \<Rightarrow> string \<Rightarrow> bytes option \<Rightarrow> unit handler" where
  "channel_closed channel_id reason counterparty_node_id =
     bind_st (println_st (CHR 0x0A # ''EVENT: Channel '' @ hex_str channel_id @ '' with counterparty '' @
       (case counterparty_node_id of Some p \<Rightarrow> hex_str p | None \<Rightarrow> []) @ '' closed due to: '' @ reason)) (\<lambda>_. prompt_st)"

text \<open>The branches that leave the tables alone, for the proofs on the whole handler.\<close>

lemmas event_branch_defs [simp] = payment_forwarded_def pending_htlcs_forwardable_def spendable_outputs_def
  channel_pending_def channel_ready_def channel_closed_def

fun handle_ldk_events :: "ldk_env \<Rightarrow> ldk_event \<Rightarrow> unit handler" where
  "handle_ldk_events env (FundingGenerationReady chan peer sats script) =
     funding_generation_ready env chan peer sats script"
| "handle_ldk_events env (PaymentClaimable hash purpose amt) = payment_claimable hash purpose amt"
| "handle_ldk_events env (PaymentClaimed hash purpose amt) = payment_claimed env hash purpose amt"
| "handle_ldk_events env (PaymentSent pre hash fee pid) = payment_sent env pre hash fee pid"
| "handle_ldk_events env (OpenChannelRequest chan peer) = open_channel_request env chan peer"
| "handle_ldk_events env (PaymentFailed hash reason pid) = payment_failed env hash reason pid"
| "handle_ldk_events env (PaymentForwarded prev nxt fee onchain amt) = payment_forwarded env prev nxt fee onchain amt"
| "handle_ldk_events env (PendingHTLCsForwardable millis) = pending_htlcs_forwardable millis"
| "handle_ldk_events env (SpendableOutputs outputs chan) = spendable_outputs env outputs chan"
| "handle_ldk_events env (ChannelPending chan peer) = channel_pending chan peer"
| "handle_ldk_events env (ChannelReady chan peer) = channel_ready chan peer"
| "handle_ldk_events env (ChannelClosed chan reason peer) = channel_closed chan reason peer"
| "handle_ldk_events env (BumpTransaction ev) = call_st (HandleBumpTransaction ev)"
| "handle_ldk_events env (ConnectionNeeded node_id addresses) = call_st (Spawn (ConnectNode node_id addresses))"
| "handle_ldk_events env _ = return_st ()"

end
