(* ===== verification/Wire.thy ===== *)
theory Wire imports Payments begin

text \<open>
  A concrete encoding of payment tables. The node uses the TLV encoding that a macro of
  \<open>lightning\<close> generates; theorems about it take any encoder and reader that round-trip. The
  one here shows that such a pair exists and is what the witnesses run on: counts in unary, every
  list with its length in front, every option with a tag.
\<close>

section \<open>Combinators\<close>

type_synonym 'a reader = "bytes \<Rightarrow> ('a \<times> bytes) option"

definition reads :: "('a \<Rightarrow> bytes) \<Rightarrow> 'a reader \<Rightarrow> bool" where
  "reads w r \<longleftrightarrow> (\<forall>x rest. r (w x @ rest) = Some (x, rest))"

named_theorems reads_rules \<open>writers with their readers\<close>

lemma readsD: "reads w r \<Longrightarrow> r (w x @ rest) = Some (x, rest)"
  by (simp add: reads_def)

definition w_nat :: "nat \<Rightarrow> bytes" where
  "w_nat n = replicate n 1 @ [0]"

fun r_nat :: "nat reader" where
  "r_nat [] = None"
| "r_nat (b # bs) = (if b = 0 then Some (0, bs) else map_option (\<lambda>(n, rest). (Suc n, rest)) (r_nat bs))"

lemma reads_nat [reads_rules]: "reads w_nat r_nat"
proof -
  have "r_nat (replicate n 1 @ 0 # rest) = Some (n, rest)" for n rest by (induction n) auto
  then show ?thesis by (simp add: reads_def w_nat_def)
qed

definition w_map :: "('a \<Rightarrow> 'b) \<Rightarrow> ('b \<Rightarrow> bytes) \<Rightarrow> 'a \<Rightarrow> bytes" where
  "w_map f w x = w (f x)"

definition r_map :: "('b \<Rightarrow> 'a) \<Rightarrow> 'b reader \<Rightarrow> 'a reader" where
  "r_map g r bs = map_option (\<lambda>(x, rest). (g x, rest)) (r bs)"

lemma reads_map [reads_rules]:
  assumes "reads w r" "\<And>x. g (f x) = x"
  shows "reads (w_map f w) (r_map g r)"
  using readsD [OF assms(1)] assms(2) by (simp add: reads_def w_map_def r_map_def)

definition w_pair :: "('a \<Rightarrow> bytes) \<Rightarrow> ('b \<Rightarrow> bytes) \<Rightarrow> 'a \<times> 'b \<Rightarrow> bytes" where
  "w_pair w v p = w (fst p) @ v (snd p)"

definition r_pair :: "'a reader \<Rightarrow> 'b reader \<Rightarrow> ('a \<times> 'b) reader" where
  "r_pair r q bs =
     (case r bs of
        None \<Rightarrow> None
      | Some (x, bs') \<Rightarrow> map_option (\<lambda>(y, rest). ((x, y), rest)) (q bs'))"

lemma reads_pair [reads_rules]:
  assumes "reads w r" "reads v q"
  shows "reads (w_pair w v) (r_pair r q)"
  using readsD [OF assms(1)] readsD [OF assms(2)] by (simp add: reads_def w_pair_def r_pair_def)

fun r_times :: "nat \<Rightarrow> 'a reader \<Rightarrow> 'a list reader" where
  "r_times 0 r bs = Some ([], bs)"
| "r_times (Suc n) r bs =
     (case r bs of
        None \<Rightarrow> None
      | Some (x, bs') \<Rightarrow> map_option (\<lambda>(xs, rest). (x # xs, rest)) (r_times n r bs'))"

definition w_list :: "('a \<Rightarrow> bytes) \<Rightarrow> 'a list \<Rightarrow> bytes" where
  "w_list w xs = w_nat (length xs) @ concat (map w xs)"

definition r_list :: "'a reader \<Rightarrow> 'a list reader" where
  "r_list r bs = (case r_nat bs of None \<Rightarrow> None | Some (n, bs') \<Rightarrow> r_times n r bs')"

lemma reads_list [reads_rules]:
  assumes "reads w r"
  shows "reads (w_list w) (r_list r)"
proof -
  have "r_times (length xs) r (concat (map w xs) @ rest) = Some (xs, rest)" for xs rest
    by (induction xs) (simp_all add: readsD [OF assms])
  then show ?thesis using readsD [OF reads_nat] by (simp add: reads_def w_list_def r_list_def)
qed

definition w_byte :: "u8 \<Rightarrow> bytes" where
  "w_byte b = [b]"

fun r_byte :: "u8 reader" where
  "r_byte [] = None"
| "r_byte (b # bs) = Some (b, bs)"

lemma reads_byte [reads_rules]: "reads w_byte r_byte"
  by (simp add: reads_def w_byte_def)

definition w_opt :: "('a \<Rightarrow> bytes) \<Rightarrow> 'a option \<Rightarrow> bytes" where
  "w_opt w x = (case x of None \<Rightarrow> [0] | Some a \<Rightarrow> 1 # w a)"

fun r_opt :: "'a reader \<Rightarrow> 'a option reader" where
  "r_opt r [] = None"
| "r_opt r (b # bs) = (if b = 0 then Some (None, bs) else map_option (\<lambda>(x, rest). (Some x, rest)) (r bs))"

lemma reads_opt [reads_rules]: "reads w r \<Longrightarrow> reads (w_opt w) (r_opt r)"
  by (auto simp: reads_def w_opt_def split: option.splits)

section \<open>Tables\<close>

fun status_code :: "htlc_status \<Rightarrow> u8" where
  "status_code Pending = 0"
| "status_code Succeeded = 1"
| "status_code Failed = 2"

definition code_status :: "u8 \<Rightarrow> htlc_status" where
  "code_status b = (if b = 0 then Pending else if b = 1 then Succeeded else Failed)"

lemma code_status_code: "code_status (status_code x) = x"
  by (cases x) (simp_all add: code_status_def)

abbreviation w_bytes :: "bytes \<Rightarrow> bytes" where
  "w_bytes \<equiv> w_list w_byte"

abbreviation r_bytes :: "bytes reader" where
  "r_bytes \<equiv> r_list r_byte"

definition w_info :: "payment_info \<Rightarrow> bytes" where
  "w_info = w_map (\<lambda>i. (preimage i, secret i, status_code (status i), map_option unat (amt_msat i)))
     (w_pair (w_opt w_bytes) (w_pair (w_opt w_bytes) (w_pair w_byte (w_opt w_nat))))"

definition r_info :: "payment_info reader" where
  "r_info = r_map (\<lambda>(p, s, c, a). \<lparr>preimage = p, secret = s, status = code_status c,
       amt_msat = map_option of_nat a\<rparr>)
     (r_pair (r_opt r_bytes) (r_pair (r_opt r_bytes) (r_pair r_byte (r_opt r_nat))))"

lemma reads_info [reads_rules]: "reads w_info r_info"
  unfolding w_info_def r_info_def
  by (intro reads_rules) (simp add: code_status_code option.map_comp comp_def option.map_ident)

definition table_enc :: "payments \<Rightarrow> bytes" where
  "table_enc = w_list (w_pair w_bytes w_info)"

definition table_dec :: "bytes \<Rightarrow> payments option" where
  "table_dec bs = map_option fst (r_list (r_pair r_bytes r_info) bs)"

interpretation table_codec: codec table_enc table_dec
proof
  have "reads table_enc (r_list (r_pair r_bytes r_info))"
    unfolding table_enc_def by (intro reads_rules)
  then show "table_dec (table_enc t) = Some t" for t
    using readsD [where rest = "[]"] by (simp add: table_dec_def) fastforce
qed

end
