(* ===== verification/Event_Props.thy ===== *)
theory Event_Props imports Events Wire begin

text \<open>
  What the event handler does to the payments: an abstract account of the tables, the proof that
  the handler, its persistence included, implements it, and what survives a restart.
\<close>

section \<open>The abstract account\<close>

text \<open>The tables after an event, without disk, output or library.\<close>

fun next_inbound :: "ldk_event \<Rightarrow> payments \<Rightarrow> payments" where
  "next_inbound (PaymentClaimed hash purpose amt) ib = record_claimed hash purpose amt ib"
| "next_inbound _ ib = ib"

fun next_outbound :: "ldk_event \<Rightarrow> payments \<Rightarrow> payments" where
  "next_outbound (PaymentSent pre hash fee (Some pid)) ob =
     map_vals (\<lambda>i p. if i = pid then p\<lparr>preimage := Some pre, status := Succeeded\<rparr> else p) ob"
| "next_outbound (PaymentFailed hash reason pid) ob = mark_failed pid ob"
| "next_outbound _ ob = ob"

fun writes_inbound :: "ldk_event \<Rightarrow> bool" where
  "writes_inbound (PaymentClaimed hash purpose amt) = True"
| "writes_inbound _ = False"

fun writes_outbound :: "ldk_event \<Rightarrow> bool" where
  "writes_outbound (PaymentSent pre hash fee pid) = True"
| "writes_outbound (PaymentFailed hash reason pid) = True"
| "writes_outbound _ = False"

definition files_after :: "(payments \<Rightarrow> bytes) \<Rightarrow> ldk_event \<Rightarrow> payment_db \<Rightarrow> string \<Rightarrow> bytes option" where
  "files_after e ev d =
     (if writes_inbound ev
      then (file_of d)(INBOUND_PAYMENTS_FNAME \<mapsto> e (next_inbound ev (inbound_payments d)))
      else if writes_outbound ev
      then (file_of d)(OUTBOUND_PAYMENTS_FNAME \<mapsto> e (next_outbound ev (outbound_payments d)))
      else file_of d)"

section \<open>The handler implements it\<close>

lemmas handler_defs = bind_st_def return_st_def lift_st_def print_st_def println_st_def prompt_st_def call_st_def
  on_db_def set_inbound_def set_outbound_def

lemma payment_claimed_db:
  "payment_claimed env hash purpose amt s = (r, s') \<Longrightarrow>
   persist_inbound (enc env) ((db s)\<lparr>inbound_payments := record_claimed hash purpose amt (inbound_payments (db s))\<rparr>)
     = (r, db s')"
  by (auto simp: payment_claimed_def handler_defs split: prod.splits outcome.splits)

lemma payment_failed_db:
  "payment_failed env hash reason pid s = (r, s') \<Longrightarrow>
   persist_outbound (enc env) ((db s)\<lparr>outbound_payments := mark_failed pid (outbound_payments (db s))\<rparr>) = (r, db s')"
  by (auto simp: payment_failed_def handler_defs Let_def split: prod.splits outcome.splits)

lemma payment_sent_db:
  "payment_sent env pre hash fee (Some pid) s = (r, s') \<Longrightarrow>
   persist_outbound (enc env) ((db s)\<lparr>outbound_payments :=
     next_outbound (PaymentSent pre hash fee (Some pid)) (outbound_payments (db s))\<rparr>) = (r, db s')"
  using mark_sent_Some [of pid pre hash fee "outbound_payments (db s)"]
  by (auto simp: payment_sent_def handler_defs split: prod.splits outcome.splits)

lemma payment_sent_no_id:
  "payment_sent env pre hash fee None s =
     (if outbound_payments (db s) = []
      then (case persist_outbound (enc env) ((db s)\<lparr>outbound_payments := []\<rparr>) of (r, d) \<Rightarrow> (r, s\<lparr>db := d\<rparr>))
      else (Panic ''called `Option::unwrap()` on a `None` value'', s))"
  by (auto simp: payment_sent_def mark_sent_None handler_defs split: prod.splits outcome.splits)

lemma other_event_db:
  assumes "handle_ldk_events env ev s = (r, s')" "\<not> writes_inbound ev" "\<not> writes_outbound ev"
  shows "db s' = db s"
  using assms
  by (cases ev)
    (auto simp: handler_defs payment_claimable_def funding_generation_ready_def open_channel_request_def Let_def
      split: prod.splits outcome.splits if_splits)

lemma persist_inbound_cases:
  assumes "db_inv d" "persist_inbound e (d\<lparr>inbound_payments := t\<rparr>) = (r, d')"
  shows "db_inv d' \<and> inbound_payments d' = t \<and> outbound_payments d' = outbound_payments d \<and>
    file_of d' \<in> {file_of d, (file_of d)(INBOUND_PAYMENTS_FNAME \<mapsto> e t)} \<and>
    (r = Ok () \<longrightarrow> file_of d' = (file_of d)(INBOUND_PAYMENTS_FNAME \<mapsto> e t))"
proof -
  have "db_inv (d\<lparr>inbound_payments := t\<rparr>)" "file_of (d\<lparr>inbound_payments := t\<rparr>) = file_of d"
    using assms(1) by (simp_all add: db_inv_def file_of_def fun_eq_iff)
  with persist_payments_cases [OF this(1) assms(2) [unfolded persist_inbound_def]] show ?thesis by auto
qed

lemma persist_outbound_cases:
  assumes "db_inv d" "persist_outbound e (d\<lparr>outbound_payments := t\<rparr>) = (r, d')"
  shows "db_inv d' \<and> inbound_payments d' = inbound_payments d \<and> outbound_payments d' = t \<and>
    file_of d' \<in> {file_of d, (file_of d)(OUTBOUND_PAYMENTS_FNAME \<mapsto> e t)} \<and>
    (r = Ok () \<longrightarrow> file_of d' = (file_of d)(OUTBOUND_PAYMENTS_FNAME \<mapsto> e t))"
proof -
  have "db_inv (d\<lparr>outbound_payments := t\<rparr>)" "file_of (d\<lparr>outbound_payments := t\<rparr>) = file_of d"
    using assms(1) by (simp_all add: db_inv_def file_of_def fun_eq_iff)
  with persist_payments_cases [OF this(1) assms(2) [unfolded persist_outbound_def]] show ?thesis by auto
qed

lemma event_effect:
  assumes inv: "db_inv (db s)" and h: "handle_ldk_events env ev s = (r, s')"
  shows "db_inv (db s') \<and> file_of (db s') \<in> {file_of (db s), files_after (enc env) ev (db s)} \<and>
    (r = Ok () \<longrightarrow>
       file_of (db s') = files_after (enc env) ev (db s) \<and>
       inbound_payments (db s') = next_inbound ev (inbound_payments (db s)) \<and>
       outbound_payments (db s') = next_outbound ev (outbound_payments (db s)))"
proof (cases "writes_inbound ev")
  case True
  then obtain hash purpose amt where ev: "ev = PaymentClaimed hash purpose amt" by (cases ev) auto
  show ?thesis using persist_inbound_cases [OF inv payment_claimed_db] h ev by (simp add: files_after_def)
next
  case no_in: False
  show ?thesis
  proof (cases "writes_outbound ev")
    case False
    from other_event_db [OF h no_in this] inv no_in False show ?thesis
      by (cases ev) (simp_all add: files_after_def)
  next
    case True
    then consider (sent) pre hash fee pid where "ev = PaymentSent pre hash fee pid"
      | (failed) hash reason pid where "ev = PaymentFailed hash reason pid"
      by (cases ev) auto
    then show ?thesis
    proof cases
      case failed
      then show ?thesis using persist_outbound_cases [OF inv payment_failed_db] h by (simp add: files_after_def)
    next
      case (sent pre hash fee opid)
      show ?thesis
      proof (cases opid)
        case (Some pid)
        then show ?thesis using sent persist_outbound_cases [OF inv payment_sent_db] h
          by (simp add: files_after_def)
      next
        case None
        show ?thesis
        proof (cases "outbound_payments (db s) = []")
          case True
          with None sent h persist_outbound_cases [OF inv, of "enc env" "[]" r "db s'"] show ?thesis
            by (auto simp: payment_sent_no_id files_after_def split: prod.splits)
        qed (use None sent h inv in \<open>auto simp: payment_sent_no_id\<close>)
      qed
    qed
  qed
qed

section \<open>Runs and restarts\<close>

text \<open>The background processor hands over events one after the other; a panic ends the process.\<close>

fun run_events :: "(ldk_env \<times> ldk_event) list \<Rightarrow> unit handler" where
  "run_events [] = return_st ()"
| "run_events ((env, ev) # evs) = bind_st (handle_ldk_events env ev) (\<lambda>_. run_events evs)"

text \<open>The file of a table decodes to it; a table that was never written is empty.\<close>

definition on_file :: "(bytes \<Rightarrow> payments option) \<Rightarrow> payment_db \<Rightarrow> string \<Rightarrow> payments \<Rightarrow> bool" where
  "on_file dec d fname t \<longleftrightarrow>
     valid_key (cfg (fs_store d)) (table_key fname) \<and>
     (case file_of d fname of Some b \<Rightarrow> dec b = Some t | None \<Rightarrow> t = [])"

definition in_sync :: "(bytes \<Rightarrow> payments option) \<Rightarrow> payment_db \<Rightarrow> bool" where
  "in_sync dec d \<longleftrightarrow>
     db_inv d \<and> on_file dec d INBOUND_PAYMENTS_FNAME (inbound_payments d) \<and>
     on_file dec d OUTBOUND_PAYMENTS_FNAME (outbound_payments d)"

lemma fname_neq [simp]: "INBOUND_PAYMENTS_FNAME \<noteq> OUTBOUND_PAYMENTS_FNAME" "OUTBOUND_PAYMENTS_FNAME \<noteq> INBOUND_PAYMENTS_FNAME"
  by (simp_all add: INBOUND_PAYMENTS_FNAME_def OUTBOUND_PAYMENTS_FNAME_def)

lemma kv_write_cfg: "kv_write [] [] f b s = (r, s') \<Longrightarrow> store_inv s \<Longrightarrow> cfg s' = cfg s"
proof -
  assume w: "kv_write [] [] f b s = (r, s')" and inv: "store_inv s"
  note T = hoare_kv_write [OF store_triple(2) [OF inv], of "content_at (cur (dsk s))" "[]" "[]" f b]
  show ?thesis
    using hoare_ok [OF T store_triple(1) [OF inv], of "()" s'] hoare_fail [OF T store_triple(1) [OF inv] w] w
    by (cases r) (auto simp: at_cfg_def)
qed

lemma persist_cfg:
  "persist_payments e f t d = (r, d') \<Longrightarrow> db_inv d \<Longrightarrow> cfg (fs_store d') = cfg (fs_store d)"
  by (auto simp: persist_payments_def db_inv_def split: prod.splits dest: kv_write_cfg)

lemma handler_cfg:
  assumes inv: "db_inv (db s)" and h: "handle_ldk_events env ev s = (r, s')"
  shows "cfg (fs_store (db s')) = cfg (fs_store (db s))"
proof -
  have upd: "db_inv ((db s)\<lparr>inbound_payments := t\<rparr>)" "db_inv ((db s)\<lparr>outbound_payments := t\<rparr>)" for t
    using inv by (simp_all add: db_inv_def)
  show ?thesis
  proof (cases "writes_inbound ev \<or> writes_outbound ev")
    case False
    then show ?thesis using other_event_db [OF h] by simp
  next
    case True
    then consider (claimed) hash purpose amt where "ev = PaymentClaimed hash purpose amt"
      | (sent) pre hash fee opid where "ev = PaymentSent pre hash fee opid"
      | (failed) hash reason pid where "ev = PaymentFailed hash reason pid"
      by (cases ev) auto
    then show ?thesis
    proof cases
      case claimed
      then show ?thesis
        using persist_cfg [OF payment_claimed_db [unfolded persist_inbound_def] upd(1)] h by simp
    next
      case failed
      then show ?thesis
        using persist_cfg [OF payment_failed_db [unfolded persist_outbound_def] upd(2)] h by simp
    next
      case (sent pre hash fee opid)
      show ?thesis
      proof (cases opid)
        case (Some pid)
        then show ?thesis
          using persist_cfg [OF payment_sent_db [unfolded persist_outbound_def] upd(2)] h sent by simp
      next
        case None
        then show ?thesis using h sent persist_cfg [OF _ upd(2) [of "[]"]]
          by (auto simp: payment_sent_no_id persist_outbound_def split: if_splits prod.splits)
      qed
    qed
  qed
qed

lemma handler_in_sync:
  assumes codec: "\<And>t. dec (enc env t) = Some t" and sync: "in_sync dec (db s)"
    and h: "handle_ldk_events env ev s = (Ok (), s')"
  shows "in_sync dec (db s')"
proof -
  have inv: "db_inv (db s)" using sync by (simp add: in_sync_def)
  note eff = event_effect [OF inv h] and c = handler_cfg [OF inv h]
  have f: "file_of (db s') = files_after (enc env) ev (db s)" "db_inv (db s')"
    and t: "inbound_payments (db s') = next_inbound ev (inbound_payments (db s))"
      "outbound_payments (db s') = next_outbound ev (outbound_payments (db s))"
    using eff by simp_all
  consider (inb) "writes_inbound ev" "\<And>ob. next_outbound ev ob = ob"
    | (outb) "\<not> writes_inbound ev" "writes_outbound ev" "\<And>ib. next_inbound ev ib = ib"
    | (none) "\<not> writes_inbound ev" "\<not> writes_outbound ev"
        "\<And>ib. next_inbound ev ib = ib" "\<And>ob. next_outbound ev ob = ob"
    by (cases ev) auto
  then show ?thesis
    by cases (use f t sync c codec in \<open>simp_all add: in_sync_def on_file_def files_after_def\<close>)
qed

lemma run_in_sync:
  assumes "\<And>env ev t. (env, ev) \<in> set evs \<Longrightarrow> dec (enc env t) = Some t" "in_sync dec (db s)"
    "run_events evs s = (Ok (), s')"
  shows "in_sync dec (db s')"
  using assms
proof (induction evs arbitrary: s)
  case Nil
  then show ?case by (simp add: return_st_def)
next
  case (Cons e evs)
  obtain env ev where e: "e = (env, ev)" by (cases e)
  obtain s1 where s1: "handle_ldk_events env ev s = (Ok (), s1)" "run_events evs s1 = (Ok (), s')"
    using Cons.prems(3) e by (auto simp: bind_st_def split: prod.splits outcome.splits)
  have "in_sync dec (db s1)"
    by (rule handler_in_sync [OF _ Cons.prems(2) s1(1)]) (use Cons.prems(1) e in auto)
  from Cons.IH [OF _ this s1(2)] Cons.prems(1) show ?case by auto
qed

lemma read_table:
  assumes "faults (dsk s) = []" "on_file dec \<lparr>inbound_payments = i, outbound_payments = ob, fs_store = s\<rparr> f t"
  shows "\<exists>s'. read_payment_info dec (data_dir (cfg s) @ [f]) s = (t, s') \<and> faults (dsk s') = [] \<and>
    cur (dsk s') = cur (dsk s) \<and> cfg s' = cfg s"
proof (cases "kv_get s (table_key f)")
  case (Some b)
  then have "dec b = Some t" using assms(2) by (simp add: on_file_def file_of_def)
  from read_payment_info_value [where dec = dec, OF assms(1) Some this] read_payment_info_state show ?thesis
    by (metis surjective_pairing)
next
  case None
  then have t: "t = []" and "content_at (cur (dsk s)) (data_dir (cfg s) @ [f]) = None"
    using assms(2) by (auto simp: on_file_def file_of_def kv_get_def key_path.simps split: if_splits)
  then show ?thesis using assms(1)
    by (auto simp: read_payment_info_def on_disk_def sys_no_fault fs_open_def fs_read_def content_at_def
        split: option.splits node.splits)
qed

lemma run_tables:
  assumes "db_inv (db s)" "run_events evs s = (Ok (), s')"
  shows "db_inv (db s')"
    "inbound_payments (db s') = fold (\<lambda>e. next_inbound (snd e)) evs (inbound_payments (db s))"
    "outbound_payments (db s') = fold (\<lambda>e. next_outbound (snd e)) evs (outbound_payments (db s))"
proof -
  have "db_inv (db s') \<and>
    inbound_payments (db s') = fold (\<lambda>e. next_inbound (snd e)) evs (inbound_payments (db s)) \<and>
    outbound_payments (db s') = fold (\<lambda>e. next_outbound (snd e)) evs (outbound_payments (db s))"
    using assms
  proof (induction evs arbitrary: s)
    case Nil
    then show ?case by (simp add: return_st_def)
  next
    case (Cons e evs)
    obtain env ev where e: "e = (env, ev)" by (cases e)
    obtain s1 where s1: "handle_ldk_events env ev s = (Ok (), s1)" "run_events evs s1 = (Ok (), s')"
      using Cons.prems(2) e by (auto simp: bind_st_def split: prod.splits outcome.splits)
    note eff = event_effect [OF Cons.prems(1) s1(1)]
    from Cons.IH [OF conjunct1 [OF eff] s1(2)] eff e show ?case by simp
  qed
  then show "db_inv (db s')"
    "inbound_payments (db s') = fold (\<lambda>e. next_inbound (snd e)) evs (inbound_payments (db s))"
    "outbound_payments (db s') = fold (\<lambda>e. next_outbound (snd e)) evs (outbound_payments (db s))"
    by simp_all
qed

lemma load_in_sync:
  assumes sync: "in_sync dec d" and nf: "faults (dsk (fs_store d)) = []"
    and load: "load_payments e dec recent (fs_store d) = (r, d')"
  shows "inbound_payments d' = inbound_payments d"
    "outbound_payments d' = fail_forgotten recent (outbound_payments d)"
    "r = Ok () \<Longrightarrow> file_of d' OUTBOUND_PAYMENTS_FNAME = Some (e (outbound_payments d'))"
proof -
  let ?s = "fs_store d"
  have on: "on_file dec \<lparr>inbound_payments = i, outbound_payments = ob, fs_store = s1\<rparr> f t =
      on_file dec d f t" if "kv_get s1 = kv_get ?s" "cfg s1 = cfg ?s" for i ob s1 f t
    using that by (simp add: on_file_def file_of_def)
  obtain s1 where r1: "read_payment_info dec (data_dir (cfg ?s) @ [INBOUND_PAYMENTS_FNAME]) ?s = (inbound_payments d, s1)"
    "faults (dsk s1) = []" "cur (dsk s1) = cur (dsk ?s)" "cfg s1 = cfg ?s"
    using read_table [OF nf, of dec _ _ INBOUND_PAYMENTS_FNAME "inbound_payments d"] sync on [of ?s]
    by (auto simp: in_sync_def)
  have g1: "kv_get s1 = kv_get ?s" using same_cur_get r1(3,4) by blast
  obtain s2 where r2: "read_payment_info dec (data_dir (cfg ?s) @ [OUTBOUND_PAYMENTS_FNAME]) s1 = (outbound_payments d, s2)"
    using read_table [OF r1(2), of dec _ _ OUTBOUND_PAYMENTS_FNAME "outbound_payments d"] sync on [OF g1 r1(4)] r1(4)
    by (auto simp: in_sync_def)
  have inv: "store_inv ?s" using sync by (simp add: in_sync_def db_inv_def)
  note U = load_payments_unfold [OF r1(1) r2]
  note c = persist_payments_cases [OF U(2) [OF inv]]
  have p: "persist_payments e OUTBOUND_PAYMENTS_FNAME (fail_forgotten recent (outbound_payments d))
      \<lparr>inbound_payments = inbound_payments d, outbound_payments = fail_forgotten recent (outbound_payments d),
       fs_store = s2\<rparr> = (r, d')"
    using load U(1) by (simp add: persist_outbound_def)
  show "inbound_payments d' = inbound_payments d"
    "outbound_payments d' = fail_forgotten recent (outbound_payments d)"
    "r = Ok () \<Longrightarrow> file_of d' OUTBOUND_PAYMENTS_FNAME = Some (e (outbound_payments d'))"
    using c(2,3,5) [OF p] by simp_all
qed

section \<open>Properties\<close>

definition sample_db :: payment_db where
  "sample_db = \<lparr>inbound_payments = [], outbound_payments =
     [([1], \<lparr>preimage = None, secret = None, status = Pending, amt_msat = Some 10\<rparr>),
      ([2], \<lparr>preimage = None, secret = None, status = Pending, amt_msat = None\<rparr>)],
     fs_store = sample_store []\<rparr>"

definition sample_env :: ldk_env where
  "sample_env = \<lparr>enc = table_enc, best_height = 0, locktime_from_height = Some,
     create_funding_transaction = (\<lambda>s v t l. Ok []), funding_accepted = (\<lambda>c p t. True),
     secure_random_bytes = [], accept_inbound_channel = (\<lambda>c p u. None), channels = [],
     nodes = (\<lambda>n. None), sweeper_tracks = True\<rparr>"

definition sample_node :: node_state where
  "sample_node = \<lparr>db = sample_db, stdout = [], calls = []\<rparr>"

lemma sample_db_inv: "db_inv (db sample_node)"
  by (simp add: sample_node_def sample_db_def db_inv_def sample_store_inv)

lemma sample_sync_empty:
  "in_sync table_dec \<lparr>inbound_payments = [], outbound_payments = [], fs_store = sample_store []\<rparr>"
  by (simp add: in_sync_def db_inv_def store_inv_def alphabet_ok_def fs_wf_def on_file_def file_of_def kv_get_def content_at_def
      lookup_def sample_defs key_path.simps valid_key_iff is_valid_kvstore_str_def
      INBOUND_PAYMENTS_FNAME_def OUTBOUND_PAYMENTS_FNAME_def)

text \<open>
  C3. The handler implements the abstract account of the payments. If it returns, both tables are
  as the account says and the file of the table that changed holds its encoding; if it panics or
  fails, each file holds the old or the new table. Nothing else in the store changes.
\<close>

theorem handler_refines_account:
  assumes "db_inv (db s)" "handle_ldk_events env ev s = (r, s')"
  shows "db_inv (db s') \<and> file_of (db s') \<in> {file_of (db s), files_after (enc env) ev (db s)} \<and>
    (r = Ok () \<longrightarrow>
       file_of (db s') = files_after (enc env) ev (db s) \<and>
       inbound_payments (db s') = next_inbound ev (inbound_payments (db s)) \<and>
       outbound_payments (db s') = next_outbound ev (outbound_payments (db s)))"
  by (rule event_effect [OF assms])

theorem handler_refines_account_witness:
  "map_of (outbound_payments (db (snd (handle_ldk_events sample_env (PaymentFailed None None [1]) sample_node)))) [1] =
     Some \<lparr>preimage = None, secret = None, status = Failed, amt_msat = Some 10\<rparr> \<and>
   file_of (db (snd (handle_ldk_events sample_env (PaymentFailed None None [1]) sample_node))) OUTBOUND_PAYMENTS_FNAME =
     Some (table_enc (mark_failed [1] (outbound_payments sample_db)))"
proof -
  let ?ev = "PaymentFailed None None [1]"
  let ?h = "handle_ldk_events sample_env ?ev sample_node"
  have h: "?h = (Ok (), snd ?h)" by (rule prod_eqI) (simp_all del: handle_ldk_events.simps, code_simp)
  from handler_refines_account [OF sample_db_inv h] show ?thesis
    by (simp add: files_after_def sample_env_def sample_node_def sample_db_def alist_simps)
qed

text \<open>
  C4. Restart. After any sequence of events whose handlers all returned, a node that stops and
  starts again, with a readable disk, has exactly the inbound payments the events amount to, and
  the outbound ones with the forgotten pending ones marked failed. The TLV encoding is assumed to
  round-trip.
\<close>

theorem payments_survive_restart:
  assumes "\<And>env ev t. (env, ev) \<in> set evs \<Longrightarrow> dec (enc env t) = Some t"
    and "in_sync dec (db s)" "run_events evs s = (Ok (), s')"
    and "faults (dsk (fs_store (db s'))) = []" "load_payments e dec recent (fs_store (db s')) = (r, d)"
  shows "inbound_payments d = fold (\<lambda>e. next_inbound (snd e)) evs (inbound_payments (db s)) \<and>
    outbound_payments d =
      fail_forgotten recent (fold (\<lambda>e. next_outbound (snd e)) evs (outbound_payments (db s)))"
proof -
  have "db_inv (db s)" using assms(2) by (simp add: in_sync_def)
  from load_in_sync [OF run_in_sync [OF assms(1-3)] assms(4,5)] run_tables [OF this assms(3)]
  show ?thesis by simp
qed

definition empty_node :: node_state where
  "empty_node = \<lparr>db = \<lparr>inbound_payments = [], outbound_payments = [], fs_store = sample_store []\<rparr>,
     stdout = [], calls = []\<rparr>"

theorem payments_survive_restart_witness:
  "inbound_payments (snd (load_payments table_enc table_dec []
     (fs_store (db (snd (run_events [(sample_env, PaymentClaimed [9] (SpontaneousPayment [3]) 5),
       (sample_env, DiscardFunding)] empty_node)))))) =
   [([9], \<lparr>preimage = Some [3], secret = None, status = Succeeded, amt_msat = Some 5\<rparr>)]"
proof -
  let ?evs = "[(sample_env, PaymentClaimed [9] (SpontaneousPayment [3]) 5), (sample_env, DiscardFunding)]"
  let ?s = "snd (run_events ?evs empty_node)"
  have c: "\<And>env ev t. (env, ev) \<in> set ?evs \<Longrightarrow> table_dec (enc env t) = Some t"
    by (auto simp: sample_env_def table_codec.dec_enc)
  have sync: "in_sync table_dec (db empty_node)" by (simp add: empty_node_def sample_sync_empty)
  have run: "run_events ?evs empty_node = (Ok (), ?s)" by (rule prod_eqI) (simp_all del: run_events.simps, code_simp)
  have nf: "faults (dsk (fs_store (db ?s))) = []" by code_simp
  from payments_survive_restart [OF c sync run nf surjective_pairing]
  show ?thesis by (simp add: empty_node_def record_claimed_def del: run_events.simps)
qed

text \<open>
  After a claimed payment's handler returned, its entry is succeeded with the preimage and
  secret of the purpose; an amount recorded before (the invoice's) is kept, a new entry has the
  amount received. Every other entry is unchanged.
\<close>

theorem payment_claimed_entry:
  assumes "db_inv (db s)" "handle_ldk_events env (PaymentClaimed hash purpose amt) s = (Ok (), s')"
  shows "map_of (inbound_payments (db s')) =
    (map_of (inbound_payments (db s)))(hash \<mapsto>
      \<lparr>preimage = fst (purpose_preimage_secret purpose), secret = snd (purpose_preimage_secret purpose),
       status = Succeeded,
       amt_msat = (case map_of (inbound_payments (db s)) hash of Some p \<Rightarrow> amt_msat p | None \<Rightarrow> Some amt)\<rparr>) \<and>
    outbound_payments (db s') = outbound_payments (db s)"
  using event_effect [OF assms] by (auto simp: fun_eq_iff alist_simps)

theorem payment_claimed_entry_witness:
  "map_of (inbound_payments (db (snd (handle_ldk_events sample_env
     (PaymentClaimed [9] (Bolt11InvoicePayment (Some [3]) [4]) 5) empty_node)))) [9] =
   Some \<lparr>preimage = Some [3], secret = Some [4], status = Succeeded, amt_msat = Some 5\<rparr>"
proof -
  let ?h = "handle_ldk_events sample_env (PaymentClaimed [9] (Bolt11InvoicePayment (Some [3]) [4]) 5) empty_node"
  have "db_inv (db empty_node)" by (simp add: empty_node_def db_inv_def sample_store_inv)
  moreover have "?h = (Ok (), snd ?h)" by (rule prod_eqI) (simp_all del: handle_ldk_events.simps, code_simp)
  ultimately show ?thesis using payment_claimed_entry [of empty_node sample_env] by (simp add: empty_node_def)
qed

text \<open>
  After a sent payment's handler returned, the payment with that id has the preimage and is
  succeeded, and every other payment is unchanged; an event without an id (which old versions of the
  library sent) panics as soon as there is any outbound payment.
\<close>

theorem payment_sent_entry:
  assumes "db_inv (db s)" "handle_ldk_events env (PaymentSent pre hash fee pid) s = (r, s')"
  shows "(r = Ok () \<longrightarrow> (case pid of
      Some i \<Rightarrow> (\<forall>j. map_of (outbound_payments (db s')) j =
        (if j = i then map_option (\<lambda>p. p\<lparr>preimage := Some pre, status := Succeeded\<rparr>) (map_of (outbound_payments (db s)) i)
         else map_of (outbound_payments (db s)) j))
    | None \<Rightarrow> outbound_payments (db s) = [])) \<and>
    (pid = None \<and> outbound_payments (db s) \<noteq> [] \<longrightarrow> is_panic r \<and> s' = s)"
proof (cases pid)
  case None
  then show ?thesis using assms(2) by (auto simp: payment_sent_no_id split: if_splits)
next
  case (Some i)
  then show ?thesis using event_effect [OF assms] by (auto simp: alist_simps map_option_case split: option.splits)
qed

theorem payment_sent_entry_witness:
  "map_of (outbound_payments (db (snd (handle_ldk_events sample_env (PaymentSent [7] [8] None (Some [2])) sample_node)))) [2] =
     Some \<lparr>preimage = Some [7], secret = None, status = Succeeded, amt_msat = None\<rparr> \<and>
   is_panic (fst (handle_ldk_events sample_env (PaymentSent [7] [8] None None) sample_node))"
proof
  let ?h = "handle_ldk_events sample_env (PaymentSent [7] [8] None (Some [2])) sample_node"
  have "?h = (Ok (), snd ?h)" by (rule prod_eqI) (simp_all del: handle_ldk_events.simps, code_simp)
  from payment_sent_entry [OF sample_db_inv this]
  show "map_of (outbound_payments (db (snd ?h))) [2] =
      Some \<lparr>preimage = Some [7], secret = None, status = Succeeded, amt_msat = None\<rparr>"
    by (simp add: sample_node_def sample_db_def)
  show "is_panic (fst (handle_ldk_events sample_env (PaymentSent [7] [8] None None) sample_node))"
    using payment_sent_entry [OF sample_db_inv surjective_pairing, of sample_env "[7]" "[8]" None None]
    by (simp add: sample_node_def sample_db_def del: handle_ldk_events.simps)
qed

text \<open>
  Startup. Once the tables are loaded, a payment is pending only if the channel manager still
  knows it; a forgotten pending one has become failed, everything else is as stored, and the file
  holds the new table.
\<close>

theorem startup_settles_pending:
  assumes "in_sync dec d" "faults (dsk (fs_store d)) = []"
    and "load_payments e dec recent (fs_store d) = (Ok (), d')"
  shows "(\<forall>i. map_of (outbound_payments d') i =
      (case map_of (outbound_payments d) i of
         None \<Rightarrow> None
       | Some p \<Rightarrow> Some (if status p = Pending \<and> i \<notin> set recent then p\<lparr>status := Failed\<rparr> else p))) \<and>
    inbound_payments d' = inbound_payments d \<and>
    file_of d' OUTBOUND_PAYMENTS_FNAME = Some (e (outbound_payments d'))"
  using load_in_sync [OF assms] by (auto simp: alist_simps split: option.splits)

definition stored_db :: payment_db where
  "stored_db = snd (persist_outbound table_enc sample_db)"

lemma stored_db_facts:
  "db_inv stored_db" "faults (dsk (fs_store stored_db)) = []"
  "file_of stored_db OUTBOUND_PAYMENTS_FNAME = Some (table_enc (outbound_payments sample_db))"
  "outbound_payments stored_db = outbound_payments sample_db" "inbound_payments stored_db = []"
  "file_of stored_db INBOUND_PAYMENTS_FNAME = None" "cfg (fs_store stored_db) = sample_cfg"
proof -
  have p: "persist_payments table_enc OUTBOUND_PAYMENTS_FNAME (outbound_payments sample_db) sample_db = (Ok (), stored_db)"
    unfolding stored_db_def persist_outbound_def by (rule prod_eqI) (simp_all, code_simp)
  have inv: "db_inv sample_db" using sample_db_inv by (simp add: sample_node_def)
  note c = persist_payments_cases [OF inv p]
  show "db_inv stored_db" "outbound_payments stored_db = outbound_payments sample_db"
    "file_of stored_db OUTBOUND_PAYMENTS_FNAME = Some (table_enc (outbound_payments sample_db))"
    "inbound_payments stored_db = []"
    using c by (simp_all add: sample_db_def)
  have "file_of sample_db INBOUND_PAYMENTS_FNAME = None"
    using sample_sync_empty by (simp add: in_sync_def on_file_def file_of_def sample_db_def)
      (simp add: kv_get_def content_at_def lookup_def sample_defs INBOUND_PAYMENTS_FNAME_def)
  then show "file_of stored_db INBOUND_PAYMENTS_FNAME = None" using c(5) by simp
  show "cfg (fs_store stored_db) = sample_cfg"
    using persist_cfg [OF p inv] by (simp add: sample_db_def sample_store_def store_new_def)
  show "faults (dsk (fs_store stored_db)) = []" by code_simp
qed

lemma stored_db_sync: "in_sync table_dec stored_db"
  using stored_db_facts
  by (simp add: in_sync_def on_file_def table_codec.dec_enc valid_key_iff is_valid_kvstore_str_def sample_cfg_def
      INBOUND_PAYMENTS_FNAME_def OUTBOUND_PAYMENTS_FNAME_def)

theorem startup_settles_pending_witness:
  "map_of (outbound_payments (snd (load_payments table_enc table_dec [[2]] (fs_store stored_db)))) [1] =
     Some \<lparr>preimage = None, secret = None, status = Failed, amt_msat = Some 10\<rparr> \<and>
   map_of (outbound_payments (snd (load_payments table_enc table_dec [[2]] (fs_store stored_db)))) [2] =
     Some \<lparr>preimage = None, secret = None, status = Pending, amt_msat = None\<rparr>"
proof -
  have "load_payments table_enc table_dec [[2]] (fs_store stored_db) =
      (Ok (), snd (load_payments table_enc table_dec [[2]] (fs_store stored_db)))"
    by (rule prod_eqI) (simp_all, code_simp)
  from startup_settles_pending [OF stored_db_sync stored_db_facts(2) this] show ?thesis
    by (simp add: stored_db_facts(4)) (simp add: sample_db_def)
qed

text \<open>
  A table that cannot be read at startup is lost. When opening the outbound file fails once,
  the node goes on with an empty table, and the write that follows at once replaces the stored
  payments, which the disk still had, by the empty table.
\<close>

theorem startup_overwrites_unreadable_table:
  assumes "store_inv s" "faults (dsk s) = [None, None, Some (er, n)]"
    and "kv_get s (table_key INBOUND_PAYMENTS_FNAME) = Some b"
    and "load_payments e dec recent s = (Ok (), d)"
  shows "outbound_payments d = [] \<and> file_of d OUTBOUND_PAYMENTS_FNAME = Some (e [])"
proof -
  obtain ib s1 where r1: "read_payment_info dec (data_dir (cfg s) @ [INBOUND_PAYMENTS_FNAME]) s = (ib, s1)"
    by (cases "read_payment_info dec (data_dir (cfg s) @ [INBOUND_PAYMENTS_FNAME]) s")
  have "content_at (cur (dsk s)) (data_dir (cfg s) @ [INBOUND_PAYMENTS_FNAME]) = Some b"
    using assms(3) by (auto simp: kv_get_def key_path.simps split: if_splits)
  then have "faults (dsk s1) = [Some (er, n)]"
    using r1 assms(2)
    by (auto simp: read_payment_info_def on_disk_def sys_def next_fault_def perform_def fs_open_def fs_read_def
        content_at_def split: option.splits node.splits)
  from unreadable_is_empty [OF this, of dec "data_dir (cfg s) @ [OUTBOUND_PAYMENTS_FNAME]"]
  obtain s2 where r2: "read_payment_info dec (data_dir (cfg s) @ [OUTBOUND_PAYMENTS_FNAME]) s1 = ([], s2)"
    by (metis prod.collapse)
  note U = load_payments_unfold [OF r1 r2]
  have "persist_payments e OUTBOUND_PAYMENTS_FNAME (fail_forgotten recent [])
      \<lparr>inbound_payments = ib, outbound_payments = fail_forgotten recent [], fs_store = s2\<rparr> = (Ok (), d)"
    using assms(4) U(1) by (simp add: persist_outbound_def)
  from persist_payments_cases(3,5) [OF U(2) [OF assms(1)] this] show ?thesis
    by (simp add: fail_forgotten_def map_vals_def)
qed

definition faulty_store :: kvstore where
  "faulty_store = (let s = fs_store (snd (persist_inbound table_enc stored_db))
     in s\<lparr>dsk := (dsk s)\<lparr>faults := [None, None, Some (OtherError ''EMFILE'', 0)]\<rparr>\<rparr>)"

theorem startup_overwrites_unreadable_table_witness:
  "kv_get faulty_store (table_key OUTBOUND_PAYMENTS_FNAME) = Some (table_enc (outbound_payments sample_db)) \<and>
   file_of (snd (load_payments table_enc table_dec [[1], [2]] faulty_store)) OUTBOUND_PAYMENTS_FNAME =
     Some (table_enc [])"
proof -
  have p: "persist_payments table_enc INBOUND_PAYMENTS_FNAME [] stored_db =
      (Ok (), snd (persist_inbound table_enc stored_db))"
    unfolding persist_inbound_def stored_db_facts(5) by (rule prod_eqI) (simp_all, code_simp)
  note c = persist_payments_cases [OF stored_db_facts(1) p]
  let ?s = "fs_store (snd (persist_inbound table_enc stored_db))"
  have same: "kv_get faulty_store = kv_get ?s" "store_inv faulty_store = store_inv ?s"
    using same_cur_get [of faulty_store ?s] by (simp_all add: faulty_store_def Let_def)
  have get: "kv_get faulty_store (table_key OUTBOUND_PAYMENTS_FNAME) = Some (table_enc (outbound_payments sample_db))"
    "kv_get faulty_store (table_key INBOUND_PAYMENTS_FNAME) = Some (table_enc [])"
    using c(5) stored_db_facts(3) by (simp_all add: same file_of_def fun_eq_iff)
  have "store_inv faulty_store" using c(1) by (simp add: same db_inv_def)
  moreover have "faults (dsk faulty_store) = [None, None, Some (OtherError ''EMFILE'', 0)]"
    by (simp add: faulty_store_def Let_def)
  moreover have "load_payments table_enc table_dec [[1], [2]] faulty_store =
      (Ok (), snd (load_payments table_enc table_dec [[1], [2]] faulty_store))"
    by (rule prod_eqI) (simp_all, code_simp)
  ultimately show ?thesis using startup_overwrites_unreadable_table get by blast
qed

lemma update_twice: "AList.update k v (AList.update k v al) = AList.update k v al"
  by (induction al) auto

lemma update_same: "map_of al k = Some v \<Longrightarrow> AList.update k v al = al"
  by (induction al) (auto split: if_splits)

lemma next_inbound_twice: "next_inbound ev (next_inbound ev ib) = next_inbound ev ib"
proof (cases ev)
  case (PaymentClaimed hash purpose amt)
  let ?new = "record_claimed hash purpose amt ib"
  have "map_of ?new hash = Some \<lparr>preimage = fst (purpose_preimage_secret purpose),
      secret = snd (purpose_preimage_secret purpose), status = Succeeded,
      amt_msat = (case map_of ib hash of Some p \<Rightarrow> amt_msat p | None \<Rightarrow> Some amt)\<rparr>"
    by (simp add: map_of_record_claimed)
  then have "record_claimed hash purpose amt ?new = ?new"
    by (simp add: record_claimed_def [of _ _ _ ?new] update_same split: prod.split)
  then show ?thesis using PaymentClaimed by simp
qed simp_all

lemma mark_failed_twice: "mark_failed i (mark_failed i ps) = mark_failed i ps"
  by (cases "map_of ps i") (simp_all add: mark_failed_def alist_simps update_twice)

lemma map_vals_twice: "(\<And>k v. f k (f k v) = f k v) \<Longrightarrow> map_vals f (map_vals f al) = map_vals f al"
  by (induction al) (auto simp: map_vals_def)

lemma next_outbound_twice: "next_outbound ev (next_outbound ev ob) = next_outbound ev ob"
  by (cases "(ev, ob)" rule: next_outbound.cases) (auto simp: mark_failed_twice intro!: map_vals_twice)

text \<open>
  C23. Replay. The library hands over an event again after a crash. If the handler returns both times,
  the second time changes nothing: both tables, entry by entry and in their order, and the file of
  each table are as after the first.
\<close>

theorem event_replay_changes_nothing:
  assumes "db_inv (db s)" "handle_ldk_events env ev s = (Ok (), s1)"
    and "handle_ldk_events env ev s1 = (Ok (), s2)"
  shows "inbound_payments (db s2) = inbound_payments (db s1) \<and>
    outbound_payments (db s2) = outbound_payments (db s1) \<and> file_of (db s2) = file_of (db s1)"
proof -
  note e1 = event_effect [OF assms(1,2)]
  note e2 = event_effect [OF conjunct1 [OF e1] assms(3)]
  have t: "inbound_payments (db s2) = inbound_payments (db s1)" "outbound_payments (db s2) = outbound_payments (db s1)"
    using e1 e2 next_inbound_twice next_outbound_twice by simp_all
  moreover have "file_of (db s2) = file_of (db s1)"
    using e1 e2 by (auto simp: files_after_def next_inbound_twice next_outbound_twice)
  ultimately show ?thesis by simp
qed

theorem event_replay_changes_nothing_witness:
  "outbound_payments (db (snd (handle_ldk_events sample_env (PaymentFailed None None [1])
     (snd (handle_ldk_events sample_env (PaymentFailed None None [1]) sample_node))))) =
   outbound_payments (db (snd (handle_ldk_events sample_env (PaymentFailed None None [1]) sample_node))) \<and>
   file_of (db (snd (handle_ldk_events sample_env (PaymentFailed None None [1])
     (snd (handle_ldk_events sample_env (PaymentFailed None None [1]) sample_node))))) =
   file_of (db (snd (handle_ldk_events sample_env (PaymentFailed None None [1]) sample_node)))"
proof -
  let ?h = "handle_ldk_events sample_env (PaymentFailed None None [1])"
  have "?h sample_node = (Ok (), snd (?h sample_node))"
    "?h (snd (?h sample_node)) = (Ok (), snd (?h (snd (?h sample_node))))"
    by (rule prod_eqI; simp del: handle_ldk_events.simps; code_simp)+
  from event_replay_changes_nothing [OF sample_db_inv this] show ?thesis by simp
qed

text \<open>
  The wait before forwarding HTLCs is drawn from the non-empty range from the library's minimum
  to five times it, for every minimum from 1 to a fifth of the largest 64-bit number; a minimum of
  zero panics in both build profiles.
\<close>

theorem forward_wait_defined:
  "(if 0 < unat mn \<and> unat mn * 5 < 2 ^ 64
    then mn < mn * 5 \<and> unat (mn * 5) = unat mn * 5 \<and> forward_wait ovf draw mn = Ok (draw mn (mn * 5))
    else True) \<and> is_panic (forward_wait ovf draw 0)"
proof -
  have "unat (mn * 5) = unat mn * 5" if "unat mn * 5 < 2 ^ 64"
    using that by (simp add: unat_word_ariths)
  then show ?thesis by (auto simp: forward_wait_def word_less_nat_alt)
qed

text \<open>
  The task that connects to a node tries the addresses in order, skipping those that do not
  resolve, and stops at the first connection that succeeds; it succeeds if any would.
\<close>

theorem connect_addresses_in_order:
  "connect_addresses resolve connect addresses =
     (let socks = concat (map (\<lambda>a. case resolve a of None \<Rightarrow> [] | Some as \<Rightarrow> as) addresses)
      in (takeWhile (\<lambda>a. \<not> connect a) socks @ take 1 (dropWhile (\<lambda>a. \<not> connect a) socks),
          list_ex connect socks))"
proof -
  have socks: "connect_sockaddrs connect as =
      (takeWhile (\<lambda>a. \<not> connect a) as @ take 1 (dropWhile (\<lambda>a. \<not> connect a) as), list_ex connect as)" for as
    by (induction as) auto
  show ?thesis
  proof (induction addresses)
    case (Cons a as)
    show ?case
    proof (cases "resolve a")
      case (Some s)
      show ?thesis
      proof (cases "list_ex connect s")
        case True
        then obtain x where "x \<in> set s" "connect x" by (auto simp: list_ex_iff)
        moreover from this have "dropWhile (\<lambda>a. \<not> connect a) s \<noteq> []" by (auto simp: dropWhile_eq_Nil_conv)
        then have "Suc 0 \<le> length (dropWhile (\<lambda>a. \<not> connect a) s)" by (simp add: Suc_le_eq)
        ultimately show ?thesis using Some True
          by (simp add: socks takeWhile_append1 dropWhile_append1 Let_def)
      next
        case False
        then have "\<forall>x\<in>set s. \<not> connect x" by (simp add: list_ex_iff)
        then show ?thesis using Some False Cons
          by (simp add: socks takeWhile_append2 dropWhile_append2 Let_def dropWhile_eq_Nil_conv)
      qed
    qed (use Cons in simp)
  qed simp
qed

end
