(* ===== verification/Cli_Payments.thy ===== *)
theory Cli_Payments imports Event_Props begin

text \<open>
  The payment commands of \<open>src/src/cli.rs\<close>: \<open>send_payment\<close>, \<open>keysend\<close>,
  \<open>get_invoice\<close>, \<open>list_payments\<close> and the offer branch of \<open>sendpayment\<close> with its
  confirmation loop. Invoices and offers are parsed and paid by the library; its answers are the
  record \<open>cli_env\<close>, and what the commands ask of it is recorded in order.
\<close>

section \<open>State\<close>

datatype cli_call =
    SendPayment bytes bytes
  | SendSpontaneous bytes bytes bytes u64
  | PayForOffer bytes bytes u64
  | CreateChannel bytes u64 bool bool
  | CloseChannel bytes bytes
  | ForceCloseChannel bytes bytes
  | DisconnectPeer bytes
  | ConnectOutbound bytes string
  | SignMessage bytes

record cli_state =
  pay_db :: payment_db
  screen :: string
  requests :: "cli_call list"
  peers :: "bytes list"

record invoice =
  inv_hash :: bytes
  inv_secret :: bytes
  inv_amount :: "u64 option"
  inv_payee :: string

datatype offer_amount = BitcoinAmount u64 | CurrencyAmount string

record cli_env =
  cenc :: "payments \<Rightarrow> bytes"
  parse_offer :: "string \<Rightarrow> (bytes \<times> offer_amount option) option"
  parse_invoice :: "string \<Rightarrow> (string, invoice) outcome"
  zero_amount_params :: "invoice \<Rightarrow> u64 \<Rightarrow> string option"
  invoice_params :: "invoice \<Rightarrow> string option"
  send_answer :: "cli_call \<Rightarrow> string option"
  random_bytes :: bytes
  sha256 :: "bytes \<Rightarrow> bytes"
  create_invoice :: "string \<Rightarrow> u64 \<Rightarrow> u32 \<Rightarrow> (string, invoice \<times> string) outcome"

type_synonym 'a cli = "(cli_state, unit, 'a) st"

definition say :: "string \<Rightarrow> unit cli" where
  "say t s = (Ok (), s\<lparr>screen := screen s @ t\<rparr>)"

definition sayln :: "string \<Rightarrow> unit cli" where
  "sayln t = say (t @ [CHR 0x0A])"

definition request :: "cli_call \<Rightarrow> unit cli" where
  "request c s = (Ok (), s\<lparr>requests := requests s @ [c]\<rparr>)"

definition with_db :: "'a db_op \<Rightarrow> 'a cli" where
  "with_db m s = (case m (pay_db s) of (r, d) \<Rightarrow> (r, s\<lparr>pay_db := d\<rparr>))"

text \<open>\<open>payments.insert(id, info)\<close> on the outbound table, and setting one status.\<close>

definition insert_outbound :: "bytes \<Rightarrow> payment_info \<Rightarrow> unit db_op" where
  "insert_outbound i info d = (Ok (), d\<lparr>outbound_payments := AList.update i info (outbound_payments d)\<rparr>)"

definition insert_inbound :: "bytes \<Rightarrow> payment_info \<Rightarrow> unit db_op" where
  "insert_inbound i info d = (Ok (), d\<lparr>inbound_payments := AList.update i info (inbound_payments d)\<rparr>)"

definition set_failed :: "bytes \<Rightarrow> unit db_op" where
  "set_failed i d =
     (case map_of (outbound_payments d) i of
        Some p \<Rightarrow> (Ok (), d\<lparr>outbound_payments := AList.update i (p\<lparr>status := Failed\<rparr>) (outbound_payments d)\<rparr>)
      | None \<Rightarrow> (Panic ''called `Option::unwrap()` on a `None` value'', d))"

section \<open>Paying\<close>

text \<open>The answer of the library to a payment: failed ones are marked and persisted again.\<close>

definition payment_refused :: "cli_env \<Rightarrow> bytes \<Rightarrow> string \<Rightarrow> unit cli" where
  "payment_refused env payment_id e =
     bind_st (sayln (''ERROR: failed to send payment: '' @ e)) (\<lambda>_.
     bind_st (say ''> '') (\<lambda>_.
     bind_st (with_db (set_failed payment_id)) (\<lambda>_.
     with_db (persist_outbound (cenc env)))))"

definition send_payment :: "cli_env \<Rightarrow> invoice \<Rightarrow> u64 option \<Rightarrow> unit cli" where
  "send_payment env invoice required_amount_msat =
     (let payment_id = inv_hash invoice;
          payment_secret = Some (inv_secret invoice);
          zero_amt_invoice = (inv_amount invoice = None \<or> inv_amount invoice = Some 0);
          pay = (\<lambda>pay_params. case pay_params of
              Some e \<Rightarrow>
                bind_st (sayln (''Failed to parse invoice: '' @ e)) (\<lambda>_. say ''> '')
            | None \<Rightarrow>
                bind_st (with_db (insert_outbound payment_id
                  \<lparr>preimage = None, secret = payment_secret, status = Pending,
                   amt_msat = inv_amount invoice\<rparr>)) (\<lambda>_.
                bind_st (with_db (persist_outbound (cenc env))) (\<lambda>_.
                bind_st (request (SendPayment (inv_hash invoice) payment_id)) (\<lambda>_.
                case send_answer env (SendPayment (inv_hash invoice) payment_id) of
                  None \<Rightarrow>
                    bind_st (lift_st (unwrap_opt (inv_amount invoice))) (\<lambda>amt.
                    bind_st (sayln (''EVENT: initiated sending '' @ show_u64 amt @ '' msats to '' @
                      inv_payee invoice)) (\<lambda>_.
                    say ''> ''))
                | Some e \<Rightarrow> payment_refused env payment_id e))))
      in if zero_amt_invoice
         then (case required_amount_msat of
                 Some amt \<Rightarrow> pay (zero_amount_params env invoice amt)
               | None \<Rightarrow>
                   bind_st (sayln ''Need an amount for the given 0-value invoice'') (\<lambda>_. say ''> ''))
         else if required_amount_msat \<noteq> None \<and> inv_amount invoice \<noteq> required_amount_msat
         then bind_st (sayln (''Amount didn't match invoice value of '' @
                show_u64 (case inv_amount invoice of Some a \<Rightarrow> a | None \<Rightarrow> 0) @ ''msat'')) (\<lambda>_. say ''> '')
         else pay (invoice_params env invoice))"

definition keysend :: "cli_env \<Rightarrow> bytes \<Rightarrow> u64 \<Rightarrow> unit cli" where
  "keysend env payee_pubkey amt =
     (let payment_preimage = random_bytes env;
          payment_id = sha256 env payment_preimage;
          c = SendSpontaneous payment_preimage payment_id payee_pubkey amt
      in bind_st (with_db (insert_outbound payment_id
           \<lparr>preimage = None, secret = None, status = Pending, amt_msat = Some amt\<rparr>)) (\<lambda>_.
         bind_st (with_db (persist_outbound (cenc env))) (\<lambda>_.
         bind_st (request c) (\<lambda>_.
         case send_answer env c of
           None \<Rightarrow>
             bind_st (sayln (''EVENT: initiated sending '' @ show_u64 amt @ '' msats to '' @
               hex_str payee_pubkey)) (\<lambda>_.
             say ''> '')
         | Some e \<Rightarrow> payment_refused env payment_id e))))"

section \<open>Invoices\<close>

text \<open>The currency of the invoice by network, and the new inbound payment.\<close>

definition invoice_currency :: "string \<Rightarrow> string" where
  "invoice_currency net =
     (if net = ''bitcoin'' then ''Bitcoin''
      else if net = ''regtest'' then ''Regtest''
      else if net = ''signet'' then ''Signet''
      else ''BitcoinTestnet'')"

definition get_invoice :: "cli_env \<Rightarrow> u64 \<Rightarrow> string \<Rightarrow> u32 \<Rightarrow> unit cli" where
  "get_invoice env amt net expiry_secs =
     (case create_invoice env (invoice_currency net) amt expiry_secs of
        Ok (invoice, text) \<Rightarrow>
          bind_st (sayln (''SUCCESS: generated invoice: '' @ text)) (\<lambda>_.
          with_db (insert_inbound (inv_hash invoice)
            \<lparr>preimage = None, secret = Some (inv_secret invoice), status = Pending, amt_msat = Some amt\<rparr>))
      | Err e \<Rightarrow> sayln (''ERROR: failed to create invoice: '' @ e)
      | Panic m \<Rightarrow> lift_st (Panic m))"

section \<open>Listing\<close>

fun status_name :: "htlc_status \<Rightarrow> string" where
  "status_name Pending = ''pending''"
| "status_name Succeeded = ''succeeded''"
| "status_name Failed = ''failed''"

abbreviation tab :: char where "tab \<equiv> CHR 0x09"
abbreviation newline :: char where "newline \<equiv> CHR 0x0A"

definition payment_entry :: "string \<Rightarrow> bytes \<times> payment_info \<Rightarrow> string" where
  "payment_entry direction e =
     (case e of (payment_hash, payment_info) \<Rightarrow>
       [newline, tab, CHR ''{'', newline] @
       [tab, tab] @ ''amount_millisatoshis: '' @ show_millisat_amount (amt_msat payment_info) @ '','' @ [newline] @
       [tab, tab] @ ''payment_hash: '' @ hex_str payment_hash @ '','' @ [newline] @
       [tab, tab] @ ''htlc_direction: '' @ direction @ '','' @ [newline] @
       [tab, tab] @ ''htlc_status: '' @ status_name (status payment_info) @ '','' @ [newline] @
       [tab] @ ''},'' @ [newline])"

definition list_payments :: "unit cli" where
  "list_payments s =
     say (''['' @ concat (map (payment_entry ''inbound'') (inbound_payments (pay_db s))) @
          concat (map (payment_entry ''outbound'') (outbound_payments (pay_db s))) @ '']'' @ [newline]) s"

section \<open>What a payment command leaves behind\<close>

text \<open>The new table is in memory and on disk before the library is asked.\<close>

lemma persist_in_place:
  assumes "db_inv d" "persist_outbound e d = (r, d')"
  shows "db_inv d' \<and> inbound_payments d' = inbound_payments d \<and> outbound_payments d' = outbound_payments d \<and>
    file_of d' \<in> {file_of d, (file_of d)(OUTBOUND_PAYMENTS_FNAME \<mapsto> e (outbound_payments d))} \<and>
    (r = Ok () \<longrightarrow> file_of d' = (file_of d)(OUTBOUND_PAYMENTS_FNAME \<mapsto> e (outbound_payments d))) \<and>
    (r \<noteq> Ok () \<longrightarrow> is_panic r)"
  using persist_payments_cases [OF assms(1) assms(2) [unfolded persist_outbound_def]] by auto

lemma insert_then_persist:
  assumes "db_inv d" "persist_outbound e (snd (insert_outbound i info d)) = (r, d')"
  shows "db_inv d' \<and> inbound_payments d' = inbound_payments d \<and>
    outbound_payments d' = AList.update i info (outbound_payments d) \<and>
    (r = Ok () \<longrightarrow> file_of d' = (file_of d)(OUTBOUND_PAYMENTS_FNAME \<mapsto> e (outbound_payments d'))) \<and>
    (r \<noteq> Ok () \<longrightarrow> is_panic r)"
proof -
  let ?d = "snd (insert_outbound i info d)"
  have "db_inv ?d" "file_of ?d = file_of d" "inbound_payments ?d = inbound_payments d"
    "outbound_payments ?d = AList.update i info (outbound_payments d)"
    using assms(1) by (simp_all add: insert_outbound_def db_inv_def file_of_def fun_eq_iff)
  with persist_in_place [OF this(1) assms(2)] show ?thesis by auto
qed

lemma payment_refused_effect:
  assumes "db_inv (pay_db s)" "map_of (outbound_payments (pay_db s)) i = Some p"
    "payment_refused env i e s = (r, s')"
  shows "db_inv (pay_db s') \<and> requests s' = requests s \<and>
    inbound_payments (pay_db s') = inbound_payments (pay_db s) \<and>
    outbound_payments (pay_db s') = AList.update i (p\<lparr>status := Failed\<rparr>) (outbound_payments (pay_db s)) \<and>
    file_of (pay_db s') \<in> {file_of (pay_db s),
      (file_of (pay_db s))(OUTBOUND_PAYMENTS_FNAME \<mapsto> cenc env (outbound_payments (pay_db s')))} \<and>
    (r = Ok () \<longrightarrow> file_of (pay_db s') =
      (file_of (pay_db s))(OUTBOUND_PAYMENTS_FNAME \<mapsto> cenc env (outbound_payments (pay_db s')))) \<and>
    (r \<noteq> Ok () \<longrightarrow> is_panic r)"
proof -
  let ?t = "AList.update i (p\<lparr>status := Failed\<rparr>) (outbound_payments (pay_db s))"
  let ?d = "(pay_db s)\<lparr>outbound_payments := ?t\<rparr>"
  have h: "persist_outbound (cenc env) ?d = (r, pay_db s')" "requests s' = requests s"
    using assms(2,3)
    by (auto simp: payment_refused_def bind_st_def sayln_def say_def with_db_def set_failed_def
        split: prod.splits outcome.splits)
  have "db_inv ?d" "file_of ?d = file_of (pay_db s)"
    using assms(1) by (simp_all add: db_inv_def file_of_def fun_eq_iff)
  with persist_in_place [OF this(1) h(1)] h(2) show ?thesis by auto
qed

text \<open>What both payment commands do once the parameters are known.\<close>

definition pay_through :: "cli_env \<Rightarrow> cli_call \<Rightarrow> bytes \<Rightarrow> payment_info \<Rightarrow> unit cli \<Rightarrow> unit cli" where
  "pay_through env c i info accepted =
     bind_st (with_db (insert_outbound i info)) (\<lambda>_.
     bind_st (with_db (persist_outbound (cenc env))) (\<lambda>_.
     bind_st (request c) (\<lambda>_.
     case send_answer env c of None \<Rightarrow> accepted | Some e \<Rightarrow> payment_refused env i e)))"

lemma pay_through_effect:
  assumes inv: "db_inv (pay_db s)" and p: "pay_through env c i info accepted s = (r, s')"
    and acc: "\<And>s r s'. accepted s = (r, s') \<Longrightarrow> pay_db s' = pay_db s \<and> requests s' = requests s"
  shows "requests s' = requests s \<and> is_panic r \<or>
    requests s' = requests s @ [c] \<and>
    outbound_payments (pay_db s') =
      AList.update i (if send_answer env c = None then info else info\<lparr>status := Failed\<rparr>)
        (outbound_payments (pay_db s)) \<and>
    inbound_payments (pay_db s') = inbound_payments (pay_db s) \<and>
    file_of (pay_db s') OUTBOUND_PAYMENTS_FNAME \<in>
      {Some (cenc env (AList.update i info (outbound_payments (pay_db s)))),
       Some (cenc env (outbound_payments (pay_db s')))} \<and>
    (r = Ok () \<longrightarrow> file_of (pay_db s') OUTBOUND_PAYMENTS_FNAME = Some (cenc env (outbound_payments (pay_db s')))) \<and>
    (send_answer env c = None \<longrightarrow> (\<exists>s2. accepted s2 = (r, s')))"
proof -
  obtain r1 d1 where d1: "persist_outbound (cenc env) (snd (insert_outbound i info (pay_db s))) = (r1, d1)"
    by (cases "persist_outbound (cenc env) (snd (insert_outbound i info (pay_db s)))")
  note i1 = insert_then_persist [OF inv d1]
  have ins: "insert_outbound i info d = (Ok (), snd (insert_outbound i info d))" for d
    by (simp add: insert_outbound_def)
  let ?s1 = "s\<lparr>pay_db := d1\<rparr>"
  show ?thesis
  proof (cases "r1 = Ok ()")
    case False
    then have "is_panic r1" using i1 by simp
    then show ?thesis using p d1 ins [of "pay_db s"]
      by (cases r1) (auto simp: pay_through_def bind_st_def with_db_def split: prod.splits)
  next
    case True
    let ?s2 = "?s1\<lparr>requests := requests s @ [c]\<rparr>"
    have rest: "(case send_answer env c of None \<Rightarrow> accepted | Some e \<Rightarrow> payment_refused env i e) ?s2 = (r, s')"
      using p d1 ins [of "pay_db s"] True
      by (auto simp: pay_through_def bind_st_def with_db_def request_def split: prod.splits)
    have t1: "outbound_payments d1 = AList.update i info (outbound_payments (pay_db s))"
      "file_of d1 OUTBOUND_PAYMENTS_FNAME = Some (cenc env (outbound_payments d1))" "db_inv d1"
      "inbound_payments d1 = inbound_payments (pay_db s)"
      using i1 True by simp_all
    show ?thesis
    proof (cases "send_answer env c")
      case None
      with rest have "accepted ?s2 = (r, s')" by simp
      then show ?thesis using acc [of ?s2 r s'] t1 None by auto
    next
      case (Some e)
      have "map_of (outbound_payments (pay_db ?s2)) i = Some info" by (simp add: t1 alist_simps)
      from payment_refused_effect [OF _ this, of env e r s'] Some rest t1 show ?thesis by auto
    qed
  qed
qed

section \<open>The two commands\<close>

text \<open>The guards of \<open>send_payment\<close>: an amount is needed, fits, and the invoice is understood.\<close>

definition payable :: "cli_env \<Rightarrow> invoice \<Rightarrow> u64 option \<Rightarrow> bool" where
  "payable env iv req \<longleftrightarrow>
     (if inv_amount iv = None \<or> inv_amount iv = Some 0
      then (case req of None \<Rightarrow> False | Some amt \<Rightarrow> zero_amount_params env iv amt = None)
      else (req = None \<or> req = inv_amount iv) \<and> invoice_params env iv = None)"

definition announce_sent :: "invoice \<Rightarrow> unit cli" where
  "announce_sent iv =
     bind_st (lift_st (unwrap_opt (inv_amount iv))) (\<lambda>amt.
     bind_st (sayln (''EVENT: initiated sending '' @ show_u64 amt @ '' msats to '' @ inv_payee iv)) (\<lambda>_.
     say ''> ''))"

definition pending_entry :: "invoice \<Rightarrow> payment_info" where
  "pending_entry iv =
     \<lparr>preimage = None, secret = Some (inv_secret iv), status = Pending, amt_msat = inv_amount iv\<rparr>"

lemmas cli_defs = bind_st_def say_def sayln_def lift_st_def

lemma send_payment_payable:
  "payable env iv req \<Longrightarrow> send_payment env iv req =
     pay_through env (SendPayment (inv_hash iv) (inv_hash iv)) (inv_hash iv) (pending_entry iv) (announce_sent iv)"
  by (auto simp: send_payment_def payable_def pay_through_def pending_entry_def announce_sent_def Let_def
      split: option.splits if_splits)

lemma send_payment_not_payable:
  "\<not> payable env iv req \<Longrightarrow> send_payment env iv req s = (r, s') \<Longrightarrow>
     r = Ok () \<and> pay_db s' = pay_db s \<and> requests s' = requests s"
  by (auto simp: send_payment_def payable_def cli_defs Let_def split: option.splits if_splits)

lemma announce_sent_effect:
  "announce_sent iv s = (r, s') \<Longrightarrow>
     pay_db s' = pay_db s \<and> requests s' = requests s \<and> (r = Ok () \<longleftrightarrow> inv_amount iv \<noteq> None) \<and>
     (is_panic r \<longleftrightarrow> inv_amount iv = None)"
  by (cases "inv_amount iv") (auto simp: announce_sent_def cli_defs)

lemma keysend_pay_through:
  "keysend env payee amt =
     pay_through env (SendSpontaneous (random_bytes env) (sha256 env (random_bytes env)) payee amt)
       (sha256 env (random_bytes env)) \<lparr>preimage = None, secret = None, status = Pending, amt_msat = Some amt\<rparr>
       (bind_st (sayln (''EVENT: initiated sending '' @ show_u64 amt @ '' msats to '' @ hex_str payee)) (\<lambda>_. say ''> ''))"
  unfolding keysend_def pay_through_def Let_def by (rule refl)

section \<open>Properties\<close>

definition sample_cli :: "payments \<Rightarrow> cli_state" where
  "sample_cli ob = \<lparr>pay_db = \<lparr>inbound_payments = [], outbound_payments = ob, fs_store = sample_store []\<rparr>,
     screen = [], requests = [], peers = []\<rparr>"

definition sample_cli_env :: "(cli_call \<Rightarrow> string option) \<Rightarrow> cli_env" where
  "sample_cli_env answer = \<lparr>cenc = table_enc, parse_offer = (\<lambda>s. None), parse_invoice = (\<lambda>s. Err []),
     zero_amount_params = (\<lambda>i a. None), invoice_params = (\<lambda>i. None), send_answer = answer,
     random_bytes = [1, 2], sha256 = rev, create_invoice = (\<lambda>c a e. Err [])\<rparr>"

definition sample_invoice :: "u64 option \<Rightarrow> invoice" where
  "sample_invoice amt = \<lparr>inv_hash = [9], inv_secret = [4], inv_amount = amt, inv_payee = ''02ab''\<rparr>"

lemma sample_cli_inv: "db_inv (pay_db (sample_cli ob))"
  by (simp add: sample_cli_def db_inv_def sample_store_inv)

text \<open>
  C16. Paying an invoice: no amount for a zero-value invoice, an amount that differs from the
  invoice's, or an invoice the library does not understand change nothing and send nothing. Otherwise
  the payment is sent at most once, and only with its entry already in the table and on disk: pending
  with the invoice's amount, or failed when the library refused.
\<close>

theorem send_payment_records_then_sends:
  assumes "db_inv (pay_db s)" "send_payment env iv req s = (r, s')"
  shows "if \<not> payable env iv req
    then r = Ok () \<and> pay_db s' = pay_db s \<and> requests s' = requests s
    else requests s' = requests s \<and> is_panic r \<or>
      requests s' = requests s @ [SendPayment (inv_hash iv) (inv_hash iv)] \<and>
      outbound_payments (pay_db s') = AList.update (inv_hash iv)
        (if send_answer env (SendPayment (inv_hash iv) (inv_hash iv)) = None then pending_entry iv
         else (pending_entry iv)\<lparr>status := Failed\<rparr>) (outbound_payments (pay_db s)) \<and>
      inbound_payments (pay_db s') = inbound_payments (pay_db s) \<and>
      file_of (pay_db s') OUTBOUND_PAYMENTS_FNAME \<in>
        {Some (cenc env (AList.update (inv_hash iv) (pending_entry iv) (outbound_payments (pay_db s)))),
         Some (cenc env (outbound_payments (pay_db s')))}"
proof (cases "payable env iv req")
  case True
  from pay_through_effect [OF assms(1) assms(2) [unfolded send_payment_payable [OF True]]] announce_sent_effect True
  show ?thesis by auto
next
  case False
  with send_payment_not_payable [OF False assms(2)] show ?thesis by simp
qed

theorem send_payment_records_then_sends_witness:
  "outbound_payments (pay_db (snd (send_payment (sample_cli_env (\<lambda>c. None)) (sample_invoice (Some 5)) None (sample_cli [])))) =
     [([9], \<lparr>preimage = None, secret = Some [4], status = Pending, amt_msat = Some 5\<rparr>)] \<and>
   requests (snd (send_payment (sample_cli_env (\<lambda>c. None)) (sample_invoice (Some 5)) (Some 6) (sample_cli []))) = []"
proof
  let ?p = "\<lambda>req. send_payment (sample_cli_env (\<lambda>c. None)) (sample_invoice (Some 5)) req (sample_cli [])"
  have "requests (snd (?p None)) = [SendPayment [9] [9]]" by code_simp
  with send_payment_records_then_sends [OF sample_cli_inv surjective_pairing,
      of "sample_cli_env (\<lambda>c. None)" "sample_invoice (Some 5)" None "[]"]
  show "outbound_payments (pay_db (snd (?p None))) =
      [([9], \<lparr>preimage = None, secret = Some [4], status = Pending, amt_msat = Some 5\<rparr>)]"
    by (simp add: payable_def sample_invoice_def sample_cli_env_def pending_entry_def sample_cli_def split: if_splits)
  show "requests (snd (?p (Some 6))) = []"
    using send_payment_records_then_sends [OF sample_cli_inv surjective_pairing,
      of "sample_cli_env (\<lambda>c. None)" "sample_invoice (Some 5)" "Some 6" "[]"]
    by (simp add: payable_def sample_invoice_def sample_cli_env_def sample_cli_def)
qed

text \<open>
  Paying an invoice without an amount panics, which aborts the node, after the library has
  accepted the payment.
\<close>

theorem zero_amount_payment_aborts:
  assumes "db_inv (pay_db s)" "inv_amount iv = None"
    and "send_answer env (SendPayment (inv_hash iv) (inv_hash iv)) = None"
    and "send_payment env iv req s = (r, s')" "requests s' \<noteq> requests s"
  shows "is_panic r"
proof (cases "payable env iv req")
  case False
  then show ?thesis using send_payment_not_payable [OF False assms(4)] assms(5) by simp
next
  case True
  from pay_through_effect [OF assms(1) assms(4) [unfolded send_payment_payable [OF True]]] announce_sent_effect
  have "\<exists>s2. announce_sent iv s2 = (r, s')" using assms(3,5) by auto
  then show ?thesis using announce_sent_effect assms(2) by blast
qed

theorem zero_amount_payment_aborts_witness:
  "is_panic (fst (send_payment (sample_cli_env (\<lambda>c. None)) (sample_invoice None) (Some 7) (sample_cli []))) \<and>
   requests (snd (send_payment (sample_cli_env (\<lambda>c. None)) (sample_invoice None) (Some 7) (sample_cli []))) =
     [SendPayment [9] [9]]"
proof -
  let ?p = "send_payment (sample_cli_env (\<lambda>c. None)) (sample_invoice None) (Some 7) (sample_cli [])"
  have r: "requests (snd ?p) = [SendPayment [9] [9]]" by code_simp
  then have "requests (snd ?p) \<noteq> requests (sample_cli [])" by (simp add: sample_cli_def)
  from zero_amount_payment_aborts [OF sample_cli_inv _ _ surjective_pairing this] r show ?thesis
    by (simp add: sample_invoice_def sample_cli_env_def)
qed

text \<open>
  C36. Paying an invoice again, whatever became of it, replaces its entry: when the library refuses
  the duplicate, a payment that had succeeded is listed as failed, and its preimage, the proof of
  payment, is gone from the table and from the disk.
\<close>

theorem duplicate_payment_erases_proof:
  assumes "db_inv (pay_db s)" "map_of (outbound_payments (pay_db s)) (inv_hash iv) = Some old"
    "status old = Succeeded" "preimage old = Some pre" "payable env iv req"
    and "send_answer env (SendPayment (inv_hash iv) (inv_hash iv)) = Some ''DuplicatePayment''"
    and "send_payment env iv req s = (Ok (), s')"
  shows "map_of (outbound_payments (pay_db s')) (inv_hash iv) = Some ((pending_entry iv)\<lparr>status := Failed\<rparr>) \<and>
    preimage ((pending_entry iv)\<lparr>status := Failed\<rparr>) = None \<and>
    file_of (pay_db s') OUTBOUND_PAYMENTS_FNAME = Some (cenc env (outbound_payments (pay_db s')))"
  using pay_through_effect [OF assms(1) assms(7) [unfolded send_payment_payable [OF assms(5)]]]
    announce_sent_effect assms(6)
  by (auto simp: alist_simps pending_entry_def)

theorem duplicate_payment_erases_proof_witness:
  "map_of (outbound_payments (pay_db (snd (send_payment (sample_cli_env (\<lambda>c. Some ''DuplicatePayment''))
       (sample_invoice (Some 5)) None
       (sample_cli [([9], \<lparr>preimage = Some [3], secret = None, status = Succeeded, amt_msat = Some 5\<rparr>)]))))) [9] =
     Some \<lparr>preimage = None, secret = Some [4], status = Failed, amt_msat = Some 5\<rparr>"
proof -
  let ?s = "sample_cli [([9], \<lparr>preimage = Some [3], secret = None, status = Succeeded, amt_msat = Some 5\<rparr>)]"
  let ?p = "send_payment (sample_cli_env (\<lambda>c. Some ''DuplicatePayment'')) (sample_invoice (Some 5)) None ?s"
  have "?p = (Ok (), snd ?p)" by (rule prod_eqI) (simp_all, code_simp)
  from duplicate_payment_erases_proof [OF sample_cli_inv _ _ _ _ _ this] show ?thesis
    by (simp add: sample_cli_def sample_invoice_def sample_cli_env_def payable_def pending_entry_def)
qed

text \<open>
  \<open>keysend\<close> sends once, and only with the pending payment on disk; a refused one is recorded
  as failed. The amount recorded is the amount sent.
\<close>

theorem keysend_records_then_sends:
  assumes "db_inv (pay_db s)" "keysend env payee amt s = (r, s')"
  shows "let pid = sha256 env (random_bytes env);
      c = SendSpontaneous (random_bytes env) pid payee amt;
      entry = \<lparr>preimage = None, secret = None, status = Pending, amt_msat = Some amt\<rparr>
    in requests s' = requests s \<and> is_panic r \<or>
       requests s' = requests s @ [c] \<and>
       outbound_payments (pay_db s') =
         AList.update pid (if send_answer env c = None then entry else entry\<lparr>status := Failed\<rparr>)
           (outbound_payments (pay_db s)) \<and>
       (r = Ok () \<longrightarrow> file_of (pay_db s') OUTBOUND_PAYMENTS_FNAME = Some (cenc env (outbound_payments (pay_db s'))))"
  using pay_through_effect [OF assms(1) assms(2) [unfolded keysend_pay_through]]
  by (auto simp: Let_def cli_defs)

theorem keysend_records_then_sends_witness:
  "outbound_payments (pay_db (snd (keysend (sample_cli_env (\<lambda>c. Some ''no route'')) [2, 2] 11 (sample_cli [])))) =
     [([2, 1], \<lparr>preimage = None, secret = None, status = Failed, amt_msat = Some 11\<rparr>)]"
proof -
  let ?p = "keysend (sample_cli_env (\<lambda>c. Some ''no route'')) [2, 2] 11 (sample_cli [])"
  have r: "requests (snd ?p) = [SendSpontaneous [1, 2] [2, 1] [2, 2] 11]" by code_simp
  with keysend_records_then_sends [OF sample_cli_inv surjective_pairing,
      of "sample_cli_env (\<lambda>c. Some ''no route'')" "[2, 2]" 11 "[]"]
  show ?thesis by (simp add: sample_cli_env_def sample_cli_def Let_def)
qed

end
