(* ===== verification/Peers.thy ===== *)
theory Peers imports Cli_Payments begin

text \<open>
  Peers: the file of channel peers (\<open>persist_channel_peer\<close> and \<open>read_channel_peer_data\<close>
  of \<open>src/src/disk.rs\<close>), \<open>parse_peer_info\<close> and the connection commands of
  \<open>src/src/cli.rs\<close>, and the task of \<open>src/src/main.rs\<close> that reconnects to channel
  peers. Public keys are their serialised bytes; \<open>secp256k1\<close>'s parser is the parameter
  \<open>from_slice\<close>, the name resolution of \<open>to_socket_addrs\<close> the parameter
  \<open>resolve\<close>.
\<close>

section \<open>Peer information\<close>

datatype peer_error = Custom string | Io io_error

definition parse_peer_info ::
  "(bytes \<Rightarrow> bytes option) \<Rightarrow> (string \<Rightarrow> string list option) \<Rightarrow> string \<Rightarrow> (peer_error, bytes \<times> string) outcome" where
  "parse_peer_info from_slice resolve info =
     (case split_char CHR ''@'' info of
        pubkey # peer_addr_str # _ \<Rightarrow>
          (case resolve peer_addr_str of
             Some (peer_addr # _) \<Rightarrow>
               (case to_compressed_pubkey from_slice pubkey of
                  None \<Rightarrow> Err (Custom ''ERROR: unable to parse given pubkey for node'')
                | Some pk \<Rightarrow> Ok (pk, peer_addr))
           | _ \<Rightarrow> Err (Custom ''ERROR: couldn't parse pubkey@host:port into a socket address''))
      | _ \<Rightarrow> Err (Custom ''ERROR: incorrectly formatted peer info. Should be formatted as: `pubkey@host:port`''))"

section \<open>The file of channel peers\<close>

definition persist_channel_peer :: "path \<Rightarrow> string \<Rightarrow> unit io" where
  "persist_channel_peer p peer_info =
     bind_st (sys (fs_open_append p)) (\<lambda>file.
     sys_write file (as_bytes (peer_info @ [CHR 0x0A])))"

definition as_str :: "bytes \<Rightarrow> string" where
  "as_str bs = map (\<lambda>b. char_of (unat b)) bs"

text \<open>
  The loop over \<open>reader.lines()\<close>: a line that is not UTF-8 is an error of the reader, which is
  unwrapped; one that does not parse ends the loop.
\<close>

fun insert_peers ::
  "(string \<Rightarrow> (peer_error, bytes \<times> string) outcome) \<Rightarrow> (bytes \<times> string) list \<Rightarrow> string list \<Rightarrow>
   (peer_error, (bytes \<times> string) list) outcome" where
  "insert_peers parse peer_data [] = Ok peer_data"
| "insert_peers parse peer_data (line # ls) =
     (if \<not> valid_utf8 (as_bytes line) then Panic ''called `Result::unwrap()` on an `Err` value''
      else case parse line of
        Ok (pubkey, socket_addr) \<Rightarrow> insert_peers parse (AList.update pubkey socket_addr peer_data) ls
      | Err e \<Rightarrow> Err e
      | Panic m \<Rightarrow> Panic m)"

text \<open>
  A file for which \<open>exists\<close> is \<open>false\<close> is an empty map; one line that does not parse fails the
  whole reading; an error while the lines are read is unwrapped.
\<close>

definition read_channel_peer_data ::
  "(string \<Rightarrow> (peer_error, bytes \<times> string) outcome) \<Rightarrow> path \<Rightarrow> disk \<Rightarrow>
   (peer_error, (bytes \<times> string) list) outcome \<times> disk" where
  "read_channel_peer_data parse p d =
     (case path_exists p d of
        (Ok True, d0) \<Rightarrow>
           (case sys (fs_open p) d0 of
              (Ok file, d1) \<Rightarrow>
                (case sys (fs_read p) d1 of
                   (Ok buf, d2) \<Rightarrow> (insert_peers parse [] (str_lines (as_str buf)), d2)
                 | (Err e, d2) \<Rightarrow> (Panic ''called `Result::unwrap()` on an `Err` value'', d2)
                 | (Panic m, d2) \<Rightarrow> (Panic m, d2))
            | (Err e, d1) \<Rightarrow> (Err (Io e), d1)
            | (Panic m, d1) \<Rightarrow> (Panic m, d1))
      | (_, d0) \<Rightarrow> (Ok [], d0))"

section \<open>Connections\<close>

text \<open>
  \<open>do_connect_peer\<close> after the connection was opened: every 10 ms it looks whether the peer
  has completed the handshake, until the connection closes. An observation is a close, or a look.
\<close>

datatype conn_event = Closed | Looked bool

fun await_peer :: "conn_event list \<Rightarrow> (unit, unit) outcome option" where
  "await_peer [] = None"
| "await_peer (Closed # evs) = Some (Err ())"
| "await_peer (Looked present # evs) = (if present then Some (Ok ()) else await_peer evs)"

definition do_connect_peer :: "conn_event list option \<Rightarrow> (unit, unit) outcome option" where
  "do_connect_peer connect_outbound =
     (case connect_outbound of
        Some connection \<Rightarrow> await_peer connection
      | None \<Rightarrow> Some (Err ()))"

text \<open>
  \<open>connect_peer_if_necessary\<close> with the outcome of \<open>do_connect_peer\<close> given: a peer that
  is connected already is not asked again.
\<close>

definition connect_peer_if_necessary ::
  "(bytes \<Rightarrow> string \<Rightarrow> bool) \<Rightarrow> bytes \<Rightarrow> string \<Rightarrow> cli_state \<Rightarrow> (unit, unit) outcome \<times> cli_state" where
  "connect_peer_if_necessary connect pubkey peer_addr s =
     (if pubkey \<in> set (peers s) then (Ok (), s)
      else bind_st (request (ConnectOutbound pubkey peer_addr)) (\<lambda>_ s.
        if connect pubkey peer_addr then (Ok (), s\<lparr>peers := pubkey # peers s\<rparr>)
        else bind_st (sayln ''ERROR: failed to connect to peer'') (\<lambda>_. lift_st (Err ())) s) s)"

definition do_disconnect_peer :: "(bytes \<times> bytes) list \<Rightarrow> bytes \<Rightarrow> unit cli" where
  "do_disconnect_peer chans pubkey s =
     (if list_ex (\<lambda>channel. snd channel = pubkey) chans
      then bind_st (sayln ''Error: Node has an active channel with this peer, close any channels first'') (\<lambda>_.
        lift_st (Err ())) s
      else if pubkey \<notin> set (peers s)
      then bind_st (sayln (''Error: Could not find peer '' @ hex_str pubkey)) (\<lambda>_. lift_st (Err ())) s
      else bind_st (request (DisconnectPeer pubkey)) (\<lambda>_ s.
        (Ok (), s\<lparr>peers := removeAll pubkey (peers s)\<rparr>)) s)"

definition open_channel :: "cli_env \<Rightarrow> bytes \<Rightarrow> u64 \<Rightarrow> bool \<Rightarrow> bool \<Rightarrow> unit cli" where
  "open_channel env peer_pubkey channel_amt_sat announce_for_forwarding with_anchors =
     (let c = CreateChannel peer_pubkey channel_amt_sat announce_for_forwarding with_anchors in
      bind_st (request c) (\<lambda>_.
      case send_answer env c of
        None \<Rightarrow> sayln (''EVENT: initiated channel with peer '' @ hex_str peer_pubkey @ ''. '')
      | Some e \<Rightarrow>
          bind_st (sayln (''ERROR: failed to open channel: '' @ e)) (\<lambda>_. lift_st (Err ()))))"

text \<open>
  One pass of the reconnection task: the peers of the channels, lazily those not connected at that
  moment, and for each the entries of the map. The stop flag is read before each such peer; its
  successive values are the list \<open>stops\<close>, unset past the end. The result is the attempts in
  order, the peers connected afterwards, and whether the task saw the flag.
\<close>

fun reconnect_entries ::
  "(bytes \<Rightarrow> string \<Rightarrow> bool) \<Rightarrow> bytes \<Rightarrow> (bytes \<times> string) list \<Rightarrow> bytes list \<Rightarrow> (bytes \<times> string) list \<times> bytes list" where
  "reconnect_entries connect node_id [] ps = ([], ps)"
| "reconnect_entries connect node_id ((pubkey, peer_addr) # info) ps =
     (if pubkey = node_id
      then (case reconnect_entries connect node_id info
                   (if connect pubkey peer_addr then pubkey # ps else ps) of
              (attempts, ps') \<Rightarrow> ((pubkey, peer_addr) # attempts, ps'))
      else reconnect_entries connect node_id info ps)"

fun reconnect_pass ::
  "(bytes \<Rightarrow> string \<Rightarrow> bool) \<Rightarrow> (bytes \<times> string) list \<Rightarrow> bool list \<Rightarrow> bytes list \<Rightarrow> bytes list \<Rightarrow>
   (bytes \<times> string) list \<times> bytes list \<times> bool" where
  "reconnect_pass connect info stops [] ps = ([], ps, False)"
| "reconnect_pass connect info stops (node_id # chans) ps =
     (if node_id \<in> set ps then reconnect_pass connect info stops chans ps
      else if stops \<noteq> [] \<and> hd stops then ([], ps, True)
      else (case reconnect_entries connect node_id info ps of
              (attempts, ps1) \<Rightarrow>
                (case reconnect_pass connect info (tl stops) chans ps1 of
                   (more_attempts, ps2, stopped) \<Rightarrow> (attempts @ more_attempts, ps2, stopped))))"

section \<open>Reading what was appended\<close>

lemma as_str_bytes [simp]: "as_str (as_bytes s) = s"
proof -
  have "char_of (unat (of_char c :: u8)) = c" for c :: char by (simp add: unat_byte)
  then show ?thesis by (simp add: as_str_def as_bytes_def comp_def)
qed

lemma as_str_append: "as_str (a @ b) = as_str a @ as_str b"
  by (simp add: as_str_def)

lemma insert_peers_append:
  "insert_peers parse m (ls @ ls') = bind_out (insert_peers parse m ls) (\<lambda>m'. insert_peers parse m' ls')"
  by (induction parse m ls rule: insert_peers.induct) (auto split: outcome.splits prod.splits)

text \<open>The lines of the file at a path; a missing file has none.\<close>

definition peer_lines :: "disk \<Rightarrow> path \<Rightarrow> string list" where
  "peer_lines d p = (case content_at (cur d) p of None \<Rightarrow> [] | Some b \<Rightarrow> str_lines (as_str b))"

definition whole_lines :: "disk \<Rightarrow> path \<Rightarrow> bool" where
  "whole_lines d p \<longleftrightarrow>
     (case content_at (cur d) p of None \<Rightarrow> True | Some b \<Rightarrow> b = [] \<or> last (as_str b) = CHR 0x0A)"

lemma read_channel_peer_data_lines:
  assumes "faults d = []" "lookup (cur d) p \<noteq> Some Dir"
  shows "fst (read_channel_peer_data parse p d) = insert_peers parse [] (peer_lines d p)"
  using assms
  by (auto simp: read_channel_peer_data_def path_exists_def fs_stat_def peer_lines_def content_at_def sys_no_fault
      fs_open_def fs_read_def str_lines_def split: option.splits node.splits)

lemma fs_open_append_Ok:
  assumes "fs_open_append p f = (Ok i, f')" "fs_wf f"
  shows "p \<noteq> []" "lookup f' p = Some (File i)"
    "data_of f' i = (case content_at f p of None \<Rightarrow> [] | Some b \<Rightarrow> b)"
proof -
  show p: "p \<noteq> []" using assms(1) by (auto simp: fs_open_append_def parent_dir_def)
  show "lookup f' p = Some (File i)"
    "data_of f' i = (case content_at f p of None \<Rightarrow> [] | Some b \<Rightarrow> b)"
    using assms p
    by (auto simp: fs_open_append_def new_file_def Let_def content_at_def fs_simps
        split: outcome.splits option.splits node.splits)
qed

lemma persist_channel_peer_Ok:
  assumes "fs_wf (cur d)" "persist_channel_peer p info d = (Ok (), d')"
  shows "content_at (cur d') p =
    Some ((case content_at (cur d) p of None \<Rightarrow> [] | Some b \<Rightarrow> b) @ as_bytes (info @ [CHR 0x0A]))"
proof -
  obtain i d1 where o: "sys (fs_open_append p) d = (Ok i, d1)"
    and w: "sys_write i (as_bytes (info @ [CHR 0x0A])) d1 = (Ok (), d')"
    using assms(2) by (auto simp: persist_channel_peer_def bind_st_def split: prod.splits outcome.splits)
  have "fs_open_append p (cur d) = (Ok i, cur d1)"
    using o by (auto simp: sys_def perform_def split: option.splits prod.splits)
  note facts = fs_open_append_Ok [OF this assms(1)]
  have "cur d' = put_data i (data_of (cur d1) i @ as_bytes (info @ [CHR 0x0A])) (cur d1)"
    using w by (auto simp: sys_write_def perform_def fs_write_def split: option.splits)
  then show ?thesis using facts by (simp add: content_at_def fs_simps)
qed

section \<open>Properties\<close>

text \<open>
  C29. The file of channel peers. After a peer was appended, reading the file gives the peers it
  gave before with the new one inserted, its address replacing an older one. The information is a
  \<open>&str\<close>, so its bytes are UTF-8.
\<close>

theorem peer_file_round_trip:
  assumes "fs_wf (cur d)" "whole_lines d p" "persist_channel_peer p info d = (Ok (), d')" "faults d' = []"
    and "no_ws info" "valid_utf8 (as_bytes info)" "parse_peer_info from_slice resolve info = Ok (pubkey, addr)"
    and "insert_peers (parse_peer_info from_slice resolve) [] (peer_lines d p) = Ok m"
  shows "fst (read_channel_peer_data (parse_peer_info from_slice resolve) p d') = Ok (AList.update pubkey addr m) \<and>
    whole_lines d' p"
proof -
  note c = persist_channel_peer_Ok [OF assms(1,3)]
  have nl: "CHR 0x0A \<notin> set info" using assms(5) by (auto simp: list_all_iff is_ws_def)
  let ?old = "case content_at (cur d) p of None \<Rightarrow> [] | Some b \<Rightarrow> as_str b"
  have "?old = [] \<or> last ?old = CHR 0x0A"
    using assms(2) by (auto simp: whole_lines_def as_str_def split: option.splits)
  moreover have text_eq: "as_str (the (content_at (cur d') p)) = ?old @ info @ [CHR 0x0A]"
    using c by (auto simp: as_str_append as_str_def [of "[]"] split: option.splits)
  ultimately have "str_lines (as_str (the (content_at (cur d') p))) = str_lines ?old @ [info]"
    using str_lines_append str_lines_single [OF nl] strip_cr_no_ws [OF assms(5)] by simp
  then have "peer_lines d' p = peer_lines d p @ [info]"
    using c by (auto simp: peer_lines_def str_lines_def split: option.splits)
  moreover have "lookup (cur d') p \<noteq> Some Dir" using c by (auto simp: content_at_def)
  ultimately show ?thesis
    using read_channel_peer_data_lines [OF assms(4), of p "parse_peer_info from_slice resolve"] assms(6-8) c text_eq
    by (auto simp: insert_peers_append whole_lines_def)
qed

definition sample_peer :: string where
  "sample_peer = replicate 66 CHR ''0'' @ ''@h:1''"

lemma parse_sample_peer: "parse_peer_info Some (\<lambda>s. Some [s]) sample_peer = Ok (replicate 33 0, ''h:1'')"
  by code_simp

lemma sample_disk_facts: "fs_wf (cur (sample_disk []))" "whole_lines (sample_disk []) p"
  "peer_lines (sample_disk []) p = []"
  by (simp_all add: sample_disk_def empty_fs_def fs_wf_def lookup_def whole_lines_def content_at_def peer_lines_def)

theorem peer_file_round_trip_witness:
  "fst (read_channel_peer_data (parse_peer_info Some (\<lambda>s. Some [s])) [''channel_peer_data'']
     (snd (persist_channel_peer [''channel_peer_data''] sample_peer (sample_disk [])))) =
   Ok [(replicate 33 0, ''h:1'')]"
proof -
  let ?d = "snd (persist_channel_peer [''channel_peer_data''] sample_peer (sample_disk []))"
  have put: "persist_channel_peer [''channel_peer_data''] sample_peer (sample_disk []) = (Ok (), ?d)"
    by (rule prod_eqI) (simp_all, code_simp)
  have nf: "faults ?d = []" by code_simp
  have ws: "no_ws sample_peer" "valid_utf8 (as_bytes sample_peer)" by code_simp+
  have none: "insert_peers (parse_peer_info Some (\<lambda>s. Some [s])) [] (peer_lines (sample_disk []) [''channel_peer_data'']) = Ok []"
    by (simp add: sample_disk_facts)
  from peer_file_round_trip [OF sample_disk_facts(1,2) put nf ws parse_sample_peer none] show ?thesis by simp
qed

text \<open>
  One line that does not parse, or whose host does not resolve at the moment, makes the whole
  reading fail, so that the reconnection task tries no peer at all.
\<close>

theorem bad_peer_line_blocks_all:
  assumes "faults d = []" "lookup (cur d) p \<noteq> Some Dir" "line \<in> set (peer_lines d p)"
    and "\<not> is_ok (parse_peer_info from_slice resolve line)"
  shows "\<not> is_ok (fst (read_channel_peer_data (parse_peer_info from_slice resolve) p d))"
proof -
  have "\<not> is_ok (insert_peers parse m ls)" if "line \<in> set ls" "\<not> is_ok (parse line)" for parse m ls
    using that by (induction parse m ls rule: insert_peers.induct) (auto split: outcome.splits prod.splits)
  then show ?thesis using assms by (simp add: read_channel_peer_data_lines)
qed

theorem bad_peer_line_blocks_all_witness:
  "\<not> is_ok (fst (read_channel_peer_data (parse_peer_info Some (\<lambda>s. Some [s])) [''channel_peer_data'']
     (snd (persist_channel_peer [''channel_peer_data''] sample_peer
       (snd (persist_channel_peer [''channel_peer_data''] ''junk'' (sample_disk [])))))))"
proof (rule bad_peer_line_blocks_all [where line = "''junk''"])
  let ?d = "snd (persist_channel_peer [''channel_peer_data''] sample_peer
       (snd (persist_channel_peer [''channel_peer_data''] ''junk'' (sample_disk []))))"
  show "faults ?d = []" "\<not> is_ok (parse_peer_info Some (\<lambda>s. Some [s]) ''junk'')"
    "lookup (cur ?d) [''channel_peer_data''] \<noteq> Some Dir" by code_simp+
  have "peer_lines ?d [''channel_peer_data''] = [''junk'', sample_peer]" by code_simp
  then show "''junk'' \<in> set (peer_lines ?d [''channel_peer_data''])" by simp
qed

lemma reconnect_entries_spec:
  "reconnect_entries connect n info ps = (att, ps') \<Longrightarrow>
   set ps \<subseteq> set ps' \<and> set ps' \<subseteq> insert n (set ps) \<and> (\<forall>e\<in>set att. fst e = n \<and> e \<in> set info) \<and>
   ((\<exists>a. (n, a) \<in> set info \<and> connect n a) \<longrightarrow> n \<in> set ps')"
proof (induction connect n info ps arbitrary: att ps' rule: reconnect_entries.induct)
  case (2 connect n k a info ps)
  then show ?case by (fastforce split: if_splits prod.splits)
qed auto

text \<open>
  C30. One pass of the reconnection task attempts only addresses of channel peers that were not
  connected, keeps every connection, and, unless the node is stopping, leaves every channel peer
  connected that has an address which accepts.
\<close>

theorem reconnect_pass_connects:
  assumes "reconnect_pass connect info stops chans ps = (attempts, ps', stopped)"
  shows "set ps \<subseteq> set ps' \<and> list_all (\<lambda>e. fst e \<in> set chans - set ps \<and> e \<in> set info) attempts \<and>
    (if stopped then True \<in> set stops
     else list_all (\<lambda>k. k \<in> set ps' \<or> \<not> list_ex (\<lambda>e. fst e = k \<and> connect k (snd e)) info) chans)"
  using assms
proof (induction connect info stops chans ps arbitrary: attempts ps' stopped rule: reconnect_pass.induct)
  case (2 connect info stops n chans ps)
  show ?case
  proof (cases "n \<in> set ps")
    case True
    with 2(1) [OF True] 2(3) show ?thesis by (auto simp: list_all_iff)
  next
    case False
    show ?thesis
    proof (cases "stops \<noteq> [] \<and> hd stops")
      case True
      with False 2(3) show ?thesis by (cases stops) auto
    next
      case go: False
      obtain a1 ps1 where e: "reconnect_entries connect n info ps = (a1, ps1)" by fastforce
      obtain a2 where p: "reconnect_pass connect info (tl stops) chans ps1 = (a2, ps', stopped)" and a: "attempts = a1 @ a2"
        using 2(3) False go e by (auto split: prod.splits)
      note E = reconnect_entries_spec [OF e] and P = 2(2) [OF False go e [symmetric] p]
      have "True \<in> set (tl stops) \<Longrightarrow> True \<in> set stops" by (cases stops) auto
      moreover have "k \<in> set ps' \<or> \<not> list_ex (\<lambda>e. fst e = k \<and> connect k (snd e)) info"
        if "k \<in> set (n # chans)" "\<not> stopped" for k
        using that E P by (auto simp: list_all_iff list_ex_iff)
      ultimately show ?thesis using E P False a by (auto simp: list_all_iff)
    qed
  qed
qed simp

theorem reconnect_pass_connects_witness:
  "reconnect_pass (\<lambda>k a. a = ''b:2'') [([1], ''a:1''), ([2], ''b:2''), ([3], ''c:3'')] [] [[2], [3], [2], [1]] [[1]] =
     ([([2], ''b:2''), ([3], ''c:3'')], [[2], [1]], False) \<and>
   list_all (\<lambda>k. k \<in> set [[2], [1]] \<or> \<not> list_ex (\<lambda>e. fst e = k \<and> snd e = ''b:2'')
     [([1], ''a:1''), ([2 :: u8], ''b:2''), ([3], ''c:3'')]) [[2], [3], [2], [1]]"
proof
  show r: "reconnect_pass (\<lambda>k a. a = ''b:2'') [([1], ''a:1''), ([2], ''b:2''), ([3], ''c:3'')] [] [[2], [3], [2], [1]] [[1]] =
      ([([2], ''b:2''), ([3], ''c:3'')], [[2], [1]], False)" by simp
  show "list_all (\<lambda>k. k \<in> set [[2], [1]] \<or> \<not> list_ex (\<lambda>e. fst e = k \<and> snd e = ''b:2'')
      [([1], ''a:1''), ([2 :: u8], ''b:2''), ([3], ''c:3'')]) [[2], [3], [2], [1]]"
    using reconnect_pass_connects [OF r] by simp
qed

end
