(* ===== verification/Cli_Display.thy ===== *)
theory Cli_Display imports Peers begin

text \<open>
  The commands of \<open>src/src/cli.rs\<close> that only print: \<open>help\<close>,
  \<open>nodeinfo\<close>, \<open>listpeers\<close> and \<open>listchannels\<close>. What the library
  reports is in records; the sums of \<open>nodeinfo\<close> are 64-bit sums, which panic on overflow
  when the build checks for it and wrap around otherwise.
\<close>

section \<open>What the library reports\<close>

datatype balance =
    ClaimableOnChannelClose u64
  | MaybeTimeoutClaimableHTLC u64 bool
  | OtherBalance

record chan_info =
  chan_id :: bytes
  funding_txid :: "string option"
  counterparty :: bytes
  short_channel_id :: "u64 option"
  is_channel_ready :: bool
  channel_value_satoshis :: u64
  outbound_capacity_msat :: u64
  inbound_capacity_msat :: u64
  is_usable :: bool
  is_announced :: bool

text \<open>Each balance comes with its \<open>claimable_amount_satoshis()\<close>.\<close>

record node_report =
  our_node_id :: bytes
  list_chans :: "chan_info list"
  balances :: "(balance \<times> u64) list"
  alias_of :: "bytes \<Rightarrow> string option"
  graph_nodes :: nat
  graph_channels :: nat

section \<open>Printing\<close>

fun show_bool :: "bool \<Rightarrow> string" where
  "show_bool True = ''true''"
| "show_bool False = ''false''"

fun say_lines :: "string list \<Rightarrow> unit cli" where
  "say_lines [] = return_st ()"
| "say_lines (l # ls) = bind_st (sayln l) (\<lambda>_. say_lines ls)"

definition help_cmd :: "unit cli" where
  "help_cmd = say_lines
    [newline # ''VERSION:'',
     ''  node-workshop v0.1.0'',
     newline # ''USAGE:'',
     ''  Command [arguments]'',
     newline # ''COMMANDS:'',
     ''  help'' @ [tab] @ ''Shows a list of commands.'',
     ''  quit'' @ [tab] @ ''Close the application.'',
     newline # ''  Channels:'',
     ''      openchannel pubkey@host:port <amt_satoshis> [--public] [--with-anchors]'',
     ''      closechannel <channel_id> <peer_pubkey>'',
     ''      forceclosechannel <channel_id> <peer_pubkey>'',
     ''      listchannels'',
     newline # ''  Peers:'',
     ''      connectpeer pubkey@host:port'',
     ''      disconnectpeer <peer_pubkey>'',
     ''      listpeers'',
     newline # ''  Payments:'',
     ''      sendpayment <invoice|offer> [<amount_msat>]'',
     ''      keysend <dest_pubkey> <amt_msats>'',
     ''      listpayments'',
     newline # ''  Invoices:'',
     ''      getinvoice <amt_msats> <expiry_secs>'',
     ''      getoffer [<amt_msats>]'',
     newline # ''  On Chain:'',
     ''      getaddress'',
     ''      getbalance'',
     newline # ''  Other:'',
     ''      signmessage <message>'',
     ''      nodeinfo'']"

text \<open>\<open>Iterator::sum::<u64>\<close>.\<close>

fun sum_u64 :: "bool \<Rightarrow> u64 \<Rightarrow> u64 list \<Rightarrow> (unit, u64) outcome" where
  "sum_u64 overflow_checks acc [] = Ok acc"
| "sum_u64 overflow_checks acc (x # xs) =
     (if overflow_checks \<and> unat acc + unat x \<ge> 2 ^ 64 then Panic ''attempt to add with overflow''
      else sum_u64 overflow_checks (acc + x) xs)"

fun close_fees_map :: "balance \<Rightarrow> u64" where
  "close_fees_map (ClaimableOnChannelClose transaction_fee_satoshis) = transaction_fee_satoshis"
| "close_fees_map _ = 0"

fun pending_payments_map :: "balance \<Rightarrow> u64" where
  "pending_payments_map (MaybeTimeoutClaimableHTLC amount_satoshis outbound_payment) =
     (if outbound_payment then amount_satoshis else 0)"
| "pending_payments_map _ = 0"

definition node_info :: "bool \<Rightarrow> node_report \<Rightarrow> unit cli" where
  "node_info overflow_checks r s =
     bind_st (say_lines
       [tab # ''{'',
        [tab, tab] @ '' node_pubkey: '' @ hex_str (our_node_id r),
        [tab, tab] @ '' num_channels: '' @ show_nat (length (list_chans r)),
        [tab, tab] @ '' num_usable_channels: '' @ show_nat (length (filter is_usable (list_chans r)))]) (\<lambda>_.
     bind_st (lift_st (sum_u64 overflow_checks 0 (map snd (balances r)))) (\<lambda>local_balance_sat.
     bind_st (sayln ([tab, tab] @ '' local_balance_sats: '' @ show_u64 local_balance_sat)) (\<lambda>_.
     bind_st (lift_st (sum_u64 overflow_checks 0 (map (close_fees_map \<circ> fst) (balances r)))) (\<lambda>close_fees_sats.
     bind_st (sayln ([tab, tab] @ '' eventual_close_fees_sats: '' @ show_u64 close_fees_sats)) (\<lambda>_.
     bind_st (lift_st (sum_u64 overflow_checks 0 (map (pending_payments_map \<circ> fst) (balances r)))) (\<lambda>pending_payments.
     say_lines
       [[tab, tab] @ '' pending_outbound_payments_sats: '' @ show_u64 pending_payments,
        [tab, tab] @ '' num_peers: '' @ show_nat (length (peers s)),
        [tab, tab] @ '' network_nodes: '' @ show_nat (graph_nodes r),
        [tab, tab] @ '' network_channels: '' @ show_nat (graph_channels r),
        tab # ''},'']))))))  s"

definition list_peers :: "unit cli" where
  "list_peers s =
     bind_st (sayln (tab # ''{'')) (\<lambda>_.
     bind_st (say_lines (map (\<lambda>k. [tab, tab] @ '' pubkey: '' @ hex_str k) (peers s))) (\<lambda>_.
     sayln (tab # ''},''))) s"

definition channel_entry :: "node_report \<Rightarrow> chan_info \<Rightarrow> string list" where
  "channel_entry r c =
     [[], tab # ''{'', [tab, tab] @ ''channel_id: '' @ hex_str (chan_id c) @ '',''] @
     (case funding_txid c of Some txid \<Rightarrow> [[tab, tab] @ ''funding_txid: '' @ txid @ '',''] | None \<Rightarrow> []) @
     [[tab, tab] @ ''peer_pubkey: '' @ hex_str (counterparty c) @ '',''] @
     (case alias_of r (counterparty c) of Some a \<Rightarrow> [[tab, tab] @ ''peer_alias: '' @ a] | None \<Rightarrow> []) @
     (case short_channel_id c of Some i \<Rightarrow> [[tab, tab] @ ''short_channel_id: '' @ show_u64 i @ '',''] | None \<Rightarrow> []) @
     [[tab, tab] @ ''is_channel_ready: '' @ show_bool (is_channel_ready c) @ '','',
      [tab, tab] @ ''channel_value_satoshis: '' @ show_u64 (channel_value_satoshis c) @ '','',
      [tab, tab] @ ''outbound_capacity_msat: '' @ show_u64 (outbound_capacity_msat c) @ '',''] @
     (if is_usable c
      then [[tab, tab] @ ''available_balance_for_send_msat: '' @ show_u64 (outbound_capacity_msat c) @ '','',
            [tab, tab] @ ''available_balance_for_recv_msat: '' @ show_u64 (inbound_capacity_msat c) @ '','']
      else []) @
     [[tab, tab] @ ''channel_can_send_payments: '' @ show_bool (is_usable c) @ '','',
      [tab, tab] @ ''public: '' @ show_bool (is_announced c) @ '','',
      tab # ''},'']"

definition list_channels :: "node_report \<Rightarrow> unit cli" where
  "list_channels r =
     bind_st (say ''['') (\<lambda>_. say_lines (concat (map (channel_entry r) (list_chans r)) @ ['']'']))"

section \<open>Facts\<close>

lemma say_lines_value:
  "say_lines ls s = (Ok (), s\<lparr>screen := screen s @ concat (map (\<lambda>l. l @ [newline]) ls)\<rparr>)"
  by (induction ls arbitrary: s) (simp_all add: return_st_def cli_defs)

lemma say_lines_append: "bind_st (say_lines a) (\<lambda>_. say_lines b) = say_lines (a @ b)"
  by (rule ext) (simp add: bind_st_def say_lines_value)

lemma sayln_then_lines: "bind_st (sayln l) (\<lambda>_. say_lines b) = say_lines (l # b)"
  by simp

lemma bind_lift_value: "bind_st (lift_st (Ok a)) f = f a" "bind_st (lift_st (Panic m)) f s = (Panic m, s)"
  by (auto simp: bind_st_def lift_st_def)

definition total :: "u64 list \<Rightarrow> nat" where
  "total xs = sum_list (map unat xs)"

lemma sum_u64_checked:
  "sum_u64 True acc xs =
     (if unat acc + total xs < 2 ^ 64 then Ok (of_nat (unat acc + total xs))
      else Panic ''attempt to add with overflow'')"
proof (induction xs arbitrary: acc)
  case Nil
  show ?case using unsigned_less [of acc, where 'a = nat] by (simp add: total_def)
next
  case (Cons x xs)
  show ?case
  proof (cases "unat acc + unat x < 2 ^ 64")
    case True
    then have "unat (acc + x) = unat acc + unat x" by (simp add: unat_add_lem [symmetric])
    with True Cons.IH [of "acc + x"] show ?thesis by (simp add: total_def ac_simps)
  qed (simp add: total_def)
qed

corollary sum_u64_total:
  "sum_u64 True 0 xs = (if total xs < 2 ^ 64 then Ok (of_nat (total xs)) else Panic ''attempt to add with overflow'')"
  by (simp add: sum_u64_checked)

lemma show_u64_of_nat: "n < 2 ^ 64 \<Longrightarrow> show_u64 (of_nat n) = show_nat n"
  by (simp add: show_u64_def unat_of_nat take_bit_nat_eq_self)

text \<open>The lines of \<open>nodeinfo\<close>, given what it prints for the three sums.\<close>

definition report_lines :: "node_report \<Rightarrow> bytes list \<Rightarrow> string \<Rightarrow> string \<Rightarrow> string \<Rightarrow> string list" where
  "report_lines r ps local fees owed =
     [tab # ''{'',
      [tab, tab] @ '' node_pubkey: '' @ hex_str (our_node_id r),
      [tab, tab] @ '' num_channels: '' @ show_nat (length (list_chans r)),
      [tab, tab] @ '' num_usable_channels: '' @ show_nat (length (filter is_usable (list_chans r))),
      [tab, tab] @ '' local_balance_sats: '' @ local,
      [tab, tab] @ '' eventual_close_fees_sats: '' @ fees,
      [tab, tab] @ '' pending_outbound_payments_sats: '' @ owed,
      [tab, tab] @ '' num_peers: '' @ show_nat (length ps),
      [tab, tab] @ '' network_nodes: '' @ show_nat (graph_nodes r),
      [tab, tab] @ '' network_channels: '' @ show_nat (graph_channels r),
      tab # ''},'']"

lemma node_info_value:
  assumes "sum_u64 b 0 (map snd (balances r)) = Ok x"
    "sum_u64 b 0 (map (close_fees_map \<circ> fst) (balances r)) = Ok y"
    "sum_u64 b 0 (map (pending_payments_map \<circ> fst) (balances r)) = Ok z"
  shows "node_info b r s = say_lines (report_lines r (peers s) (show_u64 x) (show_u64 y) (show_u64 z)) s"
  unfolding node_info_def assms bind_lift_value sayln_then_lines say_lines_append report_lines_def append_Cons append_Nil ..

lemma node_info_panics:
  assumes "is_panic (sum_u64 b 0 (map snd (balances r))) \<or>
    is_panic (sum_u64 b 0 (map (close_fees_map \<circ> fst) (balances r))) \<or>
    is_panic (sum_u64 b 0 (map (pending_payments_map \<circ> fst) (balances r)))"
    "\<And>xs e. sum_u64 b 0 xs \<noteq> Err e"
  shows "is_panic (fst (node_info b r s))"
  using assms
  by (auto simp: node_info_def bind_st_def lift_st_def say_lines_value sayln_def say_def
      simp del: say_lines.simps split: outcome.splits)

lemma sum_u64_no_error: "sum_u64 b acc xs \<noteq> Err e"
  by (induction b acc xs rule: sum_u64.induct) auto

section \<open>Property\<close>

text \<open>
  \<open>nodeinfo\<close> in a build with overflow checks: when each of its three sums fits in 64 bits
  it prints the exact sums and changes nothing but the screen; otherwise it panics, which ends the node.
\<close>

theorem node_info_sums_exact:
  "let local = total (map snd (balances r));
       fees = total (map (close_fees_map \<circ> fst) (balances r));
       owed = total (map (pending_payments_map \<circ> fst) (balances r))
   in if local < 2 ^ 64 \<and> fees < 2 ^ 64 \<and> owed < 2 ^ 64
      then node_info True r s =
        (Ok (), s\<lparr>screen := screen s @ concat (map (\<lambda>l. l @ [newline])
           (report_lines r (peers s) (show_nat local) (show_nat fees) (show_nat owed)))\<rparr>)
      else is_panic (fst (node_info True r s))"
proof -
  let ?l = "map snd (balances r)" and ?f = "map (close_fees_map \<circ> fst) (balances r)"
    and ?p = "map (pending_payments_map \<circ> fst) (balances r)"
  show ?thesis
  proof (cases "total ?l < 2 ^ 64 \<and> total ?f < 2 ^ 64 \<and> total ?p < 2 ^ 64")
    case True
    then have "sum_u64 True 0 ?l = Ok (of_nat (total ?l))" "sum_u64 True 0 ?f = Ok (of_nat (total ?f))"
      "sum_u64 True 0 ?p = Ok (of_nat (total ?p))" by (simp_all add: sum_u64_total)
    from node_info_value [OF this, of s] True show ?thesis by (simp add: show_u64_of_nat say_lines_value Let_def)
  next
    case False
    then have "is_panic (fst (node_info True r s))"
      by (intro node_info_panics sum_u64_no_error) (auto simp: sum_u64_total)
    with False show ?thesis by (simp only: Let_def if_False)
  qed
qed

end
