(* ===== verification/Cli.thy ===== *)
theory Cli imports Cli_Display begin

text \<open>
  \<open>poll_for_user_input\<close> of \<open>src/src/cli.rs\<close>: the loop that reads commands from standard
  input, and every command with its guards. Standard input is the list of results of
  \<open>read_line\<close>; past its end every read finds the end of the input. The loop and the
  confirmation loop of an offer take fuel, one unit for each line they read.
\<close>

section \<open>Input, environment, control flow\<close>

datatype stdin_line = Line string | ReadError string

datatype flow = Continue_loop | Break_loop

record shell_env =
  base :: cli_env
  key_of_slice :: "bytes \<Rightarrow> bytes option"
  key_of_str :: "string \<Rightarrow> (string, bytes) outcome"
  resolve :: "string \<Rightarrow> string list option"
  looks :: "bytes \<Rightarrow> string \<Rightarrow> bool list option"
  overflow_checks :: bool
  report :: node_report
  network_name :: string
  peer_file :: path
  wallet_address :: string
  wallet_total :: string
  build_offer :: "u64 option \<Rightarrow> (string, string) outcome"
  offer_builder_error :: "string option"
  sign_message :: "bytes \<Rightarrow> string"

text \<open>
  A connection attempt, when one is opened: what \<open>do_connect_peer\<close> sees on its looks at the peer
  until the connection closes.
\<close>

definition connects :: "shell_env \<Rightarrow> bytes \<Rightarrow> string \<Rightarrow> bool" where
  "connects env pubkey peer_addr =
     (do_connect_peer (map_option (\<lambda>seen. map Looked seen @ [Closed]) (looks env pubkey peer_addr)) = Some (Ok ()))"

text \<open>The channels as \<open>disconnectpeer\<close> looks at them: each with its counterparty.\<close>

definition chans :: "shell_env \<Rightarrow> (bytes \<times> bytes) list" where
  "chans env = map (\<lambda>c. (chan_id c, counterparty c)) (list_chans (report env))"

type_synonym step_result = "((unit, flow) outcome \<times> stdin_line list \<times> cli_state) option"

definition catch_st :: "'a cli \<Rightarrow> (bool \<Rightarrow> 'b cli) \<Rightarrow> 'b cli" where
  "catch_st m k s =
     (case m s of
        (Ok a, s') \<Rightarrow> k True s'
      | (Err e, s') \<Rightarrow> k False s'
      | (Panic p, s') \<Rightarrow> (Panic p, s'))"

definition done_st :: "unit cli" where
  "done_st = return_st ()"

definition with_disk :: "'a io \<Rightarrow> cli_state \<Rightarrow> (io_error, 'a) outcome \<times> cli_state" where
  "with_disk m s =
     (let d = pay_db s; kv = fs_store d in
      case m (dsk kv) of
        (r, dk) \<Rightarrow> (r, s\<lparr>pay_db := d\<lparr>fs_store := kv\<lparr>dsk := dk\<rparr>\<rparr>\<rparr>))"

text \<open>The text of \<open>ParseIntError\<close> for a word that is no \<open>u64\<close>.\<close>

fun digits_error :: "nat \<Rightarrow> string \<Rightarrow> string" where
  "digits_error acc [] = ''invalid digit found in string''"
| "digits_error acc (c # cs) =
     (case digit_val c of
        None \<Rightarrow> ''invalid digit found in string''
      | Some d \<Rightarrow> if 10 * acc + d \<ge> 2 ^ 64 then ''number too large to fit in target type''
                 else digits_error (10 * acc + d) cs)"

fun int_error :: "string \<Rightarrow> string" where
  "int_error [] = ''cannot parse integer from empty string''"
| "int_error (c # cs) = (if c = CHR ''+'' then digits_error 0 cs else digits_error 0 (c # cs))"

section \<open>Commands on peers and channels\<close>

definition say_peer_error :: "peer_error \<Rightarrow> unit cli" where
  "say_peer_error e =
     (case e of
        Custom m \<Rightarrow> sayln (CHR 0x22 # m @ [CHR 0x22])
      | Io x \<Rightarrow> lift_st (Panic ''called `Option::unwrap()` on a `None` value''))"

text \<open>The optional flags of \<open>openchannel\<close>: an unknown one is reported and skipped.\<close>

fun parse_flags :: "bool \<Rightarrow> bool \<Rightarrow> string list \<Rightarrow> (bool \<times> bool) cli" where
  "parse_flags announce_channel with_anchors [] = return_st (announce_channel, with_anchors)"
| "parse_flags announce_channel with_anchors (word # ws) =
     (if word = ''--public'' \<or> word = ''--public=true'' then parse_flags True with_anchors ws
      else if word = ''--public=false'' then parse_flags False with_anchors ws
      else if word = ''--with-anchors'' \<or> word = ''--with-anchors=true'' then parse_flags announce_channel True ws
      else if word = ''--with-anchors=false'' then parse_flags announce_channel False ws
      else bind_st (sayln ''ERROR: invalid boolean flag format. Valid formats: `--option`, `--option=true` `--option=false`'') (\<lambda>_.
        parse_flags announce_channel with_anchors ws))"

text \<open>\<open>let _ = disk::persist_channel_peer(..)\<close>: its error is dropped.\<close>

definition remember_peer :: "shell_env \<Rightarrow> string \<Rightarrow> unit cli" where
  "remember_peer env peer_info s =
     (case with_disk (persist_channel_peer (peer_file env) peer_info) s of
        (Panic m, s') \<Rightarrow> (Panic m, s')
      | (_, s') \<Rightarrow> (Ok (), s'))"

definition openchannel_command :: "shell_env \<Rightarrow> string list \<Rightarrow> unit cli" where
  "openchannel_command env args =
     (case args of
        peer_info # channel_value_sat # flags \<Rightarrow>
          (case parse_peer_info (key_of_slice env) (resolve env) peer_info of
             Ok (pubkey, peer_addr) \<Rightarrow>
               (case parse_u64 channel_value_sat of
                  None \<Rightarrow> sayln ''ERROR: channel amount must be a number''
                | Some chan_amt_sat \<Rightarrow>
                    catch_st (connect_peer_if_necessary (connects env) pubkey peer_addr) (\<lambda>connected.
                    if \<not> connected then done_st
                    else bind_st (parse_flags False False flags) (\<lambda>(announce_channel, with_anchors).
                      catch_st (open_channel (base env) pubkey chan_amt_sat announce_channel with_anchors) (\<lambda>opened.
                      if opened then remember_peer env peer_info else done_st))))
           | Err e \<Rightarrow> say_peer_error e
           | Panic m \<Rightarrow> lift_st (Panic m))
      | _ \<Rightarrow> sayln ''ERROR: openchannel has 2 required arguments: `openchannel pubkey@host:port channel_amt_satoshis` [--public] [--with-anchors]'')"

definition connectpeer_command :: "shell_env \<Rightarrow> string list \<Rightarrow> unit cli" where
  "connectpeer_command env args =
     (case args of
        [] \<Rightarrow> sayln ''ERROR: connectpeer requires peer connection info: `connectpeer pubkey@host:port`''
      | peer_info # _ \<Rightarrow>
          (case parse_peer_info (key_of_slice env) (resolve env) peer_info of
             Ok (pubkey, peer_addr) \<Rightarrow>
               catch_st (connect_peer_if_necessary (connects env) pubkey peer_addr) (\<lambda>connected.
               if connected then sayln (''SUCCESS: connected to peer '' @ hex_str pubkey) else done_st)
           | Err e \<Rightarrow> say_peer_error e
           | Panic m \<Rightarrow> lift_st (Panic m)))"

definition disconnectpeer_command :: "shell_env \<Rightarrow> string list \<Rightarrow> unit cli" where
  "disconnectpeer_command env args =
     (case args of
        [] \<Rightarrow> sayln ''ERROR: disconnectpeer requires peer public key: `disconnectpeer <peer_pubkey>`''
      | peer_pubkey # _ \<Rightarrow>
          (case key_of_str env peer_pubkey of
             Ok pubkey \<Rightarrow>
               catch_st (do_disconnect_peer (chans env) pubkey) (\<lambda>disconnected.
               if disconnected then sayln (''SUCCESS: disconnected from peer '' @ hex_str pubkey) else done_st)
           | Err e \<Rightarrow> sayln (''ERROR: '' @ e)
           | Panic m \<Rightarrow> lift_st (Panic m)))"

definition close_channel :: "shell_env \<Rightarrow> bytes \<Rightarrow> bytes \<Rightarrow> unit cli" where
  "close_channel env channel_id counterparty_node_id =
     bind_st (request (CloseChannel channel_id counterparty_node_id)) (\<lambda>_.
     case send_answer (base env) (CloseChannel channel_id counterparty_node_id) of
       None \<Rightarrow> sayln ''EVENT: initiating channel close''
     | Some e \<Rightarrow> sayln (''ERROR: failed to close channel: '' @ e))"

definition force_close_channel :: "shell_env \<Rightarrow> bytes \<Rightarrow> bytes \<Rightarrow> unit cli" where
  "force_close_channel env channel_id counterparty_node_id =
     bind_st (request (ForceCloseChannel channel_id counterparty_node_id)) (\<lambda>_.
     case send_answer (base env) (ForceCloseChannel channel_id counterparty_node_id) of
       None \<Rightarrow> sayln ''EVENT: initiating channel force-close''
     | Some e \<Rightarrow> sayln (''ERROR: failed to force-close channel: '' @ e))"

text \<open>\<open>closechannel\<close> and \<open>forceclosechannel\<close> differ in their name and in what they call.\<close>

definition close_command ::
  "string \<Rightarrow> (shell_env \<Rightarrow> bytes \<Rightarrow> bytes \<Rightarrow> unit cli) \<Rightarrow> shell_env \<Rightarrow> string list \<Rightarrow> unit cli" where
  "close_command name close env args =
     (case args of
        [] \<Rightarrow> sayln (''ERROR: '' @ name @ '' requires a channel ID: `'' @ name @ '' <channel_id> <peer_pubkey>`'')
      | channel_id_str # rest \<Rightarrow>
          (case to_vec channel_id_str of
             None \<Rightarrow> sayln ''ERROR: couldn't parse channel_id''
           | Some channel_id \<Rightarrow>
               if length channel_id \<noteq> 32 then sayln ''ERROR: couldn't parse channel_id''
               else (case rest of
                  [] \<Rightarrow> sayln (''ERROR: '' @ name @ '' requires a peer pubkey: `'' @ name @ '' <channel_id> <peer_pubkey>`'')
                | peer_pubkey_str # _ \<Rightarrow>
                    (case to_vec peer_pubkey_str of
                       None \<Rightarrow> sayln ''ERROR: couldn't parse peer_pubkey''
                     | Some peer_pubkey_vec \<Rightarrow>
                         (case key_of_slice env peer_pubkey_vec of
                            None \<Rightarrow> sayln ''ERROR: couldn't parse peer_pubkey''
                          | Some peer_pubkey \<Rightarrow> close env channel_id peer_pubkey)))))"

section \<open>Commands on payments\<close>

definition keysend_command :: "shell_env \<Rightarrow> string list \<Rightarrow> unit cli" where
  "keysend_command env args =
     (case args of
        [] \<Rightarrow> sayln ''ERROR: keysend requires a destination pubkey: `keysend <dest_pubkey> <amt_msat>`''
      | dest # rest \<Rightarrow>
          (case to_compressed_pubkey (key_of_slice env) dest of
             None \<Rightarrow> sayln ''ERROR: couldn't parse destination pubkey''
           | Some dest_pubkey \<Rightarrow>
               (case rest of
                  [] \<Rightarrow> sayln ''ERROR: keysend requires an amount in millisatoshis: `keysend <dest_pubkey> <amt_msat>`''
                | amt_msat_str # _ \<Rightarrow>
                    (case parse_u64 amt_msat_str of
                       None \<Rightarrow> sayln (''ERROR: couldn't parse amount_msat: '' @ int_error amt_msat_str)
                     | Some amt \<Rightarrow> keysend (base env) dest_pubkey amt))))"

definition getoffer_command :: "shell_env \<Rightarrow> string list \<Rightarrow> unit cli" where
  "getoffer_command env args =
     (case offer_builder_error env of
        Some e \<Rightarrow> sayln (''ERROR: Failed to initiate offer building: '' @ e)
      | None \<Rightarrow>
          (let finish = (\<lambda>amount. case build_offer env amount of
               Ok offer \<Rightarrow> sayln offer
             | Err e \<Rightarrow> sayln (''ERROR: Failed to build offer: '' @ e)
             | Panic m \<Rightarrow> lift_st (Panic m))
           in case args of
                [] \<Rightarrow> finish None
              | amt_str # _ \<Rightarrow>
                  (case parse_u64 amt_str of
                     None \<Rightarrow> sayln ''ERROR: getoffer provided payment amount was not a number''
                   | Some amt \<Rightarrow> finish (Some amt))))"

definition getinvoice_command :: "shell_env \<Rightarrow> string list \<Rightarrow> unit cli" where
  "getinvoice_command env args =
     (case args of
        [] \<Rightarrow> sayln ''ERROR: getinvoice requires an amount in millisatoshis''
      | amt_str # rest \<Rightarrow>
          (case parse_u64 amt_str of
             None \<Rightarrow> sayln ''ERROR: getinvoice provided payment amount was not a number''
           | Some amt \<Rightarrow>
               (case rest of
                  [] \<Rightarrow> sayln ''ERROR: getinvoice requires an expiry in seconds''
                | expiry_secs_str # _ \<Rightarrow>
                    (case parse_u32 expiry_secs_str of
                       None \<Rightarrow> sayln ''ERROR: getinvoice provided expiry was not a number''
                     | Some expiry_secs \<Rightarrow>
                         bind_st (get_invoice (base env) amt (network_name env) expiry_secs) (\<lambda>_.
                         with_db (persist_inbound (cenc (base env))))))))"

text \<open>
  The confirmation of an offer: \<open>read_line\<close> appends to the buffer that still holds the
  command, and the answer is looked for at the start of the buffer.
\<close>

datatype confirmation = Proceed | Skip | Quit

fun starts_with :: "string \<Rightarrow> string \<Rightarrow> bool" where
  "starts_with s [] = True"
| "starts_with [] (p # ps) = False"
| "starts_with (c # cs) (p # ps) = (c = p \<and> starts_with cs ps)"

fun confirm_offer ::
  "nat \<Rightarrow> u64 \<Rightarrow> string \<Rightarrow> stdin_line list \<Rightarrow> string \<Rightarrow> (confirmation \<times> stdin_line list \<times> string) option" where
  "confirm_offer 0 amt line input out = None"
| "confirm_offer (Suc fuel) amt line input out =
     (let out = out @ ''Paying offer for '' @ show_u64 amt @ '' msat. Continue (Y/N)? >'';
          check = (\<lambda>line rest.
            if line = [] then Some (Quit, rest, out)
            else if starts_with line ''Y'' then Some (Proceed, rest, out)
            else if starts_with line ''N'' then Some (Skip, rest, out)
            else confirm_offer fuel amt line rest out)
      in case input of
           ReadError e # rest \<Rightarrow> Some (Quit, rest, out @ ''ERROR: '' @ e @ [CHR 0x0A])
         | Line l # rest \<Rightarrow> check (line @ l) rest
         | [] \<Rightarrow> check line [])"

definition pay_offer :: "cli_env \<Rightarrow> bytes \<Rightarrow> u64 \<Rightarrow> unit cli" where
  "pay_offer env offer amt =
     (let payment_id = random_bytes env; c = PayForOffer offer payment_id amt in
      bind_st (with_db (insert_outbound payment_id
        \<lparr>preimage = None, secret = None, status = Pending, amt_msat = Some amt\<rparr>)) (\<lambda>_.
      bind_st (with_db (persist_outbound (cenc env))) (\<lambda>_.
      bind_st (request c) (\<lambda>_.
      case send_answer env c of
        None \<Rightarrow> done_st
      | Some e \<Rightarrow> sayln (''ERROR: Failed to pay: Err('' @ e @ '')'')))))"

definition finish_step :: "flow \<Rightarrow> stdin_line list \<Rightarrow> unit cli \<Rightarrow> cli_state \<Rightarrow> step_result" where
  "finish_step fl rest m s = (case bind_st m (\<lambda>_. return_st fl) s of (r, s') \<Rightarrow> Some (r, rest, s'))"

definition offer_command ::
  "nat \<Rightarrow> cli_env \<Rightarrow> bytes \<Rightarrow> offer_amount option \<Rightarrow> u64 option \<Rightarrow> string \<Rightarrow> stdin_line list \<Rightarrow> cli_state \<Rightarrow> step_result" where
  "offer_command fuel env offer amount user_provided_amt line rest s =
     (let amt_msat_opt = (case (amount, user_provided_amt) of
            (Some (BitcoinAmount amount_msats), _) \<Rightarrow> Some amount_msats
          | (_, Some amt) \<Rightarrow> Some amt
          | (_, _) \<Rightarrow> None)
      in case amt_msat_opt of
           None \<Rightarrow>
             finish_step Continue_loop rest
               (sayln (''ERROR: Cannot process non-Bitcoin-denominated offer value '' @
                 (case amount of Some (CurrencyAmount c) \<Rightarrow> ''Some('' @ c @ '')'' | _ \<Rightarrow> ''None''))) s
         | Some amt \<Rightarrow>
             if user_provided_amt \<noteq> None \<and> user_provided_amt \<noteq> Some amt
             then finish_step Continue_loop rest
                    (sayln (''Amount didn't match offer of '' @ show_u64 amt @ ''msat'')) s
             else if user_provided_amt \<noteq> None
             then finish_step Continue_loop rest (pay_offer env offer amt) s
             else (case confirm_offer fuel amt line rest [] of
                     None \<Rightarrow> None
                   | Some (Proceed, rest', out) \<Rightarrow>
                       finish_step Continue_loop rest' (bind_st (say out) (\<lambda>_. pay_offer env offer amt)) s
                   | Some (Skip, rest', out) \<Rightarrow> finish_step Continue_loop rest' (say out) s
                   | Some (Quit, rest', out) \<Rightarrow> finish_step Break_loop rest' (say out) s))"

definition sendpayment_command ::
  "nat \<Rightarrow> shell_env \<Rightarrow> string list \<Rightarrow> string \<Rightarrow> stdin_line list \<Rightarrow> cli_state \<Rightarrow> step_result" where
  "sendpayment_command fuel env args line rest s =
     (case args of
        [] \<Rightarrow> finish_step Continue_loop rest
                (sayln ''ERROR: sendpayment requires an invoice: `sendpayment <invoice>`'') s
      | invoice_str # ws \<Rightarrow>
          (let go = (\<lambda>user_provided_amt.
             case parse_offer (base env) invoice_str of
               Some (offer, amount) \<Rightarrow> offer_command fuel (base env) offer amount user_provided_amt line rest s
             | None \<Rightarrow>
                 (case parse_invoice (base env) invoice_str of
                    Ok invoice \<Rightarrow> finish_step Continue_loop rest (send_payment (base env) invoice user_provided_amt) s
                  | Err e \<Rightarrow> finish_step Continue_loop rest (sayln (''ERROR: invalid invoice: '' @ e)) s
                  | Panic m \<Rightarrow> finish_step Continue_loop rest (lift_st (Panic m)) s))
           in case ws of
                [] \<Rightarrow> go None
              | amt_msat_str # _ \<Rightarrow>
                  (case parse_u64 amt_msat_str of
                     Some amt \<Rightarrow> go (Some amt)
                   | None \<Rightarrow> finish_step Continue_loop rest
                       (sayln (''ERROR: couldn't parse amount_msat: '' @ int_error amt_msat_str)) s)))"

section \<open>The loop\<close>

definition MSG_STARTPOS :: nat where
  "MSG_STARTPOS = length ''signmessage'' + 1"

definition signmessage_command :: "shell_env \<Rightarrow> string \<Rightarrow> unit cli" where
  "signmessage_command env line =
     (if length (as_bytes (trim line)) \<le> MSG_STARTPOS then sayln ''ERROR: signmsg requires a message''
      else bind_st (request (SignMessage (drop MSG_STARTPOS (as_bytes (trim line))))) (\<lambda>_.
        sayln (CHR 0x22 # sign_message env (drop MSG_STARTPOS (as_bytes (trim line))) @ [CHR 0x22])))"

definition simple_command :: "shell_env \<Rightarrow> string \<Rightarrow> string list \<Rightarrow> string \<Rightarrow> unit cli" where
  "simple_command env word args line =
     (if word = ''help'' then help_cmd
      else if word = ''openchannel'' then openchannel_command env args
      else if word = ''getaddress'' then sayln (''On Chain Wallet Address: '' @ wallet_address env)
      else if word = ''getbalance'' then sayln (''Wallet balance before syncing: '' @ wallet_total env)
      else if word = ''keysend'' then keysend_command env args
      else if word = ''getoffer'' then getoffer_command env args
      else if word = ''getinvoice'' then getinvoice_command env args
      else if word = ''connectpeer'' then connectpeer_command env args
      else if word = ''disconnectpeer'' then disconnectpeer_command env args
      else if word = ''listchannels'' then list_channels (report env)
      else if word = ''listpayments'' then list_payments
      else if word = ''closechannel'' then close_command ''closechannel'' close_channel env args
      else if word = ''forceclosechannel'' then close_command ''forceclosechannel'' force_close_channel env args
      else if word = ''nodeinfo'' then node_info (overflow_checks env) (report env)
      else if word = ''listpeers'' then list_peers
      else if word = ''signmessage'' then signmessage_command env line
      else sayln (''Unknown command. See `'' @ [CHR 0x22] @ ''help'' @ [CHR 0x22] @ '' for available commands.''))"

definition run_command ::
  "nat \<Rightarrow> shell_env \<Rightarrow> string \<Rightarrow> stdin_line list \<Rightarrow> cli_state \<Rightarrow> step_result" where
  "run_command fuel env line rest s =
     (case split_whitespace line of
        [] \<Rightarrow> finish_step Continue_loop rest done_st s
      | word # args \<Rightarrow>
          if word = ''sendpayment'' then sendpayment_command fuel env args line rest s
          else if word = ''quit'' \<or> word = ''exit'' then finish_step Break_loop rest done_st s
          else finish_step Continue_loop rest (simple_command env word args line) s)"

fun poll_for_user_input :: "nat \<Rightarrow> shell_env \<Rightarrow> stdin_line list \<Rightarrow> cli_state \<Rightarrow> ((unit, unit) outcome \<times> cli_state) option" where
  "poll_for_user_input 0 env input s = None"
| "poll_for_user_input (Suc fuel) env input s =
     (case say ''> '' s of (_, s) \<Rightarrow>
      case input of
        [] \<Rightarrow> Some (Ok (), s)
      | ReadError e # rest \<Rightarrow> Some (sayln (''ERROR: '' @ e) s)
      | Line line # rest \<Rightarrow>
          if line = [] then Some (Ok (), s)
          else (case run_command fuel env line rest s of
                  None \<Rightarrow> None
                | Some (Ok Continue_loop, rest', s') \<Rightarrow> poll_for_user_input fuel env rest' s'
                | Some (Ok Break_loop, rest', s') \<Rightarrow> Some (Ok (), s')
                | Some (Err e, rest', s') \<Rightarrow> Some (Err e, s')
                | Some (Panic m, rest', s') \<Rightarrow> Some (Panic m, s')))"

text \<open>What is printed before the first prompt.\<close>

definition start_cli ::
  "nat \<Rightarrow> shell_env \<Rightarrow> stdin_line list \<Rightarrow> cli_state \<Rightarrow> ((unit, unit) outcome \<times> cli_state) option" where
  "start_cli fuel env input s =
     (case bind_st (sayln (''LDK startup successful. Enter '' @ [CHR 0x22] @ ''help'' @ [CHR 0x22] @
              '' to view available commands. Press Ctrl-D to quit.'')) (\<lambda>_.
            bind_st (sayln ''LDK logs are available at .ldk/logs'') (\<lambda>_.
            sayln (''Local Node ID is '' @ hex_str (our_node_id (report env)) @ ''.''))) s of
        (_, s') \<Rightarrow> poll_for_user_input fuel env input s')"

section \<open>Facts on the loop\<close>

lemma ws_loop_prefix: "acc \<noteq> [] \<Longrightarrow> \<exists>w ws. ws_loop acc s = (acc @ w) # ws"
proof (induction s arbitrary: acc)
  case (Cons c s)
  show ?case
  proof (cases "is_ws c")
    case False
    from Cons.IH [of "acc @ [c]"] False show ?thesis by auto
  qed (use Cons.prems in auto)
qed auto

lemma starts_with_first_word:
  assumes "split_whitespace line = w # ws" "\<not> is_ws c" "hd w \<noteq> c"
  shows "\<not> starts_with (line @ extra) [c]" "line \<noteq> []"
proof -
  show ne: "line \<noteq> []" using assms(1) by (auto simp: split_whitespace_def)
  then obtain x xs where x: "line = x # xs" by (cases line) auto
  have "x \<noteq> c"
  proof
    assume "x = c"
    then have "split_whitespace line = ws_loop [c] xs" using x assms(2) by (simp add: split_whitespace_def)
    with ws_loop_prefix [of "[c]" xs] assms(1,3) show False by auto
  qed
  then show "\<not> starts_with (line @ extra) [c]" using x by simp
qed

fun is_line :: "stdin_line \<Rightarrow> bool" where
  "is_line (Line l) = True"
| "is_line (ReadError e) = False"

lemma confirm_never_ends:
  assumes "split_whitespace line = ''sendpayment'' # ws" "list_all is_line input"
  shows "confirm_offer fuel amt (line @ extra) input out = None"
  using assms(2)
proof (induction fuel arbitrary: extra input out)
  case (Suc fuel)
  have y: "\<not> starts_with (line @ t) ''Y''" "\<not> starts_with (line @ t) ''N''" "line @ t \<noteq> []" for t
    using starts_with_first_word(1) [OF assms(1), of "CHR ''Y''" t]
      starts_with_first_word(1) [OF assms(1), of "CHR ''N''" t] starts_with_first_word(2) [OF assms(1), of "CHR ''Y''"]
    by (auto simp: is_ws_def)
  show ?case
  proof (cases input)
    case Nil
    then show ?thesis using Suc.IH [of "[]" extra] y [of extra] by (simp add: Let_def)
  next
    case (Cons i rest)
    then obtain l where "i = Line l" using Suc.prems by (cases i) auto
    then show ?thesis using Cons Suc.IH [of rest "extra @ l"] Suc.prems y [of "extra @ l"] by (simp add: Let_def)
  qed
qed simp

lemma finish_step_Some: "\<exists>r s'. finish_step fl rest m s = Some (r, rest, s')"
  by (auto simp: finish_step_def split: prod.splits)

text \<open>The lines at which the loop asks for a confirmation: an offer with its own amount, and no amount typed.\<close>

definition asks_confirmation :: "shell_env \<Rightarrow> string \<Rightarrow> bool" where
  "asks_confirmation env line \<longleftrightarrow>
     (case split_whitespace line of
        [word, offer_str] \<Rightarrow> word = ''sendpayment'' \<and>
          (case parse_offer (base env) offer_str of Some (offer, Some (BitcoinAmount amt)) \<Rightarrow> True | _ \<Rightarrow> False)
      | _ \<Rightarrow> False)"

lemma offer_command_typed_amount: "\<exists>r s'. offer_command fuel env offer amount (Some amt) line rest s = Some (r, rest, s')"
  using finish_step_Some [of Continue_loop rest]
  by (auto simp: offer_command_def Let_def split: option.splits offer_amount.splits)

lemma offer_command_no_amount:
  "\<not> (case amount of Some (BitcoinAmount a) \<Rightarrow> True | _ \<Rightarrow> False) \<Longrightarrow>
   \<exists>r s'. offer_command fuel env offer amount None line rest s = Some (r, rest, s')"
  using finish_step_Some [of Continue_loop rest]
  by (auto simp: offer_command_def Let_def split: option.splits offer_amount.splits)

lemma run_command_unasked:
  assumes "\<not> asks_confirmation env line"
  shows "\<exists>r s'. run_command fuel env line rest s = Some (r, rest, s')"
proof (cases "\<exists>args. split_whitespace line = ''sendpayment'' # args")
  case True
  then obtain args where l: "split_whitespace line = ''sendpayment'' # args" by blast
  note fin = finish_step_Some [of Continue_loop rest]
  have "\<exists>r s'. sendpayment_command fuel env args line rest s = Some (r, rest, s')"
  proof (cases args)
    case Nil
    then show ?thesis using fin by (simp add: sendpayment_command_def)
  next
    case (Cons w ws)
    show ?thesis
    proof (cases ws)
      case Nil
      have "\<exists>r s'. offer_command fuel (base env) offer amount None line rest s = Some (r, rest, s')"
        if "parse_offer (base env) w = Some (offer, amount)" for offer amount
        by (rule offer_command_no_amount)
          (use assms that Cons Nil l in \<open>auto simp: asks_confirmation_def split: option.splits offer_amount.splits\<close>)
      then show ?thesis using Cons Nil fin
        by (auto simp: sendpayment_command_def Let_def split: option.splits outcome.splits)
    qed (use Cons fin offer_command_typed_amount in
        \<open>auto simp: sendpayment_command_def Let_def split: option.splits outcome.splits\<close>)
  qed
  then show ?thesis by (simp add: run_command_def l)
next
  case False
  then show ?thesis using finish_step_Some [of Continue_loop rest] finish_step_Some [of Break_loop rest]
    by (auto simp: run_command_def split: list.splits)
qed

section \<open>Properties\<close>

definition sample_report :: node_report where
  "sample_report = \<lparr>our_node_id = [1], list_chans = [\<lparr>chan_id = [1], funding_txid = None, counterparty = [2],
     short_channel_id = None, is_channel_ready = True, channel_value_satoshis = 1, outbound_capacity_msat = 1,
     inbound_capacity_msat = 1, is_usable = True, is_announced = False\<rparr>], balances = [], alias_of = (\<lambda>k. None),
     graph_nodes = 0, graph_channels = 0\<rparr>"

definition sample_shell :: shell_env where
  "sample_shell = \<lparr>base = (sample_cli_env (\<lambda>c. None))\<lparr>parse_offer := (\<lambda>s. if s = ''lno1'' then Some ([7], Some (BitcoinAmount 5)) else None)\<rparr>,
     key_of_slice = Some, key_of_str = (\<lambda>s. case to_vec s of Some b \<Rightarrow> Ok b | None \<Rightarrow> Err ''malformed public key''),
     resolve = (\<lambda>s. Some [s]), looks = (\<lambda>k a. Some [False, True]), overflow_checks = True, report = sample_report, network_name = ''regtest'',
     peer_file = [''channel_peer_data''], wallet_address = [], wallet_total = [], build_offer = (\<lambda>a. Err []),
     offer_builder_error = None, sign_message = (\<lambda>m. [])\<rparr>"

text \<open>
  C34. Paying an offer without naming the amount hangs. The command asks for a confirmation, but looks
  for the answer at the start of a buffer that begins with the command itself: whatever lines the user
  types, for any fuel and at the end of the input too, the loop does not return, and the offer is never paid.
\<close>

theorem offer_confirmation_never_returns:
  assumes "split_whitespace line = [''sendpayment'', offer_str]"
    and "parse_offer (base env) offer_str = Some (offer, Some (BitcoinAmount amt))"
    and "list_all is_line input"
  shows "poll_for_user_input fuel env (Line line # input) s = None"
proof (cases fuel)
  case (Suc n)
  have "line \<noteq> []" using assms(1) by (auto simp: split_whitespace_def)
  moreover have "confirm_offer n amt line input [] = None"
    using confirm_never_ends [OF assms(1,3), of n amt "[]" "[]"] by simp
  ultimately show ?thesis
    using assms(1,2) Suc by (simp add: say_def run_command_def sendpayment_command_def Let_def offer_command_def)
qed simp

theorem offer_confirmation_never_returns_witness:
  "poll_for_user_input 100 sample_shell [Line ''sendpayment lno1'', Line ''Y'', Line ''N''] (sample_cli []) = None"
proof -
  have "split_whitespace ''sendpayment lno1'' = [''sendpayment'', ''lno1'']" by code_simp
  moreover have "parse_offer (base sample_shell) ''lno1'' = Some ([7], Some (BitcoinAmount 5))"
    by (simp add: sample_shell_def)
  ultimately show ?thesis by (rule offer_confirmation_never_returns) simp
qed

text \<open>
  C33. The command loop returns, with one unit of fuel for each line and one for the end of the input,
  unless a line asks for a confirmation: \<open>sendpayment\<close> with an offer that names its amount, and no
  amount typed. Invoices, offers paid with a typed amount, and every other command are within it;
  such a line does hang the loop (\<open>offer_confirmation_never_returns\<close>).
\<close>

theorem poll_terminates:
  assumes "list_all (\<lambda>i. case i of Line line \<Rightarrow> \<not> asks_confirmation env line | ReadError e \<Rightarrow> True) input"
    and "length input < fuel"
  shows "poll_for_user_input fuel env input s \<noteq> None"
  using assms
proof (induction fuel arbitrary: input s)
  case (Suc fuel)
  show ?case
  proof (cases input)
    case (Cons i rest)
    show ?thesis
    proof (cases i)
      case (Line line)
      let ?s = "s\<lparr>screen := screen s @ ''> ''\<rparr>"
      obtain r s' where r: "run_command fuel env line rest ?s = Some (r, rest, s')"
        using run_command_unasked [of env line] Suc.prems(1) Cons Line by fastforce
      have "poll_for_user_input fuel env rest s' \<noteq> None" by (rule Suc.IH) (use Suc.prems Cons in simp_all)
      then show ?thesis using Cons Line r by (cases r) (auto simp: say_def split: flow.splits)
    qed (simp add: Cons say_def)
  qed (simp add: say_def)
qed simp

text \<open>An offer paid with a typed amount, a word that is no command, and the end.\<close>

theorem poll_terminates_witness:
  "poll_for_user_input 4 sample_shell [Line ''sendpayment lno1 5'', Line ''nonsense'', Line ''quit''] (sample_cli []) \<noteq> None"
proof (rule poll_terminates)
  show "list_all (\<lambda>i. case i of Line line \<Rightarrow> \<not> asks_confirmation sample_shell line | ReadError e \<Rightarrow> True)
      [Line ''sendpayment lno1 5'', Line ''nonsense'', Line ''quit'']" by code_simp
qed simp

definition known_flag :: "string \<Rightarrow> bool" where
  "known_flag w \<longleftrightarrow>
     w \<in> set [''--public'', ''--public=true'', ''--public=false'', ''--with-anchors'', ''--with-anchors=true'', ''--with-anchors=false'']"

fun flags_of :: "bool \<Rightarrow> bool \<Rightarrow> string list \<Rightarrow> bool \<times> bool" where
  "flags_of a b [] = (a, b)"
| "flags_of a b (w # ws) =
     (if w = ''--public'' \<or> w = ''--public=true'' then flags_of True b ws
      else if w = ''--public=false'' then flags_of False b ws
      else if w = ''--with-anchors'' \<or> w = ''--with-anchors=true'' then flags_of a True ws
      else if w = ''--with-anchors=false'' then flags_of a False ws
      else flags_of a b ws)"

lemma parse_flags_value: "\<exists>out. parse_flags a b ws s = (Ok (flags_of a b ws), s\<lparr>screen := out\<rparr>)"
proof (induction ws arbitrary: a b s)
  case Nil
  show ?case by (auto simp: return_st_def intro: exI [of _ "screen s"])
next
  case (Cons w ws)
  have "\<exists>out. parse_flags a b ws (s\<lparr>screen := x\<rparr>) = (Ok (flags_of a b ws), s\<lparr>screen := out\<rparr>)" for a b x
    using Cons.IH [of a b "s\<lparr>screen := x\<rparr>"] by simp
  then show ?case using Cons.IH by (simp add: bind_st_def sayln_def say_def)
qed

lemma flags_of_filter: "flags_of a b (filter known_flag ws) = flags_of a b ws"
  by (induction ws arbitrary: a b) (simp_all add: known_flag_def)

text \<open>The call that \<open>openchannel\<close> makes, by its arguments and the state.\<close>

definition openchannel_requests :: "shell_env \<Rightarrow> string list \<Rightarrow> cli_state \<Rightarrow> cli_call list" where
  "openchannel_requests env args s =
     (case args of
        info # value # flags \<Rightarrow>
          (case (parse_peer_info (key_of_slice env) (resolve env) info, parse_u64 value) of
             (Ok (pubkey, addr), Some amt) \<Rightarrow>
               (let open = (case flags_of False False flags of (ann, anch) \<Rightarrow> [CreateChannel pubkey amt ann anch])
                in if pubkey \<in> set (peers s) then open
                   else ConnectOutbound pubkey addr # (if connects env pubkey addr then open else []))
           | _ \<Rightarrow> [])
      | _ \<Rightarrow> [])"

lemma remember_peer_requests: "requests (snd (remember_peer env info s)) = requests s"
  by (auto simp: remember_peer_def with_disk_def Let_def split: prod.splits outcome.splits)

lemma open_channel_requests:
  "requests (snd (catch_st (open_channel (base env) pubkey amt ann anch)
     (\<lambda>opened. if opened then remember_peer env info else done_st) s)) =
   requests s @ [CreateChannel pubkey amt ann anch]"
  by (simp add: catch_st_def open_channel_def Let_def cli_defs request_def remember_peer_requests done_st_def
      return_st_def split: option.splits)

lemma connect_then_requests:
  "requests (snd (catch_st (connect_peer_if_necessary c k a) (\<lambda>connected. if \<not> connected then done_st else m) s)) =
    (if k \<in> set (peers s) then requests (snd (m s))
     else if c k a then requests (snd (m (s\<lparr>requests := requests s @ [ConnectOutbound k a], peers := k # peers s\<rparr>)))
     else requests s @ [ConnectOutbound k a])"
  by (simp add: catch_st_def connect_peer_if_necessary_def cli_defs request_def done_st_def return_st_def)

lemma openchannel_command_requests:
  "requests (snd (openchannel_command env args s)) = requests s @ openchannel_requests env args s"
proof -
  have rest: "requests (snd (bind_st (parse_flags False False flags) (\<lambda>(ann, anch).
      catch_st (open_channel (base env) pubkey amt ann anch)
        (\<lambda>opened. if opened then remember_peer env info else done_st)) s)) =
     requests s @ (case flags_of False False flags of (ann, anch) \<Rightarrow> [CreateChannel pubkey amt ann anch])"
    for flags pubkey amt info s
  proof -
    obtain out where "parse_flags False False flags s = (Ok (flags_of False False flags), s\<lparr>screen := out\<rparr>)"
      using parse_flags_value by blast
    then show ?thesis by (simp add: bind_st_def open_channel_requests split: prod.splits)
  qed
  show ?thesis
  proof (cases "\<exists>info vl flags. args = info # vl # flags")
    case True
    then obtain info vl flags where a: "args = info # vl # flags" by blast
    show ?thesis
    proof (cases "parse_peer_info (key_of_slice env) (resolve env) info")
      case (Ok ka)
      obtain k ad where "ka = (k, ad)" by (cases ka)
      then show ?thesis using Ok a
        by (cases "parse_u64 vl")
          (simp_all add: openchannel_command_def openchannel_requests_def connect_then_requests rest sayln_def say_def Let_def)
    next
      case (Err e)
      then show ?thesis using a
        by (simp add: openchannel_command_def openchannel_requests_def say_peer_error_def cli_defs
            split: peer_error.splits)
    next
      case (Panic m)
      then show ?thesis using a
        by (simp add: openchannel_command_def openchannel_requests_def cli_defs)
    qed
  next
    case False
    then show ?thesis
      by (auto simp: openchannel_command_def openchannel_requests_def cli_defs split: list.splits)
  qed
qed

text \<open>
  An unknown flag of \<open>openchannel\<close> is reported as an error, but the channel is opened all
  the same: what the library is asked is what it would be without that flag.
\<close>

theorem openchannel_ignores_unknown_flags:
  "requests (snd (openchannel_command env (info # amt # flags) s)) =
   requests (snd (openchannel_command env (info # amt # filter known_flag flags) s))"
  unfolding openchannel_command_requests openchannel_requests_def list.case flags_of_filter ..

text \<open>
  \<open>disconnectpeer\<close> disconnects a peer exactly when it is connected and no channel is open
  with it; otherwise it asks the library for nothing and the peers stay as they are.
\<close>

theorem disconnectpeer_spares_channel_peers:
  assumes "key_of_str env word = Ok k" "disconnectpeer_command env (word # args) s = (r, s')"
  shows "if k \<in> set (peers s) \<and> \<not> list_ex (\<lambda>c. snd c = k) (chans env)
    then requests s' = requests s @ [DisconnectPeer k] \<and> k \<notin> set (peers s')
    else requests s' = requests s \<and> peers s' = peers s"
  using assms
  by (auto simp: disconnectpeer_command_def do_disconnect_peer_def catch_st_def cli_defs request_def done_st_def
      return_st_def split: if_splits)

theorem disconnectpeer_spares_channel_peers_witness:
  "requests (snd (disconnectpeer_command sample_shell [''02''] (sample_cli []\<lparr>peers := [[2], [3]]\<rparr>))) = [] \<and>
   requests (snd (disconnectpeer_command sample_shell [''03''] (sample_cli []\<lparr>peers := [[2], [3]]\<rparr>))) = [DisconnectPeer [3]]"
proof -
  have k: "key_of_str sample_shell ''02'' = Ok [2]" "key_of_str sample_shell ''03'' = Ok [3]" by code_simp+
  show ?thesis
    using disconnectpeer_spares_channel_peers [where args = "[]" and s = "sample_cli []\<lparr>peers := [[2], [3]]\<rparr>", OF k(1) surjective_pairing]
      disconnectpeer_spares_channel_peers [where args = "[]" and s = "sample_cli []\<lparr>peers := [[2], [3]]\<rparr>", OF k(2) surjective_pairing]
    by (simp add: sample_shell_def sample_cli_def chans_def sample_report_def)
qed

end
