(* ===== verification/Kept_Records.thy ===== *)
theory Kept_Records imports Cli begin

text \<open>
  What the event handler and every command keep of the payment records: the tables are maps, the
  file of a table holds it, and the payments that the library was asked to send are in the table
  and in its file. The assertions are triples for the commands of \<open>Cli\<close>, composed with the
  rules of \<open>Prelude\<close>; \<open>Runtime\<close> puts the tasks together.
\<close>

section \<open>Payments that were sent, and where they are recorded\<close>

fun paid_id :: "cli_call \<Rightarrow> bytes option" where
  "paid_id (SendPayment payment_hash payment_id) = Some payment_id"
| "paid_id (SendSpontaneous payment_preimage payment_id payee amt) = Some payment_id"
| "paid_id (PayForOffer offer payment_id amt) = Some payment_id"
| "paid_id _ = None"

definition paid_ids :: "cli_call list \<Rightarrow> bytes set" where
  "paid_ids cs = set (List.map_filter paid_id cs)"

lemma paid_ids_append [simp]:
  "paid_ids [] = {}" "paid_ids (cs @ [c]) = set_option (paid_id c) \<union> paid_ids cs"
  by (auto simp: paid_ids_def List.map_filter_def)

definition ids :: "payments \<Rightarrow> bytes set" where
  "ids t = fst ` set t"

lemma ids_iff: "i \<in> ids t \<longleftrightarrow> map_of t i \<noteq> None"
  by (auto simp: ids_def map_of_eq_None_iff)

lemma ids_update [simp]: "ids (AList.update i p t) = insert i (ids t)"
  by (auto simp: ids_iff alist_simps split: if_splits)

lemma ids_map_vals [simp]: "ids (map_vals f t) = ids t"
  by (auto simp: ids_iff alist_simps split: if_splits)

lemma ids_mark_failed [simp]: "ids (mark_failed i t) = ids t"
  by (auto simp: ids_iff alist_simps split: if_splits)

lemma ids_fail_forgotten [simp]: "ids (fail_forgotten recent t) = ids t"
  by (simp add: fail_forgotten_def)

lemma ids_next_outbound [simp]: "ids (next_outbound ev t) = ids t"
  by (cases "(ev, t)" rule: next_outbound.cases) simp_all

text \<open>A table is a map: no key twice.\<close>

definition is_map :: "payments \<Rightarrow> bool" where
  "is_map t \<longleftrightarrow> distinct (map fst t)"

lemma is_map_updates [simp]:
  "is_map t \<Longrightarrow> is_map (AList.update i p t)" "is_map (map_vals f t) = is_map t"
  by (simp_all add: is_map_def distinct_update)

lemma is_map_mark_failed [simp]: "is_map t \<Longrightarrow> is_map (mark_failed i t)"
  by (simp add: mark_failed_def split: option.splits)

lemma is_map_record_claimed [simp]: "is_map t \<Longrightarrow> is_map (record_claimed h purpose amt t)"
  by (auto simp: record_claimed_def split: option.splits prod.splits)

lemma is_map_next [simp]:
  "is_map t \<Longrightarrow> is_map (next_inbound ev t)" "is_map t \<Longrightarrow> is_map (next_outbound ev t)"
  by (cases ev; simp) (cases "(ev, t)" rule: next_outbound.cases; simp)

text \<open>The ids in the file of the outbound table.\<close>

definition stored_ids :: "(bytes \<Rightarrow> payments option) \<Rightarrow> payment_db \<Rightarrow> bytes set" where
  "stored_ids dec d =
     (case file_of d OUTBOUND_PAYMENTS_FNAME of
        None \<Rightarrow> {}
      | Some b \<Rightarrow> (case dec b of None \<Rightarrow> {} | Some t \<Rightarrow> ids t))"

section \<open>The assertions\<close>

text \<open>
  \<open>on_record\<close> holds at every moment, after a panic too: the ids \<open>Y\<close> are in the file.
  \<open>live\<close> holds while the node runs: the ids \<open>X\<close> are in memory, the tables are maps, and the
  file of the inbound table (when \<open>a\<close>) and of the outbound one (when \<open>b\<close>) holds the
  table.
\<close>

definition on_record :: "config \<Rightarrow> (bytes \<Rightarrow> payments option) \<Rightarrow> bytes set \<Rightarrow> payment_db \<Rightarrow> bool" where
  "on_record c dec Y d \<longleftrightarrow>
     db_inv d \<and> cfg (fs_store d) = c \<and> valid_key c (table_key INBOUND_PAYMENTS_FNAME) \<and>
     valid_key c (table_key OUTBOUND_PAYMENTS_FNAME) \<and> Y \<subseteq> stored_ids dec d"

definition live ::
  "config \<Rightarrow> (bytes \<Rightarrow> payments option) \<Rightarrow> bool \<Rightarrow> bool \<Rightarrow> bytes set \<Rightarrow> bytes set \<Rightarrow> payment_db \<Rightarrow> bool" where
  "live c dec a b X Y d \<longleftrightarrow>
     on_record c dec Y d \<and> Y \<subseteq> X \<and> X \<subseteq> ids (outbound_payments d) \<and>
     is_map (inbound_payments d) \<and> is_map (outbound_payments d) \<and>
     (a \<longrightarrow> on_file dec d INBOUND_PAYMENTS_FNAME (inbound_payments d)) \<and>
     (b \<longrightarrow> on_file dec d OUTBOUND_PAYMENTS_FNAME (outbound_payments d))"

lemma live_on_record: "live c dec a b X Y d \<Longrightarrow> on_record c dec Y d"
  by (simp add: live_def)

lemma live_weaken:
  "live c dec a b X Y d \<Longrightarrow> a' \<longrightarrow> a \<Longrightarrow> b' \<longrightarrow> b \<Longrightarrow> X' \<subseteq> X \<Longrightarrow> Y' \<subseteq> Y \<Longrightarrow> Y' \<subseteq> X' \<Longrightarrow>
   live c dec a' b' X' Y' d"
  by (auto simp: live_def on_record_def)

text \<open>Writing the two files.\<close>

lemma on_file_cong:
  "cfg (fs_store d') = cfg (fs_store d) \<Longrightarrow> file_of d' f = file_of d f \<Longrightarrow> on_file dec d' f t = on_file dec d f t"
  by (simp add: on_file_def)

lemma stored_ids_cong: "file_of d' OUTBOUND_PAYMENTS_FNAME = file_of d OUTBOUND_PAYMENTS_FNAME \<Longrightarrow>
    stored_ids dec d' = stored_ids dec d"
  by (simp add: stored_ids_def)

lemma persist_inbound_live:
  assumes dec: "\<And>t. dec (e t) = Some t" and L: "live c dec a b X Y d" and p: "persist_inbound e d = (r, d')"
  shows "on_record c dec Y d'" "r = Ok () \<Longrightarrow> live c dec True b X Y d'"
proof -
  have inv: "db_inv d" using L by (simp add: live_def on_record_def)
  note C = persist_payments_cases [OF inv p [unfolded persist_inbound_def]]
    persist_cfg [OF p [unfolded persist_inbound_def] inv]
  have o: "file_of d' OUTBOUND_PAYMENTS_FNAME = file_of d OUTBOUND_PAYMENTS_FNAME" using C(4) by auto
  show "on_record c dec Y d'"
    using L C(1,7) stored_ids_cong [OF o] by (simp add: live_def on_record_def)
  then show "live c dec True b X Y d'" if "r = Ok ()"
    using L C(2,3,7) C(5) [OF that] on_file_cong [OF C(7) o] dec
    by (simp add: live_def) (simp add: on_file_def on_record_def)
qed

lemma persist_outbound_live:
  assumes dec: "\<And>t. dec (e t) = Some t" and L: "live c dec a b X Y d" and p: "persist_outbound e d = (r, d')"
  shows "on_record c dec Y d'" "r = Ok () \<Longrightarrow> live c dec a True X X d'"
proof -
  have inv: "db_inv d" and Y: "Y \<subseteq> stored_ids dec d" "Y \<subseteq> ids (outbound_payments d)"
    using L by (auto simp: live_def on_record_def)
  note C = persist_payments_cases [OF inv p [unfolded persist_outbound_def]]
    persist_cfg [OF p [unfolded persist_outbound_def] inv]
  have i: "file_of d' INBOUND_PAYMENTS_FNAME = file_of d INBOUND_PAYMENTS_FNAME" using C(4) by auto
  have new: "stored_ids dec d' = ids (outbound_payments d)"
    if "file_of d' = (file_of d)(OUTBOUND_PAYMENTS_FNAME \<mapsto> e (outbound_payments d))"
    using that dec by (simp add: stored_ids_def)
  have "Y \<subseteq> stored_ids dec d'" using C(4) Y new by (auto simp: stored_ids_def)
  then show rec: "on_record c dec Y d'"
    using L C(1,7) by (simp add: live_def on_record_def)
  show "live c dec a True X X d'" if "r = Ok ()"
    using L C(2,3,7) C(5) [OF that] new [OF C(5) [OF that]] on_file_cong [OF C(7) i] dec rec
    by (auto simp: live_def on_record_def) (simp_all add: on_file_def)
qed

section \<open>The event handler\<close>

lemma live_handler:
  assumes dec: "\<And>t. dec (enc env t) = Some t" and L: "live c dec True b X Y (db s)"
    and h: "handle_ldk_events env ev s = (r, s')"
  shows "on_record c dec Y (db s')" "r = Ok () \<Longrightarrow> live c dec True b X Y (db s')"
proof -
  have inv: "db_inv (db s)" and Y: "Y \<subseteq> stored_ids dec (db s)" "Y \<subseteq> ids (outbound_payments (db s))"
    using L by (auto simp: live_def on_record_def)
  note E = event_effect [OF inv h] and C = handler_cfg [OF inv h]
  have after: "Y \<subseteq> stored_ids dec (db s')" if "file_of (db s') = files_after (enc env) ev (db s)"
    using that Y dec by (auto simp: stored_ids_def files_after_def)
  have "Y \<subseteq> stored_ids dec (db s')"
    using E after Y(1) by (auto simp: stored_ids_def)
  then show rec: "on_record c dec Y (db s')"
    using E L C by (simp add: live_def on_record_def)
  show "live c dec True b X Y (db s')" if r: "r = Ok ()"
  proof -
    have t: "inbound_payments (db s') = next_inbound ev (inbound_payments (db s))"
      "outbound_payments (db s') = next_outbound ev (outbound_payments (db s))"
      "file_of (db s') = files_after (enc env) ev (db s)"
      using E r by simp_all
    consider (inb) "writes_inbound ev" "\<And>ob. next_outbound ev ob = ob"
      | (outb) "\<not> writes_inbound ev" "writes_outbound ev" "\<And>ib. next_inbound ev ib = ib"
      | (none) "\<not> writes_inbound ev" "\<not> writes_outbound ev"
          "\<And>ib. next_inbound ev ib = ib" "\<And>ob. next_outbound ev ob = ob"
      by (cases ev) auto
    then have "on_file dec (db s') INBOUND_PAYMENTS_FNAME (inbound_payments (db s')) \<and>
      (b \<longrightarrow> on_file dec (db s') OUTBOUND_PAYMENTS_FNAME (outbound_payments (db s')))"
      by cases (use L t C dec in \<open>simp_all add: live_def on_file_def files_after_def\<close>)
    then show ?thesis using L rec t by (simp add: live_def)
  qed
qed

section \<open>Writes of other files\<close>

text \<open>A disk whose files are as \<open>g\<close> says, that of \<open>p\<close> left aside.\<close>

definition keeps_but :: "path \<Rightarrow> (path \<Rightarrow> bytes option) \<Rightarrow> disk \<Rightarrow> bool" where
  "keeps_but p g d \<longleftrightarrow> fs_wf (cur d) \<and> (\<forall>q. q \<noteq> p \<longrightarrow> content_at (cur d) q = g q)"

definition has_file :: "path \<Rightarrow> nat \<Rightarrow> disk \<Rightarrow> bool" where
  "has_file p i d \<longleftrightarrow> lookup (cur d) p = Some (File i)"

lemma open_append_Ok:
  assumes "fs_wf f" "fs_open_append p f = (Ok i, f')"
  shows "fs_wf f'" "lookup f' p = Some (File i)" "q \<noteq> p \<Longrightarrow> content_at f' q = content_at f q"
    "content_at f' p = Some (case content_at f p of None \<Rightarrow> [] | Some b \<Rightarrow> b)"
proof -
  have p: "p \<noteq> []" using assms(2) by (auto simp: fs_open_append_def parent_dir_def)
  have c: "lookup f p = Some (File i) \<and> f' = f \<or>
      lookup f p = None \<and> i = next_ino f \<and>
      f' = put_ent p (File i) (put_data i [] (f\<lparr>next_ino := Suc i\<rparr>))"
    using assms(2)
    by (auto simp: fs_open_append_def new_file_def Let_def split: outcome.splits option.splits node.splits)
  show "fs_wf f'" using c assms(1) p by (auto simp: fs_wf_new)
  show "lookup f' p = Some (File i)" using c p by (auto simp: fs_simps)
  show "content_at f' q = content_at f q" if "q \<noteq> p"
  proof (rule content_at_cong)
    show "lookup f' q = lookup f q" using c p that by (auto simp: fs_simps)
    show "data_of f' j = data_of f j" if "lookup f q = Some (File j)" for j
      using c p fs_wf_bound [OF assms(1) that] by (auto simp: fs_simps)
  qed
  show "content_at f' p = Some (case content_at f p of None \<Rightarrow> [] | Some b \<Rightarrow> b)"
    using c p by (auto simp: content_at_def fs_simps)
qed

lemma open_append_fail: "fs_open_append p f = (r, f') \<Longrightarrow> \<not> is_ok r \<Longrightarrow> f' = f"
  by (auto simp: fs_open_append_def new_file_def Let_def split: outcome.splits option.splits node.splits)

lemma keeps_but_put_data:
  assumes "keeps_but p g d" "has_file p i d"
  shows "keeps_but p g (d\<lparr>cur := put_data i b (cur d), faults := x, hist := h\<rparr>)"
proof -
  have wf: "fs_wf (cur d)" using assms(1) by (simp add: keeps_but_def)
  have "content_at (put_data i b (cur d)) q = content_at (cur d) q" if "q \<noteq> p" for q
  proof (rule content_at_cong)
    show "lookup (put_data i b (cur d)) q = lookup (cur d) q" by (simp add: fs_simps)
    show "data_of (put_data i b (cur d)) j = data_of (cur d) j" if "lookup (cur d) q = Some (File j)" for j
      using fs_wf_inj [OF wf that, of p] assms(2) \<open>q \<noteq> p\<close> that by (auto simp: fs_simps has_file_def)
  qed
  then show ?thesis using assms(1) by (simp add: keeps_but_def fs_wf_put_data)
qed

lemma keeps_but_faults [simp]: "keeps_but p g (d\<lparr>faults := x\<rparr>) = keeps_but p g d"
  by (simp add: keeps_but_def)

lemma hoare_persist_channel_peer:
  "hoare (keeps_but p g) (persist_channel_peer p info) (\<lambda>_. keeps_but p g) (keeps_but p g)"
  unfolding persist_channel_peer_def
proof (rule hoare_bind)
  show "hoare (keeps_but p g) (sys (fs_open_append p)) (\<lambda>i d. keeps_but p g d \<and> has_file p i d) (keeps_but p g)"
  proof (rule hoare_sys)
    fix d r f' assume k: "keeps_but p g d" and o: "fs_open_append p (cur d) = (r, f')"
    have wf: "fs_wf (cur d)" using k by (simp add: keeps_but_def)
    show "case r of Ok i \<Rightarrow>
        keeps_but p g (d\<lparr>cur := f', faults := tl (faults d), hist := f' # hist d\<rparr>) \<and>
        has_file p i (d\<lparr>cur := f', faults := tl (faults d), hist := f' # hist d\<rparr>)
      | _ \<Rightarrow> keeps_but p g (d\<lparr>cur := f', faults := tl (faults d), hist := f' # hist d\<rparr>)"
    proof (cases r)
      case (Ok i)
      note O = open_append_Ok [OF wf o [unfolded Ok]]
      show ?thesis using O k Ok by (simp add: keeps_but_def has_file_def)
    qed (use o k open_append_fail [OF o] in \<open>simp_all add: keeps_but_def\<close>)
  qed simp
  show "hoare (\<lambda>d. keeps_but p g d \<and> has_file p i d) (sys_write i buf) (\<lambda>_. keeps_but p g) (keeps_but p g)" for i buf
    unfolding hoare_def
    by (auto simp: sys_write_def perform_def fs_write_def keeps_but_put_data split: option.splits)
qed

section \<open>Triples for the commands\<close>

text \<open>
  The two assertions on the state of the command loop: \<open>going\<close> after a returned value,
  \<open>kept\<close> after an error or a panic. The ids beyond those already sent are \<open>X\<close> and
  \<open>Y\<close>.
\<close>

definition going ::
  "config \<Rightarrow> (bytes \<Rightarrow> payments option) \<Rightarrow> bool \<Rightarrow> bool \<Rightarrow> bytes set \<Rightarrow> cli_state \<Rightarrow> bool" where
  "going c dec a b X s \<longleftrightarrow>
     live c dec a b (X \<union> paid_ids (requests s)) (paid_ids (requests s)) (pay_db s)"

definition kept :: "config \<Rightarrow> (bytes \<Rightarrow> payments option) \<Rightarrow> cli_state \<Rightarrow> bool" where
  "kept c dec s \<longleftrightarrow> on_record c dec (paid_ids (requests s)) (pay_db s)"

lemma going_kept: "going c dec a b X s \<Longrightarrow> kept c dec s"
  by (simp add: going_def kept_def live_on_record)

lemma going_weaken: "going c dec a b X s \<Longrightarrow> a' \<longrightarrow> a \<Longrightarrow> b' \<longrightarrow> b \<Longrightarrow> X' \<subseteq> X \<Longrightarrow> going c dec a' b' X' s"
  unfolding going_def by (erule live_weaken) auto

named_theorems going_intros \<open>triples for the commands\<close>

text \<open>A computation that keeps every record: screen, peers and other calls may change.\<close>

definition harmless :: "'a cli \<Rightarrow> bool" where
  "harmless m \<longleftrightarrow>
     (\<forall>s r s'. m s = (r, s') \<longrightarrow> pay_db s' = pay_db s \<and> paid_ids (requests s') = paid_ids (requests s))"

lemma harmlessD:
  "harmless m \<Longrightarrow> m s = (r, s') \<Longrightarrow> pay_db s' = pay_db s \<and> paid_ids (requests s') = paid_ids (requests s)"
  by (simp add: harmless_def)

lemma harmless_going: "harmless m \<Longrightarrow> hoare (going c dec a b X) m (\<lambda>_. going c dec a b X) (going c dec a b X)"
  by (rule hoareI) (auto simp: going_def dest!: harmlessD)

lemma harmless_bind:
  assumes "harmless m" "\<And>x. harmless (f x)"
  shows "harmless (bind_st m f)"
  unfolding harmless_def bind_st_def
  by (auto split: prod.splits outcome.splits dest!: harmlessD [OF assms(1)] harmlessD [OF assms(2)])

lemma harmless_catch:
  assumes "harmless m" "\<And>x. harmless (f x)"
  shows "harmless (catch_st m f)"
  unfolding harmless_def catch_st_def
  by (auto split: prod.splits outcome.splits dest!: harmlessD [OF assms(1)] harmlessD [OF assms(2)])

lemma harmless_basic:
  "harmless (say t)" "harmless (sayln t)" "harmless (return_st x)" "harmless (lift_st r)" "harmless done_st"
  "paid_id q = None \<Longrightarrow> harmless (request q)"
  by (simp_all add: harmless_def say_def sayln_def return_st_def lift_st_def done_st_def request_def)

lemma harmless_say_lines: "harmless (say_lines ls)"
  by (induction ls) (simp_all add: harmless_basic harmless_bind)

lemma harmless_parse_flags: "harmless (parse_flags a b ws)"
  by (induction a b ws rule: parse_flags.induct) (simp_all add: harmless_basic harmless_bind)

lemmas harmless_intros = harmless_bind harmless_catch harmless_basic harmless_say_lines harmless_parse_flags

lemma harmless_state: "(\<And>s. harmless (m s)) \<Longrightarrow> harmless (\<lambda>s. m s s)"
  by (simp add: harmless_def)

lemma harmless_info: "harmless help_cmd" "harmless (node_info ovf r)" "harmless list_peers"
    "harmless list_payments" "harmless (list_channels r)"
proof -
  show "harmless help_cmd" by (simp add: help_cmd_def harmless_intros)
  show "harmless list_payments" by (simp add: list_payments_def harmless_def say_def)
  show "harmless (node_info ovf r)" unfolding node_info_def
    by (rule harmless_state) (intro harmless_intros)
  show "harmless list_peers" unfolding list_peers_def
    by (rule harmless_state) (intro harmless_intros)
  show "harmless (list_channels r)" unfolding list_channels_def
    by (intro harmless_intros)
qed

section \<open>Inserting, persisting, asking\<close>

lemma file_of_tables [simp]:
  "file_of (d\<lparr>outbound_payments := t\<rparr>) = file_of d" "file_of (d\<lparr>inbound_payments := t\<rparr>) = file_of d"
  by (simp_all add: file_of_def fun_eq_iff)

lemma on_file_tables [simp]:
  "on_file dec (d\<lparr>outbound_payments := t\<rparr>) f x = on_file dec d f x"
  "on_file dec (d\<lparr>inbound_payments := t\<rparr>) f x = on_file dec d f x"
  by (rule on_file_cong; simp)+

lemma on_record_tables [simp]:
  "on_record c dec Y (d\<lparr>outbound_payments := t\<rparr>) = on_record c dec Y d"
  "on_record c dec Y (d\<lparr>inbound_payments := t\<rparr>) = on_record c dec Y d"
  by (simp_all add: on_record_def db_inv_def stored_ids_def)

lemma live_insert_outbound:
  "live c dec a b X Y d \<Longrightarrow>
   live c dec a False (insert i X) Y (d\<lparr>outbound_payments := AList.update i info (outbound_payments d)\<rparr>)"
  by (auto simp: live_def)

lemma live_insert_inbound:
  "live c dec a b X Y d \<Longrightarrow>
   live c dec False b X Y (d\<lparr>inbound_payments := AList.update i info (inbound_payments d)\<rparr>)"
  by (auto simp: live_def)

lemma hoare_insert_outbound:
  "hoare (going c dec a b X) (with_db (insert_outbound i info)) (\<lambda>_. going c dec a False (insert i X)) R"
  by (simp add: hoare_def going_def with_db_def insert_outbound_def live_insert_outbound)

lemma hoare_insert_inbound:
  "hoare (going c dec a b X) (with_db (insert_inbound i info)) (\<lambda>_. going c dec False b X) R"
  by (simp add: hoare_def going_def with_db_def insert_inbound_def live_insert_inbound)

lemma set_failed_going:
  assumes "i \<in> X" "going c dec a b X s" "with_db (set_failed i) s = (r, s')"
  shows "r = Ok () \<and> going c dec a False X s'"
proof -
  from assms(1,2) have "i \<in> ids (outbound_payments (pay_db s))" by (auto simp: going_def live_def)
  then obtain p where "map_of (outbound_payments (pay_db s)) i = Some p" by (auto simp: ids_iff)
  then have s': "r = Ok ()"
    "s' = s\<lparr>pay_db := (pay_db s)\<lparr>outbound_payments :=
      AList.update i (p\<lparr>status := Failed\<rparr>) (outbound_payments (pay_db s))\<rparr>\<rparr>"
    using assms(3) by (auto simp: with_db_def set_failed_def)
  with live_insert_outbound [OF assms(2) [unfolded going_def], of i] assms(1) show ?thesis
    by (simp add: going_def insert_absorb)
qed

lemma hoare_set_failed:
  "i \<in> X \<Longrightarrow> hoare (going c dec a b X) (with_db (set_failed i)) (\<lambda>_. going c dec a False X) R"
  by (rule hoareI) (auto dest: set_failed_going)

lemma hoare_persist_outbound:
  assumes "\<And>t. dec (e t) = Some t"
  shows "hoare (going c dec a b X) (with_db (persist_outbound e))
    (\<lambda>_ s. live c dec a True (X \<union> paid_ids (requests s)) (X \<union> paid_ids (requests s)) (pay_db s)) (kept c dec)"
  by (rule hoareI)
    (auto simp: with_db_def going_def kept_def split: prod.splits dest: persist_outbound_live [OF assms])

lemma hoare_persist_inbound:
  assumes "\<And>t. dec (e t) = Some t"
  shows "hoare (going c dec a b X) (with_db (persist_inbound e)) (\<lambda>_. going c dec True b X) (kept c dec)"
  by (rule hoareI)
    (auto simp: with_db_def going_def kept_def split: prod.splits dest: persist_inbound_live [OF assms])

text \<open>A call is made with its payment in the table and on disk.\<close>

lemma hoare_request_paid:
  "hoare (\<lambda>s. live c dec a b (X \<union> paid_ids (requests s)) (X \<union> paid_ids (requests s)) (pay_db s) \<and> paid_id q = Some i \<and> i \<in> X)
     (request q) (\<lambda>_. going c dec a b X) R"
  by (auto simp: hoare_def request_def going_def elim!: live_weaken)

lemma hoare_harmless:
  assumes "harmless m"
  shows "hoare (going c dec a b X) m (\<lambda>_. going c dec a b X) (kept c dec)"
  by (rule hoare_weaken [OF harmless_going [OF assms]]) (auto intro: going_kept)

lemma hoare_pay_through:
  assumes dec: "\<And>t. dec (cenc env t) = Some t" and q: "paid_id q = Some i" and acc: "harmless accepted"
  shows "hoare (going c dec True b {}) (pay_through env q i info accepted) (\<lambda>_. going c dec True True {}) (kept c dec)"
proof -
  have end1: "hoare (going c dec True True {i}) accepted (\<lambda>_. going c dec True True {}) (kept c dec)"
    by (rule hoare_weaken [OF hoare_harmless [OF acc]]) (auto elim: going_weaken)
  have persist: "hoare (going c dec True False {i}) (with_db (persist_outbound (cenc env)))
      (\<lambda>_. going c dec True True {}) (kept c dec)"
    by (rule hoare_weaken [OF hoare_persist_outbound [OF dec]]) (auto simp: going_def elim!: live_weaken)
  have say: "hoare (going c dec True True {i}) (sayln t) (\<lambda>_. going c dec True True {i}) (kept c dec)"
    "hoare (going c dec True True {i}) (say t) (\<lambda>_. going c dec True True {i}) (kept c dec)" for t
    by (simp_all add: hoare_harmless harmless_basic)
  have end2: "hoare (going c dec True True {i}) (payment_refused env i e) (\<lambda>_. going c dec True True {}) (kept c dec)" for e
    unfolding payment_refused_def
    by (rule hoare_bind [OF say(1)] hoare_bind [OF say(2)] hoare_bind [OF hoare_set_failed] persist singletonI)+
  have ask: "hoare (\<lambda>s. live c dec True True ({i} \<union> paid_ids (requests s)) ({i} \<union> paid_ids (requests s)) (pay_db s))
      (request q) (\<lambda>_. going c dec True True {i}) (kept c dec)"
    by (rule hoare_weaken [OF hoare_request_paid [where X = "{i}"]]) (use q in auto)
  have ins: "hoare (going c dec True b {}) (with_db (insert_outbound i info)) (\<lambda>_. going c dec True False {i}) (kept c dec)"
    by (rule hoare_weaken [OF hoare_insert_outbound]) auto
  show ?thesis unfolding pay_through_def
    by (rule hoare_bind [OF ins], rule hoare_bind [OF hoare_persist_outbound [OF dec]], rule hoare_bind [OF ask])
      (auto split: option.splits intro: end1 end2)
qed

section \<open>The peer file\<close>

text \<open>The file of channel peers is none of the two table files.\<close>

definition peer_file_apart :: "config \<Rightarrow> path \<Rightarrow> bool" where
  "peer_file_apart c p \<longleftrightarrow>
     p \<noteq> key_path c (table_key INBOUND_PAYMENTS_FNAME) \<and> p \<noteq> key_path c (table_key OUTBOUND_PAYMENTS_FNAME)"

lemma same_tables_live:
  assumes "live c dec a b X Y d" "store_inv (fs_store d')" "cfg (fs_store d') = cfg (fs_store d)"
    and "\<And>f. f \<in> {INBOUND_PAYMENTS_FNAME, OUTBOUND_PAYMENTS_FNAME} \<Longrightarrow> file_of d' f = file_of d f"
    and "inbound_payments d' = inbound_payments d" "outbound_payments d' = outbound_payments d"
  shows "live c dec a b X Y d'"
  using assms by (simp add: live_def on_record_def db_inv_def on_file_def stored_ids_def)

lemma remember_peer_going:
  assumes g: "going c dec a b X s" and p: "peer_file_apart c (peer_file env)" and m: "remember_peer env info s = (r, s')"
  shows "going c dec a b X s'"
proof -
  let ?d = "pay_db s" and ?kv = "fs_store (pay_db s)"
  have L: "live c dec a b (X \<union> paid_ids (requests s)) (paid_ids (requests s)) ?d" using g by (simp add: going_def)
  then have inv: "store_inv ?kv" and c: "cfg ?kv = c" by (simp_all add: live_def on_record_def db_inv_def)
  obtain q dk where w: "persist_channel_peer (peer_file env) info (dsk ?kv) = (q, dk)" by fastforce
  have "keeps_but (peer_file env) (content_at (cur (dsk ?kv))) (dsk ?kv)"
    using inv by (simp add: keeps_but_def store_inv_def)
  from hoare_any [OF hoare_persist_channel_peer this, of info] w
  have k: "keeps_but (peer_file env) (content_at (cur (dsk ?kv))) dk" by simp
  have s': "s' = s\<lparr>pay_db := ?d\<lparr>fs_store := ?kv\<lparr>dsk := dk\<rparr>\<rparr>\<rparr>"
    using m w by (auto simp: remember_peer_def with_disk_def Let_def split: outcome.splits)
  have "live c dec a b (X \<union> paid_ids (requests s)) (paid_ids (requests s)) (?d\<lparr>fs_store := ?kv\<lparr>dsk := dk\<rparr>\<rparr>)"
    by (rule same_tables_live [OF L])
      (use inv k p c in \<open>auto simp: store_inv_def keeps_but_def file_of_def kv_get_def peer_file_apart_def\<close>)
  then show ?thesis by (simp add: going_def s')
qed

section \<open>The commands\<close>

definition keeps_records :: "config \<Rightarrow> (bytes \<Rightarrow> payments option) \<Rightarrow> bool \<Rightarrow> 'a cli \<Rightarrow> bool" where
  "keeps_records c dec b m \<longleftrightarrow> hoare (going c dec True b {}) m (\<lambda>_. going c dec True b {}) (kept c dec)"

lemma keeps_harmless: "harmless m \<Longrightarrow> keeps_records c dec b m"
  by (simp add: keeps_records_def hoare_harmless)

lemma keeps_bind: "keeps_records c dec b m \<Longrightarrow> (\<And>x. keeps_records c dec b (f x)) \<Longrightarrow> keeps_records c dec b (bind_st m f)"
  unfolding keeps_records_def by (rule hoare_bind)

text \<open>An error that is caught must have kept everything.\<close>

lemma keeps_catch:
  assumes "harmless m" "\<And>x. keeps_records c dec b (f x)"
  shows "keeps_records c dec b (catch_st m f)"
  unfolding keeps_records_def
proof (rule hoareI)
  fix s r s' assume g: "going c dec True b {} s" and m: "catch_st m f s = (r, s')"
  obtain r1 s1 where m1: "m s = (r1, s1)" by fastforce
  have g1: "going c dec True b {} s1" using harmlessD [OF assms(1) m1] g by (simp add: going_def)
  note F = assms(2) [unfolded keeps_records_def]
  show "kept c dec s'" if "\<not> is_ok r"
    using m m1 g1 hoare_fail [OF F g1 _ that] going_kept [OF g1]
    by (cases r1) (auto simp: catch_st_def)
next
  fix s u s' assume g: "going c dec True b {} s" and m: "catch_st m f s = (Ok u, s')"
  obtain r1 s1 where m1: "m s = (r1, s1)" by fastforce
  have g1: "going c dec True b {} s1" using harmlessD [OF assms(1) m1] g by (simp add: going_def)
  show "going c dec True b {} s'"
    using m m1 hoare_ok [OF assms(2) [unfolded keeps_records_def] g1]
    by (cases r1) (auto simp: catch_st_def)
qed

lemma keeps_remember_peer: "peer_file_apart c (peer_file env) \<Longrightarrow> keeps_records c dec b (remember_peer env info)"
  unfolding keeps_records_def
  by (rule hoareI) (auto dest: remember_peer_going going_kept)

lemma harmless_connect: "harmless (connect_peer_if_necessary con k ad)"
  by (auto simp: harmless_def connect_peer_if_necessary_def cli_defs request_def split: if_splits)

lemma harmless_disconnect: "harmless (do_disconnect_peer cs k)"
  by (auto simp: harmless_def do_disconnect_peer_def cli_defs request_def split: if_splits)

lemma harmless_open_channel: "harmless (open_channel env k amt ann anch)"
  by (auto simp: open_channel_def Let_def split: option.splits intro!: harmless_intros)

lemma harmless_close: "harmless (close_channel env ch k)" "harmless (force_close_channel env ch k)"
  by (auto simp: close_channel_def force_close_channel_def split: option.splits intro!: harmless_intros)

lemma harmless_commands:
  "harmless (connectpeer_command env args)" "harmless (disconnectpeer_command env args)"
  "(\<And>ch k. harmless (close env ch k)) \<Longrightarrow> harmless (close_command name close env args)"
  "harmless (getoffer_command env args)" "harmless (signmessage_command env line)"
  by (auto simp: connectpeer_command_def disconnectpeer_command_def close_command_def getoffer_command_def
      signmessage_command_def say_peer_error_def Let_def harmless_connect harmless_disconnect
      split: option.splits list.splits outcome.splits prod.splits peer_error.splits intro!: harmless_intros)

lemma keeps_openchannel:
  "peer_file_apart c (peer_file env) \<Longrightarrow> keeps_records c dec b (openchannel_command env args)"
  by (auto simp: openchannel_command_def say_peer_error_def
      split: option.splits list.splits outcome.splits prod.splits peer_error.splits
      intro!: keeps_catch keeps_bind keeps_remember_peer harmless_connect harmless_open_channel
        keeps_harmless [OF harmless_parse_flags] keeps_harmless [OF harmless_basic(2)] keeps_harmless [OF harmless_basic(4)]
        keeps_harmless [OF harmless_basic(5)])

lemma keeps_pay_through:
  "(\<And>t. dec (cenc env t) = Some t) \<Longrightarrow> paid_id q = Some i \<Longrightarrow> harmless accepted \<Longrightarrow>
   keeps_records c dec b (pay_through env q i info accepted)"
  unfolding keeps_records_def
  by (rule hoare_weaken [OF hoare_pay_through]) (auto elim: going_weaken)

lemma harmless_announce: "harmless (announce_sent iv)"
  unfolding announce_sent_def by (intro harmless_intros)

lemma keeps_send_payment:
  assumes "\<And>t. dec (cenc env t) = Some t"
  shows "keeps_records c dec b (send_payment env iv req)"
proof (cases "payable env iv req")
  case True
  show ?thesis unfolding send_payment_payable [OF True]
    by (rule keeps_pay_through [OF assms _ harmless_announce]) simp
next
  case False
  show ?thesis
    by (rule keeps_harmless) (auto simp: harmless_def dest: send_payment_not_payable [OF False])
qed

lemma keeps_keysend:
  assumes "\<And>t. dec (cenc env t) = Some t"
  shows "keeps_records c dec b (keysend env payee amt)"
  unfolding keysend_pay_through
  by (rule keeps_pay_through [OF assms]) (simp, intro harmless_intros)

lemma keeps_keysend_command:
  assumes "\<And>t. dec (cenc (base env) t) = Some t"
  shows "keeps_records c dec b (keysend_command env args)"
  by (auto simp: keysend_command_def split: option.splits list.splits
      intro!: keeps_keysend [OF assms] keeps_harmless [OF harmless_basic(2)])

lemma keeps_get_invoice:
  assumes "\<And>t. dec (cenc env t) = Some t"
  shows "keeps_records c dec b (bind_st (get_invoice env amt net secs) (\<lambda>_. with_db (persist_inbound (cenc env))))"
  unfolding keeps_records_def
proof (rule hoare_bind)
  have "hoare (going c dec True b {}) (sayln t) (\<lambda>_. going c dec False b {}) (kept c dec)" for t
    by (rule hoare_weaken [OF hoare_harmless [OF harmless_basic(2)]]) (auto elim: going_weaken)
  then show "hoare (going c dec True b {}) (get_invoice env amt net secs) (\<lambda>_. going c dec False b {}) (kept c dec)"
    unfolding get_invoice_def
    by (auto split: outcome.splits
        intro!: hoare_bind [OF hoare_harmless [OF harmless_basic(2)]] hoare_insert_inbound hoare_lift elim: going_kept)
  show "hoare (going c dec False b {}) (with_db (persist_inbound (cenc env))) (\<lambda>_. going c dec True b {}) (kept c dec)"
    by (rule hoare_persist_inbound [OF assms])
qed

lemma keeps_getinvoice_command:
  assumes "\<And>t. dec (cenc (base env) t) = Some t"
  shows "keeps_records c dec b (getinvoice_command env args)"
  by (auto simp: getinvoice_command_def split: option.splits list.splits
      intro!: keeps_get_invoice [OF assms] keeps_harmless [OF harmless_basic(2)])

lemma keeps_simple_command:
  assumes "\<And>t. dec (cenc (base env) t) = Some t" "peer_file_apart c (peer_file env)"
  shows "keeps_records c dec b (simple_command env word args line)"
  using harmless_close harmless_commands harmless_info harmless_basic
  by (simp add: simple_command_def keeps_openchannel [OF assms(2)] keeps_keysend_command [OF assms(1)]
      keeps_getinvoice_command [OF assms(1)] keeps_harmless)

text \<open>
  One command of the loop, offers left aside: it keeps everything when it returns, and what is
  recorded in any case.
\<close>

lemma finish_step_keeps:
  assumes "keeps_records c dec b m" "going c dec True b {} s" "finish_step fl rest m s = Some (r, rest', s')"
  shows "kept c dec s' \<and> (is_ok r \<longrightarrow> going c dec True b {} s')"
proof -
  have k: "keeps_records c dec b (bind_st m (\<lambda>_. return_st fl))"
    by (intro keeps_bind assms(1) keeps_harmless harmless_basic)
  have m: "bind_st m (\<lambda>_. return_st fl) s = (r, s')"
    using assms(3) by (auto simp: finish_step_def split: prod.splits)
  show ?thesis
    using hoare_ok [OF k [unfolded keeps_records_def] assms(2)] hoare_fail [OF k [unfolded keeps_records_def] assms(2)] m
      going_kept
    by (cases "is_ok r") (auto simp: is_ok_iff)
qed

text \<open>A line that names an offer to pay.\<close>

definition names_offer :: "shell_env \<Rightarrow> string \<Rightarrow> bool" where
  "names_offer env line \<longleftrightarrow>
     (case split_whitespace line of
        word # offer_str # _ \<Rightarrow> word = ''sendpayment'' \<and> parse_offer (base env) offer_str \<noteq> None
      | _ \<Rightarrow> False)"

lemma run_command_keeps:
  assumes dec: "\<And>t. dec (cenc (base env) t) = Some t" and pf: "peer_file_apart c (peer_file env)"
    and no: "\<not> names_offer env line"
    and g: "going c dec True b {} s" and m: "run_command fuel env line rest s = Some (r, rest', s')"
  shows "kept c dec s' \<and> (is_ok r \<longrightarrow> going c dec True b {} s')"
proof -
  note F = finish_step_keeps [OF _ g]
  have say: "keeps_records c dec b (sayln t)" "keeps_records c dec b done_st" "keeps_records c dec b (lift_st q)"
    for t and q :: "(unit, unit) outcome"
    by (simp_all add: keeps_harmless harmless_basic)
  show ?thesis
  proof (cases "split_whitespace line")
    case Nil
    then show ?thesis using m F [OF say(2)] by (simp add: run_command_def)
  next
    case (Cons word args)
    consider (pay) "word = ''sendpayment''" | (quit) "word \<noteq> ''sendpayment''" "word = ''quit'' \<or> word = ''exit''"
      | (simple) "word \<noteq> ''sendpayment''" "\<not> (word = ''quit'' \<or> word = ''exit'')" by blast
    then show ?thesis
    proof cases
      case pay
      then have "sendpayment_command fuel env args line rest s = Some (r, rest', s')"
        using m Cons by (simp add: run_command_def)
      then show ?thesis
        using no Cons pay by (auto simp: sendpayment_command_def names_offer_def Let_def
            split: list.splits option.splits outcome.splits
            dest!: F [OF say(1)] F [OF say(3)] F [OF keeps_send_payment [OF dec]])
    next
      case quit
      then show ?thesis using m Cons F [OF say(2)] by (simp add: run_command_def)
    next
      case simple
      then show ?thesis using m Cons F [OF keeps_simple_command [OF dec pf]] by (simp add: run_command_def)
    qed
  qed
qed

end
