(* ===== verification/Runtime.thy ===== *)
theory Runtime imports Kept_Records begin

text \<open>
  The running node of \<open>src/src/main.rs\<close>: the task that handles events, the command loop and
  the background processor share the payment tables, behind their mutexes, and one directory,
  through two stores that have nothing but its disk in common (\<open>stores_share_the_disk\<close>): the
  event handler and the monitor persister write through \<open>fs_store\<close>, made first, the command loop
  and the background processor through \<open>persister\<close>, made before the processor starts. Whatever
  is done under a mutex is one step, and the steps of the tasks interleave in any order. Paying an
  offer takes its mutex to insert and to encode, and not while it writes, so it is four steps.

  A call of a store is part of one step. Without offers that is no restriction on the files of the
  tables: each is written only under the mutex of its table, and two calls on different files have
  no path in common. The write of an offer is outside the mutex: a run with offers stands for the
  schedules in which that write overlaps no other write of the same file. \<open>Two_Stores\<close> shows
  what an overlap can do.
\<close>

section \<open>State\<close>

text \<open>How far the command loop is with an offer: its environment, the offer, the payment id, the amount.\<close>

datatype offer_stage =
    Idle
  | Inserted cli_env bytes bytes u64
  | Encoded cli_env bytes bytes u64 bytes
  | Written cli_env bytes bytes u64

text \<open>
  The tables, the disk and the first store are in the event handler's state; the command loop has its
  screen, its calls and the second store, with a counter and locks of its own. A panic or the end of
  the command loop ends the process.
\<close>

record runtime =
  node :: node_state
  shell :: cli_state
  offer_stage :: offer_stage
  running :: bool

definition cli_view :: "runtime \<Rightarrow> cli_state" where
  "cli_view s =
     (shell s)\<lparr>pay_db := (db (node s))\<lparr>fs_store :=
        (fs_store (pay_db (shell s)))\<lparr>dsk := dsk (fs_store (db (node s)))\<rparr>\<rparr>\<rparr>"

definition put_cli :: "cli_state \<Rightarrow> runtime \<Rightarrow> runtime" where
  "put_cli c s =
     s\<lparr>shell := c,
       node := (node s)\<lparr>db := (pay_db c)\<lparr>fs_store :=
          (fs_store (db (node s)))\<lparr>dsk := dsk (fs_store (pay_db c))\<rparr>\<rparr>\<rparr>\<rparr>"

fun is_idle :: "offer_stage \<Rightarrow> bool" where
  "is_idle Idle = True"
| "is_idle _ = False"

lemma is_idle_iff [simp]: "is_idle x \<longleftrightarrow> x = Idle"
  by (cases x) auto

section \<open>Steps\<close>

text \<open>
  What can happen next: an event, a command other than paying an offer, a write of the background
  processor or of the monitor persister (through either store), and the four parts of paying an offer.
\<close>

datatype action =
    Event ldk_env ldk_event
  | Command nat shell_env string "stdin_line list"
  | Background bool kv_key bytes
  | OfferInsert cli_env bytes u64
  | OfferEncode "payments \<Rightarrow> bytes"
  | OfferWrite
  | OfferAsk

definition offer_info :: "u64 \<Rightarrow> payment_info" where
  "offer_info amt = \<lparr>preimage = None, secret = None, status = Pending, amt_msat = Some amt\<rparr>"

text \<open>\<open>fs_store.write("", "", OUTBOUND_PAYMENTS_FNAME, ..).unwrap()\<close> of bytes encoded before.\<close>

definition write_encoded :: "bytes \<Rightarrow> unit cli" where
  "write_encoded buf =
     with_db (\<lambda>d. case kv_write [] [] OUTBOUND_PAYMENTS_FNAME buf (fs_store d) of
       (r, s) \<Rightarrow> (unwrap_res r, d\<lparr>fs_store := s\<rparr>))"

definition ask_for_offer :: "cli_env \<Rightarrow> bytes \<Rightarrow> bytes \<Rightarrow> u64 \<Rightarrow> unit cli" where
  "ask_for_offer env offer payment_id amt =
     bind_st (request (PayForOffer offer payment_id amt)) (\<lambda>_.
     case send_answer env (PayForOffer offer payment_id amt) of
       None \<Rightarrow> done_st
     | Some e \<Rightarrow> sayln (''ERROR: Failed to pay: Err('' @ e @ '')''))"

text \<open>
  The tasks. The event handler works on the tables and the first store; the command loop and the
  background processor hold the second store, \<open>persister\<close>, the monitor persister the first.
\<close>

definition event_task :: "ldk_env \<Rightarrow> ldk_event \<Rightarrow> runtime \<Rightarrow> runtime" where
  "event_task env ev s =
     (case handle_ldk_events env ev (node s) of (r, n) \<Rightarrow> s\<lparr>node := n, running := (r = Ok ())\<rparr>)"

definition command_task :: "nat \<Rightarrow> shell_env \<Rightarrow> string \<Rightarrow> stdin_line list \<Rightarrow> runtime \<Rightarrow> runtime option" where
  "command_task fuel env line rest s =
     (case run_command fuel env line rest (cli_view s) of
        None \<Rightarrow> None
      | Some (r, rest', c) \<Rightarrow> Some ((put_cli c s)\<lparr>running := (r = Ok Continue_loop)\<rparr>))"

definition background_write :: "bool \<Rightarrow> kv_key \<Rightarrow> bytes \<Rightarrow> runtime \<Rightarrow> runtime" where
  "background_write by_persister key buf s =
     (if by_persister
      then (let c = cli_view s; d = pay_db c in
            case kv_put key buf (fs_store d) of (r, kv) \<Rightarrow> put_cli (c\<lparr>pay_db := d\<lparr>fs_store := kv\<rparr>\<rparr>) s)
      else (let d = db (node s) in
            case kv_put key buf (fs_store d) of
              (r, kv) \<Rightarrow> s\<lparr>node := (node s)\<lparr>db := d\<lparr>fs_store := kv\<rparr>\<rparr>\<rparr>))"

definition offer_insert :: "cli_env \<Rightarrow> bytes \<Rightarrow> u64 \<Rightarrow> runtime \<Rightarrow> runtime" where
  "offer_insert env offer amt s =
     (case with_db (insert_outbound (random_bytes env) (offer_info amt)) (cli_view s) of
        (r, c) \<Rightarrow> (put_cli c s)\<lparr>offer_stage := Inserted env offer (random_bytes env) amt\<rparr>)"

definition offer_write :: "cli_env \<Rightarrow> bytes \<Rightarrow> bytes \<Rightarrow> u64 \<Rightarrow> bytes \<Rightarrow> runtime \<Rightarrow> runtime" where
  "offer_write env offer pid amt buf s =
     (case write_encoded buf (cli_view s) of
        (r, c) \<Rightarrow> (put_cli c s)\<lparr>offer_stage := Written env offer pid amt, running := (r = Ok ())\<rparr>)"

definition offer_ask :: "cli_env \<Rightarrow> bytes \<Rightarrow> bytes \<Rightarrow> u64 \<Rightarrow> runtime \<Rightarrow> runtime" where
  "offer_ask env offer pid amt s =
     (case ask_for_offer env offer pid amt (cli_view s) of (r, c) \<Rightarrow> (put_cli c s)\<lparr>offer_stage := Idle\<rparr>)"

lemmas task_defs [simp] = event_task_def command_task_def background_write_def offer_insert_def offer_write_def
  offer_ask_def

text \<open>Each task moves the counter and the locks of its own store; the disk is the only thing in common.\<close>

abbreviation event_store :: "runtime \<Rightarrow> kvstore" where "event_store s \<equiv> fs_store (db (node s))"
abbreviation shell_store :: "runtime \<Rightarrow> kvstore" where "shell_store s \<equiv> fs_store (pay_db (shell s))"

lemma stores_share_the_disk:
  "shell_store (event_task env ev s) = shell_store s"
  "command_task fuel env2 line rest s = Some u \<Longrightarrow> tmp_file_counter (event_store u) = tmp_file_counter (event_store s) \<and>
     locks (event_store u) = locks (event_store s)"
  "tmp_file_counter (event_store (offer_write env3 offer pid amt buf s)) = tmp_file_counter (event_store s)"
  "locks (event_store (offer_write env3 offer pid amt buf s)) = locks (event_store s)"
  "dsk (event_store (offer_write env3 offer pid amt buf s)) = dsk (shell_store (offer_write env3 offer pid amt buf s))"
  by (auto simp: put_cli_def split: prod.splits option.splits)

text \<open>One step of a running node, when it is possible: the command loop does one thing at a time.\<close>

fun enabled_step :: "runtime \<Rightarrow> action \<Rightarrow> runtime option" where
  "enabled_step s (Event env ev) = Some (event_task env ev s)"
| "enabled_step s (Command fuel env line rest) =
     (if is_idle (offer_stage s) then command_task fuel env line rest s else None)"
| "enabled_step s (Background by_persister key buf) = Some (background_write by_persister key buf s)"
| "enabled_step s (OfferInsert env offer amt) =
     (if is_idle (offer_stage s) then Some (offer_insert env offer amt s) else None)"
| "enabled_step s (OfferEncode encode) =
     (case offer_stage s of
        Inserted env offer pid amt \<Rightarrow>
          Some (s\<lparr>offer_stage := Encoded env offer pid amt (encode (outbound_payments (db (node s))))\<rparr>)
      | _ \<Rightarrow> None)"
| "enabled_step s OfferWrite =
     (case offer_stage s of
        Encoded env offer pid amt buf \<Rightarrow> Some (offer_write env offer pid amt buf s)
      | _ \<Rightarrow> None)"
| "enabled_step s OfferAsk =
     (case offer_stage s of
        Written env offer pid amt \<Rightarrow> Some (offer_ask env offer pid amt s)
      | _ \<Rightarrow> None)"

definition node_step :: "runtime \<Rightarrow> action \<Rightarrow> runtime option" where
  "node_step s a = (if running s then enabled_step s a else None)"

text \<open>The states that a node can get to by allowed actions.\<close>

inductive reaches :: "(action \<Rightarrow> bool) \<Rightarrow> runtime \<Rightarrow> runtime \<Rightarrow> bool" for allowed where
  reaches_start: "reaches allowed s s"
| reaches_step: "reaches allowed s t \<Longrightarrow> allowed a \<Longrightarrow> node_step t a = Some u \<Longrightarrow> reaches allowed s u"

lemma reaches_mono: "reaches allowed s t \<Longrightarrow> (\<And>a. allowed a \<Longrightarrow> wider a) \<Longrightarrow> reaches wider s t"
  by (induction rule: reaches.induct) (blast intro: reaches_start reaches_step)+

text \<open>A given list of actions.\<close>

fun run_actions :: "runtime \<Rightarrow> action list \<Rightarrow> runtime option" where
  "run_actions s [] = Some s"
| "run_actions s (a # as) = (case node_step s a of None \<Rightarrow> None | Some t \<Rightarrow> run_actions t as)"

lemma run_actions_reaches:
  "run_actions s as = Some t \<Longrightarrow> list_all allowed as \<Longrightarrow> reaches allowed s t"
proof -
  have "reaches allowed r t" if "reaches allowed r s" "run_actions s as = Some t" "list_all allowed as" for r
    using that
  proof (induction as arbitrary: s)
    case (Cons a as)
    then show ?case by (auto split: option.splits intro: reaches_step)
  qed simp
  then show "run_actions s as = Some t \<Longrightarrow> list_all allowed as \<Longrightarrow> reaches allowed s t"
    using reaches_start by blast
qed

text \<open>
  Actions of one node: every encoding is \<open>e\<close>, the store directory is that of \<open>c\<close>, no one
  else writes the files of the tables. A line that names an offer is not one step but the four of
  its payment.
\<close>

fun own_action :: "config \<Rightarrow> (payments \<Rightarrow> bytes) \<Rightarrow> action \<Rightarrow> bool" where
  "own_action c e (Event env ev) = (enc env = e)"
| "own_action c e (Command fuel env line rest) =
     (cenc (base env) = e \<and> peer_file_apart c (peer_file env) \<and> \<not> names_offer env line)"
| "own_action c e (Background by_shell key buf) =
     (key \<noteq> table_key INBOUND_PAYMENTS_FNAME \<and> key \<noteq> table_key OUTBOUND_PAYMENTS_FNAME)"
| "own_action c e (OfferEncode encode) = (encode = e)"
| "own_action c e _ = True"

fun is_offer_action :: "action \<Rightarrow> bool" where
  "is_offer_action (OfferInsert env offer amt) = True"
| "is_offer_action (OfferEncode encode) = True"
| "is_offer_action OfferWrite = True"
| "is_offer_action OfferAsk = True"
| "is_offer_action _ = False"

section \<open>The invariant\<close>

abbreviation tables :: "runtime \<Rightarrow> payment_db" where
  "tables s \<equiv> db (node s)"

definition asked :: "runtime \<Rightarrow> bytes set" where
  "asked s = paid_ids (requests (shell s))"

text \<open>
  What holds between two steps, by the stage of the offer. With \<open>b\<close> no offer is paid, and then
  the file of the outbound table is that table, too.
\<close>

definition stage_inv ::
  "config \<Rightarrow> (bytes \<Rightarrow> payments option) \<Rightarrow> bool \<Rightarrow> runtime \<Rightarrow> bool" where
  "stage_inv c dec b s \<longleftrightarrow>
     (case offer_stage s of
        Idle \<Rightarrow> live c dec True b (asked s) (asked s) (tables s)
      | Inserted env offer pid amt \<Rightarrow>
          \<not> b \<and> live c dec True False (insert pid (asked s)) (asked s) (tables s)
      | Encoded env offer pid amt buf \<Rightarrow>
          \<not> b \<and> live c dec True False (insert pid (asked s)) (asked s) (tables s) \<and>
          (\<exists>t. dec buf = Some t \<and> insert pid (asked s) \<subseteq> ids t)
      | Written env offer pid amt \<Rightarrow>
          \<not> b \<and> live c dec True False (insert pid (asked s)) (insert pid (asked s)) (tables s))"

definition node_inv :: "config \<Rightarrow> (bytes \<Rightarrow> payments option) \<Rightarrow> bool \<Rightarrow> runtime \<Rightarrow> bool" where
  "node_inv c dec b s \<longleftrightarrow>
     cfg (fs_store (pay_db (shell s))) = c \<and> on_record c dec (asked s) (tables s) \<and>
     (running s \<longrightarrow> stage_inv c dec b s)"

lemma stage_inv_live:
  "stage_inv c dec b s \<Longrightarrow> live c dec True (b \<and> offer_stage s = Idle) (asked s) (asked s) (tables s)"
  by (auto simp: stage_inv_def split: offer_stage.splits elim: live_weaken)

text \<open>The two views of the tables agree.\<close>

lemma same_disk_live:
  assumes "dsk (fs_store d') = dsk (fs_store d)" "cfg (fs_store d') = cfg (fs_store d)"
    and "inbound_payments d' = inbound_payments d" "outbound_payments d' = outbound_payments d"
  shows "live c dec a b X Y d' = live c dec a b X Y d" "on_record c dec Y d' = on_record c dec Y d"
proof -
  have "file_of d' = file_of d" using assms(1,2) by (simp add: file_of_def kv_get_def fun_eq_iff)
  then show "live c dec a b X Y d' = live c dec a b X Y d" "on_record c dec Y d' = on_record c dec Y d"
    using assms by (simp_all add: live_def on_record_def db_inv_def store_inv_def on_file_def stored_ids_def)
qed

lemma view_tables:
  assumes "cfg (fs_store (pay_db (shell s))) = c" "cfg (fs_store (tables s)) = c"
  shows "live c dec a b X Y (pay_db (cli_view s)) = live c dec a b X Y (tables s)"
    "on_record c dec Y (pay_db (cli_view s)) = on_record c dec Y (tables s)"
  by (rule same_disk_live; simp add: cli_view_def assms)+

lemma put_tables:
  assumes "cfg (fs_store (pay_db k)) = c" "cfg (fs_store (tables s)) = c"
  shows "live c dec a b X Y (tables (put_cli k s)) = live c dec a b X Y (pay_db k)"
    "on_record c dec Y (tables (put_cli k s)) = on_record c dec Y (pay_db k)"
  by (rule same_disk_live; simp add: put_cli_def assms)+

lemma put_cli_fields [simp]:
  "shell (put_cli k s) = k" "offer_stage (put_cli k s) = offer_stage s" "asked (put_cli k s) = paid_ids (requests k)"
  "tables (s\<lparr>running := x\<rparr>) = tables s" "asked (s\<lparr>running := x\<rparr>) = asked s"
  "tables (s\<lparr>offer_stage := y\<rparr>) = tables s" "asked (s\<lparr>offer_stage := y\<rparr>) = asked s"
  "requests (cli_view s) = requests (shell s)"
  by (simp_all add: put_cli_def asked_def cli_view_def)

lemma kept_cfg: "kept c dec k \<Longrightarrow> cfg (fs_store (pay_db k)) = c"
  by (simp add: kept_def on_record_def)

lemma node_inv_cfg: "node_inv c dec b s \<Longrightarrow> cfg (fs_store (pay_db (shell s))) = c \<and> cfg (fs_store (tables s)) = c"
  by (simp add: node_inv_def on_record_def)

section \<open>Every step keeps the invariant\<close>

text \<open>The writer of other files: neither the tables nor their files change.\<close>

lemma other_write_live:
  assumes "store_inv (fs_store d)" "kv_put k buf (fs_store d) = (r, kv)"
    and "k \<noteq> table_key INBOUND_PAYMENTS_FNAME" "k \<noteq> table_key OUTBOUND_PAYMENTS_FNAME"
    and "cfg kv = cfg (fs_store d)"
  shows "live c dec a b X Y d \<Longrightarrow> live c dec a b X Y (d\<lparr>fs_store := kv\<rparr>)"
    "on_record c dec Y d \<Longrightarrow> on_record c dec Y (d\<lparr>fs_store := kv\<rparr>)"
proof -
  note C = fs_kv.put_cases [OF assms(1,2)]
  have "file_of (d\<lparr>fs_store := kv\<rparr>) f = file_of d f" if "k \<noteq> table_key f" for f
    using C that by (auto simp: file_of_def)
  then show "live c dec a b X Y d \<Longrightarrow> live c dec a b X Y (d\<lparr>fs_store := kv\<rparr>)"
    "on_record c dec Y d \<Longrightarrow> on_record c dec Y (d\<lparr>fs_store := kv\<rparr>)"
    using C assms(3-5) by (auto simp: live_def on_record_def db_inv_def on_file_def stored_ids_def)
qed

lemma kv_put_cfg: "kv_put k buf s = (r, s') \<Longrightarrow> store_inv s \<Longrightarrow> cfg s' = cfg s"
proof -
  assume w: "kv_put k buf s = (r, s')" and inv: "store_inv s"
  obtain p n x where k: "k = (p, n, x)" by (cases k)
  note T = hoare_kv_write [OF store_triple(2) [OF inv], of "content_at (cur (dsk s))" p n x buf]
  show ?thesis
    using hoare_ok [OF T store_triple(1) [OF inv], of "()" s'] hoare_fail [OF T store_triple(1) [OF inv], of r s'] w k
    by (cases r) (auto simp: at_cfg_def)
qed

lemma event_keeps:
  assumes dec: "\<And>t. dec (e t) = Some t" and inv: "node_inv c dec b s" "running s" and e: "enc env = e"
    and h: "handle_ldk_events env ev (node s) = (r, n)"
  shows "node_inv c dec b (s\<lparr>node := n, running := (r = Ok ())\<rparr>)"
proof -
  have H: "on_record c dec Y (db n) \<and> (r = Ok () \<longrightarrow> live c dec True x X Y (db n))"
    if "live c dec True x X Y (tables s)" for x X Y
    using live_handler [OF dec [folded e] that h] by blast
  have L: "stage_inv c dec b s" using inv by (simp add: node_inv_def)
  have a: "asked (s\<lparr>node := n, running := z\<rparr>) = asked s" "asked (s\<lparr>node := n\<rparr>) = asked s" for z
    by (simp_all add: asked_def)
  have "on_record c dec (asked s) (db n)" using H [OF stage_inv_live [OF L]] by blast
  moreover have "r = Ok () \<longrightarrow> stage_inv c dec b (s\<lparr>node := n, running := True\<rparr>)"
    using L H by (auto simp: stage_inv_def a split: offer_stage.splits)
  ultimately show ?thesis using inv by (simp add: node_inv_def a)
qed

lemma command_keeps:
  assumes dec: "\<And>t. dec (e t) = Some t" and inv: "node_inv c dec b s" "running s"
    and own: "own_action c e (Command fuel env line rest)"
    and st: "enabled_step s (Command fuel env line rest) = Some u"
  shows "node_inv c dec b u"
proof -
  note C = node_inv_cfg [OF inv(1)]
  from st obtain r rest' k where m: "run_command fuel env line rest (cli_view s) = Some (r, rest', k)"
    and idle: "offer_stage s = Idle" and u: "u = (put_cli k s)\<lparr>running := (r = Ok Continue_loop)\<rparr>"
    by (auto split: if_splits option.splits)
  have "live c dec True b (asked s) (asked s) (tables s)"
    using inv idle by (simp add: node_inv_def stage_inv_def)
  then have g: "going c dec True b {} (cli_view s)"
    using view_tables(1) [of s c] C by (simp add: going_def asked_def)
  have d: "\<And>t. dec (cenc (base env) t) = Some t" using own dec by simp
  from run_command_keeps [OF d _ _ g m] own
  have K: "kept c dec k" "r = Ok Continue_loop \<longrightarrow> going c dec True b {} k" by auto
  note P = put_tables [OF kept_cfg [OF K(1)], of s] C
  show ?thesis using K P idle kept_cfg [OF K(1)]
    by (simp add: node_inv_def u stage_inv_def kept_def going_def)
qed

lemma background_keeps:
  assumes inv: "node_inv c dec b s" "running s"
    and own: "own_action c e (Background by_shell k buf)"
    and st: "enabled_step s (Background by_shell k buf) = Some u"
  shows "node_inv c dec b u"
proof -
  note C = node_inv_cfg [OF inv(1)]
  have st_inv: "stage_inv c dec b s" and rec: "on_record c dec (asked s) (tables s)"
    using inv by (simp_all add: node_inv_def)
  have keeps: "node_inv c dec b u"
    if "offer_stage u = offer_stage s" "asked u = asked s" "cfg (fs_store (pay_db (shell u))) = c"
      and L: "\<And>x X Y. live c dec True x X Y (tables s) \<Longrightarrow> live c dec True x X Y (tables u)"
      and R: "\<And>Y. on_record c dec Y (tables s) \<Longrightarrow> on_record c dec Y (tables u)"
    using that st_inv rec by (auto simp: node_inv_def stage_inv_def split: offer_stage.splits)
  show ?thesis
  proof (cases by_shell)
    case True
    let ?d = "pay_db (cli_view s)"
    obtain r kv where w: "kv_put k buf (fs_store ?d) = (r, kv)" by fastforce
    have inv_d: "store_inv (fs_store ?d)" "cfg (fs_store ?d) = c"
      using rec C by (simp_all add: on_record_def db_inv_def store_inv_def cli_view_def)
    have kc: "cfg kv = c" using kv_put_cfg [OF w inv_d(1)] inv_d(2) by simp
    note O = other_write_live [OF inv_d(1) w _ _ kv_put_cfg [OF w inv_d(1)]]
    have u: "u = put_cli ((cli_view s)\<lparr>pay_db := ?d\<lparr>fs_store := kv\<rparr>\<rparr>) s"
      using st True w by (simp add: Let_def)
    show ?thesis
    proof (rule keeps)
      show "offer_stage u = offer_stage s" "asked u = asked s" "cfg (fs_store (pay_db (shell u))) = c"
        by (simp_all add: u kc) (simp add: asked_def)
      show "live c dec True x X Y (tables s) \<Longrightarrow> live c dec True x X Y (tables u)" for x X Y
        using O(1) own view_tables(1) [of s c] put_tables(1) [of "shell u" c s] C by (simp add: u kc)
      show "on_record c dec Y (tables s) \<Longrightarrow> on_record c dec Y (tables u)" for Y
        using O(2) own view_tables(2) [of s c] put_tables(2) [of "shell u" c s] C by (simp add: u kc)
    qed
  next
    case False
    let ?d = "tables s"
    obtain r kv where w: "kv_put k buf (fs_store ?d) = (r, kv)" by fastforce
    have inv_d: "store_inv (fs_store ?d)" using rec by (simp add: on_record_def db_inv_def)
    note O = other_write_live [OF inv_d w _ _ kv_put_cfg [OF w inv_d]]
    have u: "u = s\<lparr>node := (node s)\<lparr>db := ?d\<lparr>fs_store := kv\<rparr>\<rparr>\<rparr>"
      using st False w by (simp add: Let_def)
    show ?thesis
      by (rule keeps) (use O own C in \<open>simp_all add: u asked_def\<close>)
  qed
qed

text \<open>The four parts of paying an offer.\<close>

lemma offer_insert_keeps:
  assumes inv: "node_inv c dec b s" "running s" "\<not> b" and st: "enabled_step s (OfferInsert env offer amt) = Some u"
  shows "node_inv c dec b u"
proof -
  note C = node_inv_cfg [OF inv(1)]
  let ?i = "random_bytes env" and ?d = "pay_db (cli_view s)"
  let ?k = "(cli_view s)\<lparr>pay_db := ?d\<lparr>outbound_payments := AList.update ?i (offer_info amt) (outbound_payments ?d)\<rparr>\<rparr>"
  have idle: "offer_stage s = Idle" and u: "u = (put_cli ?k s)\<lparr>offer_stage := Inserted env offer ?i amt\<rparr>"
    using st by (auto simp: with_db_def insert_outbound_def split: if_splits)
  have "live c dec True b (asked s) (asked s) ?d"
    using inv idle view_tables(1) [of s c] C by (simp add: node_inv_def stage_inv_def)
  from live_insert_outbound [OF this, of ?i "offer_info amt"]
  have L: "live c dec True False (insert ?i (asked s)) (asked s) (pay_db ?k)" by simp
  have k: "cfg (fs_store (pay_db ?k)) = c" using C by (simp add: cli_view_def)
  note P = put_tables [OF k, of s] C
  show ?thesis using L P k inv(3) live_on_record [OF L]
    by (simp add: node_inv_def stage_inv_def u) (simp add: asked_def)
qed

lemma offer_encode_keeps:
  assumes dec: "\<And>t. dec (e t) = Some t" and inv: "node_inv c dec b s" "running s"
    and st: "enabled_step s (OfferEncode e) = Some u"
  shows "node_inv c dec b u"
  using inv st dec
  by (auto simp: node_inv_def stage_inv_def asked_def live_def split: offer_stage.splits)

lemma write_encoded_kept:
  assumes L: "live c dec True False X Y d" and buf: "dec buf = Some t" "X \<subseteq> ids t"
    and w: "kv_write [] [] OUTBOUND_PAYMENTS_FNAME buf (fs_store d) = (r, kv)"
  shows "on_record c dec Y (d\<lparr>fs_store := kv\<rparr>)" "r = Ok () \<Longrightarrow> live c dec True False X X (d\<lparr>fs_store := kv\<rparr>)"
proof -
  have p: "persist_payments (\<lambda>x. buf) OUTBOUND_PAYMENTS_FNAME t d = (unwrap_res r, d\<lparr>fs_store := kv\<rparr>)"
    using w by (simp add: persist_payments_def)
  have inv: "db_inv d" and Y: "Y \<subseteq> stored_ids dec d" "Y \<subseteq> X" using L by (auto simp: live_def on_record_def)
  note C = persist_payments_cases [OF inv p] persist_cfg [OF p inv]
  have i: "file_of (d\<lparr>fs_store := kv\<rparr>) INBOUND_PAYMENTS_FNAME = file_of d INBOUND_PAYMENTS_FNAME" using C(4) by auto
  have new: "stored_ids dec (d\<lparr>fs_store := kv\<rparr>) = ids t"
    if "file_of (d\<lparr>fs_store := kv\<rparr>) = (file_of d)(OUTBOUND_PAYMENTS_FNAME \<mapsto> buf)"
    using that buf by (simp add: stored_ids_def)
  have "Y \<subseteq> stored_ids dec (d\<lparr>fs_store := kv\<rparr>)" using C(4) Y new buf by (auto simp: stored_ids_def)
  then show rec: "on_record c dec Y (d\<lparr>fs_store := kv\<rparr>)" using L C(1,7) by (simp add: live_def on_record_def)
  show "live c dec True False X X (d\<lparr>fs_store := kv\<rparr>)" if "r = Ok ()"
  proof -
    have "stored_ids dec (d\<lparr>fs_store := kv\<rparr>) = ids t" using new C(5) that by simp
    then show ?thesis using L C(7) on_file_cong [OF C(7) i] rec buf by (simp add: live_def on_record_def)
  qed
qed

lemma offer_write_keeps:
  assumes inv: "node_inv c dec b s" "running s" and st: "enabled_step s OfferWrite = Some u"
  shows "node_inv c dec b u"
proof -
  note C = node_inv_cfg [OF inv(1)]
  let ?d = "pay_db (cli_view s)"
  from st obtain env offer pid amt buf where stage: "offer_stage s = Encoded env offer pid amt buf"
    by (auto split: offer_stage.splits)
  obtain r kv where w: "kv_write [] [] OUTBOUND_PAYMENTS_FNAME buf (fs_store ?d) = (r, kv)" by fastforce
  let ?k = "(cli_view s)\<lparr>pay_db := ?d\<lparr>fs_store := kv\<rparr>\<rparr>"
  have u: "u = (put_cli ?k s)\<lparr>offer_stage := Written env offer pid amt, running := (r = Ok ())\<rparr>"
    using st stage w by (cases r) (auto simp: write_encoded_def with_db_def)
  from inv stage obtain t where L: "live c dec True False (insert pid (asked s)) (asked s) ?d" "\<not> b"
    and t: "dec buf = Some t" "insert pid (asked s) \<subseteq> ids t"
    using view_tables(1) [of s c] C by (auto simp: node_inv_def stage_inv_def)
  note W = write_encoded_kept [OF L(1) t w]
  have k: "cfg (fs_store (pay_db ?k)) = c" using W(1) by (simp add: on_record_def)
  note P = put_tables [OF k, of s] C
  show ?thesis using W P k L(2) by (simp add: node_inv_def stage_inv_def u) (simp add: asked_def)
qed

lemma offer_ask_keeps:
  assumes inv: "node_inv c dec b s" "running s" and st: "enabled_step s OfferAsk = Some u"
  shows "node_inv c dec b u"
proof -
  note C = node_inv_cfg [OF inv(1)]
  from st obtain env offer pid amt where stage: "offer_stage s = Written env offer pid amt"
    by (auto split: offer_stage.splits)
  obtain r k where a: "ask_for_offer env offer pid amt (cli_view s) = (r, k)" by fastforce
  have u: "u = (put_cli k s)\<lparr>offer_stage := Idle\<rparr>" using st stage a by simp
  have kk: "pay_db k = pay_db (cli_view s)" "paid_ids (requests k) = insert pid (asked s)"
    using a by (auto simp: ask_for_offer_def bind_st_def request_def done_st_def return_st_def sayln_def say_def
        asked_def cli_view_def split: option.splits)
  have L: "live c dec True False (insert pid (asked s)) (insert pid (asked s)) (pay_db k)" "\<not> b"
    using inv stage view_tables(1) [of s c] C by (simp_all add: node_inv_def stage_inv_def kk)
  have kc: "cfg (fs_store (pay_db k)) = c" using C by (simp add: kk cli_view_def)
  note P = put_tables [OF kc, of s] C
  show ?thesis using L P kc kk(2) live_on_record [OF L(1)] by (simp add: node_inv_def stage_inv_def u)
qed

text \<open>All of them.\<close>

lemma node_step_keeps:
  assumes dec: "\<And>t. dec (e t) = Some t" and inv: "node_inv c dec b s" and own: "own_action c e a"
    and offers: "b \<longrightarrow> \<not> is_offer_action a" and st: "node_step s a = Some u"
  shows "node_inv c dec b u"
proof -
  have run: "running s" and en: "enabled_step s a = Some u" using st by (auto simp: node_step_def split: if_splits)
  show ?thesis
  proof (cases a)
    case (Event env ev)
    then show ?thesis using event_keeps [OF dec inv run] own en by (auto split: prod.splits)
  next
    case (Command fuel env line rest)
    then show ?thesis using command_keeps [OF dec inv run] own en by blast
  next
    case (Background by_shell k buf)
    then show ?thesis using background_keeps [OF inv run] own en by blast
  next
    case (OfferInsert env offer amt)
    then show ?thesis using offer_insert_keeps [OF inv run] offers en by simp
  next
    case (OfferEncode encode)
    then show ?thesis using offer_encode_keeps [OF dec inv run] own en by simp
  next
    case OfferWrite
    then show ?thesis using offer_write_keeps [OF inv run] en by simp
  next
    case OfferAsk
    then show ?thesis using offer_ask_keeps [OF inv run] en by simp
  qed
qed

lemma reaches_keeps:
  assumes "reaches allowed s t" "node_inv c dec b s" "\<And>t. dec (e t) = Some t"
    and "\<And>a. allowed a \<Longrightarrow> own_action c e a \<and> (b \<longrightarrow> \<not> is_offer_action a)"
  shows "node_inv c dec b t"
  using assms
proof (induction rule: reaches.induct)
  case (reaches_step s t a u)
  then have "node_inv c dec b t" "own_action c e a" "b \<longrightarrow> \<not> is_offer_action a" by blast+
  from node_step_keeps [OF reaches_step.prems(2) this reaches_step.hyps(3)] show ?case .
qed

end
