(* ===== verification/Runtime_Props.thy ===== *)
theory Runtime_Props imports Runtime begin

text \<open>
  What the interleaved tasks guarantee: payments the library was asked to send are not forgotten,
  the tables stay maps and match their files, and the one command whose parts can be interleaved
  loses the outcome of a payment.
\<close>

section \<open>From a start\<close>

text \<open>A node that has loaded its tables and not yet done anything.\<close>

definition started :: "config \<Rightarrow> (bytes \<Rightarrow> payments option) \<Rightarrow> runtime \<Rightarrow> bool" where
  "started c dec s \<longleftrightarrow>
     in_sync dec (tables s) \<and> cfg (fs_store (tables s)) = c \<and> cfg (fs_store (pay_db (shell s))) = c \<and>
     is_map (inbound_payments (tables s)) \<and> is_map (outbound_payments (tables s)) \<and>
     offer_stage s = Idle \<and> requests (shell s) = []"

lemma started_inv: "started c dec s \<Longrightarrow> node_inv c dec b s"
  by (auto simp: started_def node_inv_def stage_inv_def asked_def live_def on_record_def in_sync_def on_file_def)

lemma reach_inv:
  assumes "\<And>t. dec (e t) = Some t" "started c dec s" "reaches (own_action c e) s t"
  shows "node_inv c dec False t"
  using reaches_keeps [OF assms(3) started_inv [OF assms(2)] assms(1)] by blast

text \<open>A restart on a readable disk has every id that is in the file.\<close>

lemma load_outbound:
  assumes inv: "store_inv s" and nf: "faults (dsk s) = []" and load: "load_payments e dec recent s = (r, d)"
    and b: "kv_get s (table_key OUTBOUND_PAYMENTS_FNAME) = Some b" "dec b = Some t"
  shows "outbound_payments d = fail_forgotten recent t"
proof -
  let ?p = "\<lambda>f. data_dir (cfg s) @ [f]"
  obtain ib s1 where r1: "read_payment_info dec (?p INBOUND_PAYMENTS_FNAME) s = (ib, s1)" by fastforce
  have s1: "faults (dsk s1) = []"
    using r1 nf
    by (auto simp: read_payment_info_def on_disk_def sys_def next_fault_def perform_def
        split: prod.splits outcome.splits option.splits)
  have g1: "kv_get s1 = kv_get s" "cfg s1 = cfg s"
    using read_payment_info_state [OF r1] same_cur_get [of s1 s] by simp_all
  obtain ob' s2 where r2: "read_payment_info dec (?p OUTBOUND_PAYMENTS_FNAME) s1 = (ob', s2)" by fastforce
  have "ob' = t"
    using read_payment_info_value(1) [where dec = dec, OF s1 _ b(2), of OUTBOUND_PAYMENTS_FNAME] g1 r2 b(1) by simp
  moreover note U = load_payments_unfold [OF r1 r2]
  note persist_payments_cases(3) [OF U(2) [OF inv], of e OUTBOUND_PAYMENTS_FNAME "fail_forgotten recent ob'" "fail_forgotten recent ob'" r d]
  ultimately show ?thesis using load U(1) by (simp add: persist_outbound_def)
qed

lemma load_stored_ids:
  assumes "store_inv s" "faults (dsk s) = []" "load_payments e dec recent s = (r, d)"
  shows "stored_ids dec \<lparr>inbound_payments = i, outbound_payments = ob, fs_store = s\<rparr> \<subseteq> ids (outbound_payments d)"
  using load_outbound [OF assms] by (auto simp: stored_ids_def file_of_def split: option.splits)

section \<open>Samples\<close>

definition sample_runtime :: runtime where
  "sample_runtime = \<lparr>node = \<lparr>db = stored_db, stdout = [], calls = []\<rparr>, shell = sample_cli [],
     offer_stage = Idle, running = True\<rparr>"

definition paying_shell :: shell_env where
  "paying_shell = sample_shell\<lparr>base := (sample_cli_env (\<lambda>c. None))\<lparr>parse_invoice := (\<lambda>s. Ok (sample_invoice (Some 5)))\<rparr>\<rparr>"

lemma sample_runtime_started: "started sample_cfg table_dec sample_runtime"
  using stored_db_facts stored_db_sync
  by (simp add: started_def sample_runtime_def sample_cli_def sample_store_def store_new_def is_map_def sample_db_def)

lemma sample_actions:
  "own_action sample_cfg table_enc (Command 9 paying_shell ''sendpayment lnbc1'' [])"
  "own_action sample_cfg table_enc (Event sample_env ev)"
  by (simp_all add: names_offer_def paying_shell_def sample_shell_def sample_cli_env_def peer_file_apart_def key_path.simps sample_cfg_def
      INBOUND_PAYMENTS_FNAME_def OUTBOUND_PAYMENTS_FNAME_def sample_env_def split: list.splits)

lemma sample_codec: "\<And>t. table_dec (table_enc t) = Some t"
  by (rule table_codec.dec_enc)

section \<open>Properties\<close>

text \<open>
  The same with offers, when the write of an offer overlaps no other write of the file: the entry of an
  offer is in the file before the library is asked.
\<close>

lemma asked_payments_stored:
  assumes "\<And>t. dec (e t) = Some t" "started c dec s" "reaches (own_action c e) s t"
    and "faults (dsk (fs_store (tables t))) = []"
    and "load_payments e2 dec recent (fs_store (tables t)) = (r, d)"
  shows "asked t \<subseteq> ids (outbound_payments d)"
proof -
  have "on_record c dec (asked t) (tables t)"
    using reach_inv [OF assms(1-3)] by (simp add: node_inv_def)
  then have "store_inv (fs_store (tables t))" "asked t \<subseteq> stored_ids dec (tables t)"
    by (simp_all add: on_record_def db_inv_def)
  with load_stored_ids [OF this(1) assms(4,5), of "inbound_payments (tables t)" "outbound_payments (tables t)"]
  show ?thesis by (simp add: stored_ids_def file_of_def)
qed

text \<open>
  C5. No payment is forgotten. While no offer is paid, whatever events, commands and background writes
  come and in whatever order, and also when a panic or the end of the command loop has ended the process,
  each payment that the library was asked to send, by an invoice or a keysend, is in the outbound table of
  the next start, when that start can read its files. Every write of the table is then under its mutex;
  the writes of offers are not, and can lose one (\<open>offer_race_loses_proof\<close>, \<open>two_stores_lose_value\<close>).
\<close>

theorem sent_payments_survive:
  assumes "\<And>t. dec (e t) = Some t" "started c dec s"
    and "reaches (\<lambda>a. own_action c e a \<and> \<not> is_offer_action a) s t"
    and "faults (dsk (fs_store (tables t))) = []"
    and "load_payments e2 dec recent (fs_store (tables t)) = (r, d)"
  shows "paid_ids (requests (shell t)) \<subseteq> ids (outbound_payments d)"
proof -
  have "reaches (own_action c e) s t" by (rule reaches_mono [OF assms(3)]) simp
  from asked_payments_stored [OF assms(1,2) this assms(4,5)] show ?thesis by (simp add: asked_def)
qed

theorem sent_payments_survive_witness:
  "case run_actions sample_runtime [Command 9 paying_shell ''sendpayment lnbc1'' [], Event sample_env (PaymentFailed None None [1])] of
     None \<Rightarrow> False
   | Some t \<Rightarrow> requests (shell t) = [SendPayment [9] [9]] \<and>
       [9] \<in> ids (outbound_payments (snd (load_payments table_enc table_dec [] (fs_store (tables t)))))"
proof -
  let ?as = "[Command 9 paying_shell ''sendpayment lnbc1'' [], Event sample_env (PaymentFailed None None [1])]"
  define t where "t = the (run_actions sample_runtime ?as)"
  have some: "run_actions sample_runtime ?as \<noteq> None" by code_simp
  then have t: "run_actions sample_runtime ?as = Some t" by (simp add: t_def)
  have req: "requests (shell t) = [SendPayment [9] [9]]" unfolding t_def by code_simp
  have nf: "faults (dsk (fs_store (tables t))) = []" unfolding t_def by code_simp
  have r: "reaches (\<lambda>a. own_action sample_cfg table_enc a \<and> \<not> is_offer_action a) sample_runtime t"
    by (rule run_actions_reaches [OF t]) (simp add: sample_actions del: own_action.simps)
  have "paid_ids (requests (shell t)) \<subseteq>
      ids (outbound_payments (snd (load_payments table_enc table_dec [] (fs_store (tables t)))))"
    by (rule sent_payments_survive [OF sample_codec sample_runtime_started r nf surjective_pairing])
  then show ?thesis using t req paid_ids_append(2) [of "[]"] by simp
qed

text \<open>
  C37. The payment tables stay maps. In every state of a running node, after any interleaving of events,
  commands, background writes and parts of offers, neither table has an id twice, the ids of all sent
  payments are in the outbound one, and the file of the inbound table decodes to it.
\<close>

theorem tables_stay_maps:
  assumes "\<And>t. dec (e t) = Some t" "started c dec s" "reaches (own_action c e) s t" "running t"
  shows "is_map (inbound_payments (tables t)) \<and> is_map (outbound_payments (tables t)) \<and>
    paid_ids (requests (shell t)) \<subseteq> ids (outbound_payments (tables t)) \<and>
    on_file dec (tables t) INBOUND_PAYMENTS_FNAME (inbound_payments (tables t))"
  using reach_inv [OF assms(1-3)] assms(4) stage_inv_live [of c dec False t]
  by (auto simp: node_inv_def live_def asked_def)

theorem tables_stay_maps_witness:
  "case run_actions sample_runtime [Event sample_env (PaymentClaimed [9] (SpontaneousPayment [3]) 5),
       Event sample_env (PaymentClaimed [9] (SpontaneousPayment [3]) 5)] of
     None \<Rightarrow> False
   | Some t \<Rightarrow> is_map (inbound_payments (tables t)) \<and> [9] \<in> ids (inbound_payments (tables t))"
proof -
  let ?as = "[Event sample_env (PaymentClaimed [9] (SpontaneousPayment [3]) 5),
    Event sample_env (PaymentClaimed [9] (SpontaneousPayment [3]) 5)]"
  define t where "t = the (run_actions sample_runtime ?as)"
  have some: "run_actions sample_runtime ?as \<noteq> None" by code_simp
  then have t: "run_actions sample_runtime ?as = Some t" by (simp add: t_def)
  have run: "running t" and m: "map_of (inbound_payments (tables t)) [9] \<noteq> None" unfolding t_def by code_simp+
  have r: "reaches (own_action sample_cfg table_enc) sample_runtime t"
    by (rule run_actions_reaches [OF t]) (simp add: sample_actions del: own_action.simps)
  from tables_stay_maps [OF sample_codec sample_runtime_started r run] m show ?thesis
    using t by (simp add: ids_iff)
qed

text \<open>
  C10. Without offers, memory and disk agree at every step: in every state of a running node, the files
  of both tables decode to the tables, so a restart loses nothing of them.
\<close>

theorem tables_match_files:
  assumes "\<And>t. dec (e t) = Some t" "started c dec s" "running t"
    and "reaches (\<lambda>a. own_action c e a \<and> \<not> is_offer_action a) s t"
  shows "in_sync dec (tables t)"
proof -
  have inv: "node_inv c dec True t"
    by (rule reaches_keeps [OF assms(4) started_inv [OF assms(2)] assms(1)]) blast
  then have "live c dec True True (asked t) (asked t) (tables t)"
    using assms(3) by (auto simp: node_inv_def stage_inv_def split: offer_stage.splits)
  then show ?thesis by (simp add: live_def on_record_def in_sync_def)
qed

theorem tables_match_files_witness:
  "case run_actions sample_runtime [Command 9 paying_shell ''sendpayment lnbc1'' [],
       Event sample_env (PaymentSent [7] [8] None (Some [9]))] of
     None \<Rightarrow> False
   | Some t \<Rightarrow> in_sync table_dec (tables t) \<and>
       map_of (outbound_payments (tables t)) [9] =
         Some \<lparr>preimage = Some [7], secret = Some [4], status = Succeeded, amt_msat = Some 5\<rparr>"
proof -
  let ?as = "[Command 9 paying_shell ''sendpayment lnbc1'' [], Event sample_env (PaymentSent [7] [8] None (Some [9]))]"
  define t where "t = the (run_actions sample_runtime ?as)"
  have some: "run_actions sample_runtime ?as \<noteq> None" by code_simp
  then have t: "run_actions sample_runtime ?as = Some t" by (simp add: t_def)
  have run: "running t" and m: "map_of (outbound_payments (tables t)) [9] =
      Some \<lparr>preimage = Some [7], secret = Some [4], status = Succeeded, amt_msat = Some 5\<rparr>"
    unfolding t_def by code_simp+
  have r: "reaches (\<lambda>a. own_action sample_cfg table_enc a \<and> \<not> is_offer_action a) sample_runtime t"
    by (rule run_actions_reaches [OF t]) (simp add: sample_actions del: own_action.simps)
  from tables_match_files [OF sample_codec sample_runtime_started run r] show ?thesis using t m by simp
qed

lemma run_actions_append:
  "run_actions s as = Some t \<Longrightarrow> run_actions s (as @ bs) = run_actions t bs"
  by (induction as arbitrary: s) (auto split: option.splits)

lemma cli_view_put [simp]: "cli_view (put_cli k s) = k" "put_cli k (put_cli k' s) = put_cli k s"
  "cli_view (s\<lparr>offer_stage := x\<rparr>) = cli_view s" "put_cli k (s\<lparr>offer_stage := x\<rparr>) = (put_cli k s)\<lparr>offer_stage := x\<rparr>"
  "running (put_cli k s) = running s" "outbound_payments (tables (put_cli k s)) = outbound_payments (pay_db k)"
  "cli_view (s\<lparr>running := y\<rparr>) = cli_view s" "put_cli k (s\<lparr>running := y\<rparr>) = (put_cli k s)\<lparr>running := y\<rparr>"
  by (simp_all add: cli_view_def put_cli_def)

text \<open>
  C11. A race loses the outcome of a payment. While an offer is being paid, the table is encoded under its
  mutex but written after the mutex was released. An event between the two that records a payment as
  succeeded, with its proof, is written and then overwritten by the older encoding: memory still has
  the proof, the file does not, and the next start, when the library has forgotten the settled payment,
  lists it as failed.
\<close>

theorem offer_race_loses_proof:
  assumes dec: "\<And>t. dec (e t) = Some t" and st: "started c dec s"
    and old: "map_of (outbound_payments (tables s)) pid = Some p" "status p = Pending" "pid \<noteq> random_bytes env"
    and run: "run_actions s [OfferInsert env offer amt, OfferEncode e,
      Event env2 (PaymentSent pre hash fee (Some pid)), OfferWrite] = Some t" "running t" "enc env2 = e"
    and nf: "faults (dsk (fs_store (tables t))) = []"
    and load: "load_payments e2 dec recent (fs_store (tables t)) = (r, d)" "pid \<notin> set recent"
  shows "map_of (outbound_payments (tables t)) pid = Some (p\<lparr>preimage := Some pre, status := Succeeded\<rparr>) \<and>
    map_of (outbound_payments d) pid = Some (p\<lparr>status := Failed\<rparr>)"
proof -
  let ?i = "random_bytes env" and ?ob = "outbound_payments (tables s)"
  let ?t1 = "AList.update ?i (offer_info amt) ?ob"
  let ?k1 = "(cli_view s)\<lparr>pay_db := (pay_db (cli_view s))\<lparr>outbound_payments := ?t1\<rparr>\<rparr>"
  let ?s2 = "(put_cli ?k1 s)\<lparr>offer_stage := Encoded env offer ?i amt (e ?t1)\<rparr>"
  have ob: "outbound_payments (pay_db (cli_view s)) = ?ob" by (simp add: cli_view_def)
  have running: "running s" and idle: "offer_stage s = Idle"
    using run(1) st by (auto simp: node_step_def started_def split: if_splits option.splits)
  have s2: "run_actions s [OfferInsert env offer amt, OfferEncode e] = Some ?s2"
    using running idle
    by (simp add: node_step_def with_db_def insert_outbound_def ob)
  obtain r3 n3 where h: "handle_ldk_events env2 (PaymentSent pre hash fee (Some pid)) (node ?s2) = (r3, n3)"
    by fastforce
  let ?s3 = "?s2\<lparr>node := n3\<rparr>" and ?d = "pay_db (cli_view (?s2\<lparr>node := n3\<rparr>))"
  have rest: "run_actions ?s2 [Event env2 (PaymentSent pre hash fee (Some pid)), OfferWrite] = Some t"
    using run(1) run_actions_append [OF s2, of "[Event env2 (PaymentSent pre hash fee (Some pid)), OfferWrite]"]
    by (simp only: append.simps)
  obtain r4 kv where w: "kv_write [] [] OUTBOUND_PAYMENTS_FNAME (e ?t1) (fs_store ?d) = (r4, kv)" by fastforce
  let ?k = "(cli_view ?s3)\<lparr>pay_db := ?d\<lparr>fs_store := kv\<rparr>\<rparr>"
  have r3: "r3 = Ok ()" and t: "t = (put_cli ?k ?s3)\<lparr>offer_stage := Written env offer ?i amt, running := (r4 = Ok ())\<rparr>"
    using rest h w running
    by (cases r4; auto simp: node_step_def write_encoded_def with_db_def split: if_splits)+
  have r4: "r4 = Ok ()" using run(2) t by simp
  have inv2: "node_inv c dec False ?s2"
    by (rule reach_inv [OF dec st run_actions_reaches [OF s2]]) simp_all
  have dbinv: "db_inv (tables ?s2)" using inv2 by (simp add: node_inv_def on_record_def)
  have inv3: "node_inv c dec False (?s3\<lparr>running := True\<rparr>)"
    using event_keeps [OF dec inv2 _ run(3) h] running r3 by simp
  note E = event_effect [OF dbinv h]
  have mem: "outbound_payments (tables t) = next_outbound (PaymentSent pre hash fee (Some pid)) ?t1"
    using E r3 by (simp add: t cli_view_def)
  have p: "persist_payments (\<lambda>x. e ?t1) OUTBOUND_PAYMENTS_FNAME ?t1 ?d = (Ok (), ?d\<lparr>fs_store := kv\<rparr>)"
    using w r4 by (simp add: persist_payments_def)
  have inv_d: "db_inv ?d"
    using inv3 by (auto simp: node_inv_def on_record_def db_inv_def store_inv_def cli_view_def)
  note P = persist_payments_cases [OF inv_d p] persist_cfg [OF p inv_d]
  have same: "store_inv (fs_store (tables t)) = store_inv kv" "kv_get (fs_store (tables t)) = kv_get kv"
    using same_cur_get [of "fs_store (tables t)" kv] P(7) node_inv_cfg [OF inv3] by (simp_all add: t put_cli_def cli_view_def)
  have "store_inv (fs_store (tables t))" "kv_get (fs_store (tables t)) (table_key OUTBOUND_PAYMENTS_FNAME) = Some (e ?t1)"
    using P(1) P(5) by (simp_all add: same db_inv_def file_of_def fun_eq_iff)
  from load_outbound [OF this(1) nf load(1) this(2) dec] mem old load(2) show ?thesis
    by (simp add: alist_simps)
qed

theorem offer_race_loses_proof_witness:
  "case run_actions sample_runtime [OfferInsert (sample_cli_env (\<lambda>c. None)) [7] 5, OfferEncode table_enc,
       Event sample_env (PaymentSent [7] [8] None (Some [1])), OfferWrite] of
     None \<Rightarrow> False
   | Some t \<Rightarrow>
       map_of (outbound_payments (tables t)) [1] =
         Some \<lparr>preimage = Some [7], secret = None, status = Succeeded, amt_msat = Some 10\<rparr> \<and>
       map_of (outbound_payments (snd (load_payments table_enc table_dec [] (fs_store (tables t))))) [1] =
         Some \<lparr>preimage = None, secret = None, status = Failed, amt_msat = Some 10\<rparr>"
proof -
  let ?as = "[OfferInsert (sample_cli_env (\<lambda>c. None)) [7] 5, OfferEncode table_enc,
       Event sample_env (PaymentSent [7] [8] None (Some [1])), OfferWrite]"
  let ?p = "\<lparr>preimage = None, secret = None, status = Pending, amt_msat = Some 10\<rparr>"
  define t where "t = the (run_actions sample_runtime ?as)"
  have some: "run_actions sample_runtime ?as \<noteq> None" by code_simp
  then have t: "run_actions sample_runtime ?as = Some t" by (simp add: t_def)
  have run: "running t" and nf: "faults (dsk (fs_store (tables t))) = []" unfolding t_def by code_simp+
  have old: "map_of (outbound_payments (tables sample_runtime)) [1] = Some ?p" "status ?p = Pending"
    "[1] \<noteq> random_bytes (sample_cli_env (\<lambda>c. None))"
    using stored_db_facts(4) by (simp_all add: sample_runtime_def sample_db_def sample_cli_env_def)
  have e: "enc sample_env = table_enc" by (simp add: sample_env_def)
  from offer_race_loses_proof [OF sample_codec sample_runtime_started old t run e nf surjective_pairing, of "[]"]
  show ?thesis using t by simp
qed

text \<open>
  Apart from that race, the four parts are the command: with nothing between them, a payment of an
  offer that returns ends in the same state as the parts one after the other.
\<close>

theorem pay_offer_in_parts:
  assumes "running s" "offer_stage s = Idle" "pay_offer env offer amt (cli_view s) = (Ok (), k)"
  shows "run_actions s [OfferInsert env offer amt, OfferEncode (cenc env), OfferWrite, OfferAsk] = Some (put_cli k s)"
proof -
  have same: "(put_cli k s)\<lparr>offer_stage := Idle\<rparr> = put_cli k s" "s\<lparr>running := True\<rparr> = s"
    "(put_cli k s)\<lparr>offer_stage := Idle, running := True\<rparr> = put_cli k s" for k
    using assms(1,2) by (cases s; simp add: put_cli_def)+
  show ?thesis
    using assms same
    by (auto simp: node_step_def pay_offer_def Let_def offer_info_def [symmetric] with_db_def insert_outbound_def
        persist_outbound_def persist_payments_def write_encoded_def ask_for_offer_def bind_st_def
        split: prod.splits outcome.splits option.splits)
qed

theorem pay_offer_in_parts_witness:
  "run_actions sample_runtime [OfferInsert (sample_cli_env (\<lambda>c. None)) [7] 5, OfferEncode table_enc, OfferWrite, OfferAsk] =
     Some (put_cli (snd (pay_offer (sample_cli_env (\<lambda>c. None)) [7] 5 (cli_view sample_runtime))) sample_runtime)"
proof -
  have "pay_offer (sample_cli_env (\<lambda>c. None)) [7] 5 (cli_view sample_runtime) =
      (Ok (), snd (pay_offer (sample_cli_env (\<lambda>c. None)) [7] 5 (cli_view sample_runtime)))"
    by (rule prod_eqI) (simp_all, code_simp)
  from pay_offer_in_parts [OF _ _ this] show ?thesis by (simp add: sample_runtime_def sample_cli_env_def)
qed

end
