(* ===== verification/Args.thy ===== *)
theory Args imports Rust_Str begin

text \<open>
  \<open>src/src/args.rs\<close>: the command line of the node. The process environment (arguments,
  variables, home directory, files) is the record \<open>os_env\<close>; the parser of socket addresses
  is the library's. A computation changes what is printed and nothing else. The paths are those of
  Linux.
\<close>

section \<open>Environment and result\<close>

datatype bitcoin_network = Bitcoin | Testnet | Regtest | Signet

record os_env =
  argv :: "string list"
  env_var :: "string \<Rightarrow> string option"
  home_dir :: "string option"
  read_to_string :: "string \<Rightarrow> string option"
  socket_address :: "string \<Rightarrow> string option"

record ldk_user_info =
  bitcoind_rpc_username :: string
  bitcoind_rpc_password :: string
  bitcoind_rpc_port :: u16
  bitcoind_rpc_host :: string
  ldk_storage_dir_path :: string
  ldk_peer_listening_port :: u16
  ldk_announced_listen_addr :: "string list"
  ldk_announced_node_name :: bytes
  node_network :: bitcoin_network

type_synonym 'a args = "(string, unit, 'a) st"

definition println_args :: "string \<Rightarrow> unit args" where
  "println_args t out = (Ok (), out @ t @ [CHR 0x0A])"

text \<open>\<open>env::args().skip(n).next()\<close>.\<close>

definition arg :: "os_env \<Rightarrow> nat \<Rightarrow> string option" where
  "arg env n = (if n < length (argv env) then Some (argv env ! n) else None)"

text \<open>A name copied into an array of 32 bytes.\<close>

definition name_bytes :: "string \<Rightarrow> bytes" where
  "name_bytes s = as_bytes s @ replicate (32 - length s) 0"

text \<open>A parser's result with the error dropped.\<close>

definition ok_or_unit :: "'a option \<Rightarrow> (unit, 'a) outcome" where
  "ok_or_unit x = (case x of Some a \<Rightarrow> Ok a | None \<Rightarrow> Err ())"

definition get_config_info :: "os_env \<Rightarrow> (unit, ldk_user_info) outcome" where
  "get_config_info env =
     bind_out (unwrap_res (ok_or_unit (socket_address env ''0.0.0.0:9733''))) (\<lambda>listen_addr. Ok
       \<lparr>bitcoind_rpc_username = ''polaruser'',
        bitcoind_rpc_password = ''polarpass'',
        bitcoind_rpc_port = 80,
        bitcoind_rpc_host = ''lightning.ngrok.app'',
        ldk_storage_dir_path = ''./'',
        ldk_peer_listening_port = 9733,
        ldk_announced_listen_addr = [listen_addr],
        ldk_announced_node_name = name_bytes ''Programming Lightning Workshop'',
        node_network = Regtest\<rparr>)"

section \<open>Credentials\<close>

definition DEFAULT_BITCOIN_DATADIR :: string where
  "DEFAULT_BITCOIN_DATADIR = ''.bitcoin''"

definition BITCOIND_RPC_USER_KEY :: string where
  "BITCOIND_RPC_USER_KEY = ''RPC_USER''"

definition BITCOIND_RPC_PASSWORD_KEY :: string where
  "BITCOIND_RPC_PASSWORD_KEY = ''RPC_PASSWORD''"

fun print_all :: "string list \<Rightarrow> unit args" where
  "print_all [] = return_st ()"
| "print_all (l # ls) = bind_st (println_args l) (\<lambda>_. print_all ls)"

definition print_rpc_auth_help :: "os_env \<Rightarrow> unit args" where
  "print_rpc_auth_help env =
     (let home = map (\<lambda>c. if c = CHR 0x5C then CHR ''/'' else c)
            (case home_dir env of Some p \<Rightarrow> p | None \<Rightarrow> ''$HOME'');
          data_dir = home @ ''/'' @ DEFAULT_BITCOIN_DATADIR
      in print_all
        [''To provide the bitcoind RPC username and password, you can either:'',
         ''1. Provide the username and password as the first argument to this program in the format: '' @
         ''<bitcoind-rpc-username>:<bitcoind-rpc-password>@<bitcoind-rpc-host>:<bitcoind-rpc-port>'',
         ''2. Provide <bitcoind-rpc-username>:<bitcoind-rpc-password> in a .cookie file in the default '' @
         ''bitcoind data directory (automatically created by bitcoind on startup): `'' @ data_dir @ ''`'',
         ''3. Set the '' @ BITCOIND_RPC_USER_KEY @ '' and '' @ BITCOIND_RPC_PASSWORD_KEY @ '' environment variables'',
         ''4. Provide '' @ BITCOIND_RPC_USER_KEY @ '' and '' @ BITCOIND_RPC_PASSWORD_KEY @
         '' fields in a .env file in the current directory''])"

definition parse_rpc_auth :: "string \<Rightarrow> (string \<times> string) args" where
  "parse_rpc_auth rpc_auth =
     (case split_char CHR '':'' rpc_auth of
        [rpc_username, rpc_password] \<Rightarrow> return_st (rpc_username, rpc_password)
      | _ \<Rightarrow> bind_st (println_args ''ERROR: bad bitcoind RPC username/password combo provided'') (\<lambda>_.
             lift_st (Err ())))"

text \<open>\<open>Path::join\<close>: an absolute path replaces, and no second separator is added.\<close>

definition path_join :: "string \<Rightarrow> string \<Rightarrow> string" where
  "path_join a b =
     (if b \<noteq> [] \<and> hd b = CHR ''/'' then b
      else if a = [] \<or> last a = CHR ''/'' then a @ b
      else a @ ''/'' @ b)"

definition get_cookie_path ::
  "os_env \<Rightarrow> (string \<times> bool) option \<Rightarrow> bitcoin_network option \<Rightarrow> string option \<Rightarrow> (unit, string) outcome" where
  "get_cookie_path env data_dir network cookie_file_name =
     bind_out
       (case data_dir of
          Some (dir, True) \<Rightarrow> (case home_dir env of Some h \<Rightarrow> Ok (path_join h dir) | None \<Rightarrow> Err ())
        | Some (dir, False) \<Rightarrow> Ok dir
        | None \<Rightarrow> (case home_dir env of Some h \<Rightarrow> Ok (path_join h DEFAULT_BITCOIN_DATADIR) | None \<Rightarrow> Err ()))
       (\<lambda>data_dir_path.
        let data_dir_path_with_net = (case network of
              Some Testnet \<Rightarrow> path_join data_dir_path ''testnet3''
            | Some Regtest \<Rightarrow> path_join data_dir_path ''regtest''
            | Some Signet \<Rightarrow> path_join data_dir_path ''signet''
            | _ \<Rightarrow> data_dir_path)
        in Ok (path_join data_dir_path_with_net
             (case cookie_file_name of Some n \<Rightarrow> n | None \<Rightarrow> ''.cookie'')))"

definition get_rpc_auth_from_cookie ::
  "os_env \<Rightarrow> (string \<times> bool) option \<Rightarrow> bitcoin_network option \<Rightarrow> string option \<Rightarrow> (string \<times> string) args" where
  "get_rpc_auth_from_cookie env data_dir network cookie_file_name =
     bind_st (lift_st (get_cookie_path env data_dir network cookie_file_name)) (\<lambda>cookie_path.
     bind_st (lift_st (ok_or_unit (read_to_string env cookie_path))) (\<lambda>cookie_contents.
     parse_rpc_auth cookie_contents))"

definition get_rpc_auth_from_env_vars :: "os_env \<Rightarrow> (unit, string \<times> string) outcome" where
  "get_rpc_auth_from_env_vars env =
     (case (env_var env BITCOIND_RPC_USER_KEY, env_var env BITCOIND_RPC_PASSWORD_KEY) of
        (Some username, Some password) \<Rightarrow> Ok (username, password)
      | _ \<Rightarrow> Err ())"

fun collect_env :: "string list \<Rightarrow> (string \<times> string) list \<Rightarrow> (string \<times> string) list args" where
  "collect_env [] env_file_map = return_st env_file_map"
| "collect_env (line # ls) env_file_map =
     (case splitn2 CHR ''='' line of
        [k, v] \<Rightarrow> collect_env ls (AList.update k v env_file_map)
      | _ \<Rightarrow> bind_st (println_args ''ERROR: bad .env file format'') (\<lambda>_. lift_st (Err ())))"

definition parse_env_file :: "os_env \<Rightarrow> string option \<Rightarrow> (string \<times> string) list args" where
  "parse_env_file env env_file_name =
     bind_st (lift_st (ok_or_unit (read_to_string env
       (case env_file_name of Some filename \<Rightarrow> filename | None \<Rightarrow> ''.env'')))) (\<lambda>env_file_contents.
     collect_env (str_lines env_file_contents) [])"

definition get_rpc_auth_from_env_file :: "os_env \<Rightarrow> string option \<Rightarrow> (string \<times> string) args" where
  "get_rpc_auth_from_env_file env env_file_name =
     bind_st (parse_env_file env env_file_name) (\<lambda>env_file_map.
     case (map_of env_file_map BITCOIND_RPC_USER_KEY, map_of env_file_map BITCOIND_RPC_PASSWORD_KEY) of
       (Some username, Some password) \<Rightarrow> return_st (username, password)
     | _ \<Rightarrow> lift_st (Err ()))"

text \<open>
  \<open>a.or(b)\<close> on results: both sides are evaluated, in order, before the choice is made.
\<close>

definition or_st :: "'a args \<Rightarrow> 'a args \<Rightarrow> 'a args" where
  "or_st m n out =
     (case m out of
        (Panic p, out1) \<Rightarrow> (Panic p, out1)
      | (Ok a, out1) \<Rightarrow> (case n out1 of (Panic p, out2) \<Rightarrow> (Panic p, out2) | (_, out2) \<Rightarrow> (Ok a, out2))
      | (Err e, out1) \<Rightarrow> n out1)"

definition no_credentials :: "os_env \<Rightarrow> (string \<times> string) args" where
  "no_credentials env =
     bind_st (println_args ''ERROR: unable to get bitcoind RPC username and password'') (\<lambda>_.
     bind_st (print_rpc_auth_help env) (\<lambda>_. lift_st (Err ())))"

section \<open>The command line\<close>

definition parse_port_arg :: "string option \<Rightarrow> u16 \<times> bool" where
  "parse_port_arg a =
     (case a of
        Some p \<Rightarrow> (case parse_u16 p of Some port \<Rightarrow> (port, True) | None \<Rightarrow> (9735, False))
      | None \<Rightarrow> (9735, False))"

definition parse_network :: "string option \<Rightarrow> (unit, bitcoin_network) outcome" where
  "parse_network a =
     (case a of
        None \<Rightarrow> Ok Testnet
      | Some net \<Rightarrow>
          if net = ''testnet'' then Ok Testnet
          else if net = ''regtest'' then Ok Regtest
          else if net = ''signet'' then Ok Signet
          else Panic (''Unsupported network provided. Options are: `regtest`, `testnet`, and `signet`. Got '' @ net))"

definition rpc_auth :: "os_env \<Rightarrow> string list \<Rightarrow> bitcoin_network \<Rightarrow> (string \<times> string) args" where
  "rpc_auth env bitcoind_rpc_info_parts network =
     (if length bitcoind_rpc_info_parts = 1
      then or_st (or_st (or_st (lift_st (get_rpc_auth_from_env_vars env))
                               (get_rpc_auth_from_env_file env None))
                        (get_rpc_auth_from_cookie env None (Some network) None))
                 (no_credentials env)
      else if length bitcoind_rpc_info_parts = 2 then parse_rpc_auth (bitcoind_rpc_info_parts ! 1)
      else bind_st (println_args ''ERROR: bad bitcoind RPC URL provided'') (\<lambda>_. lift_st (Err ())))"

definition node_name :: "string option \<Rightarrow> (unit, bytes) outcome" where
  "node_name a =
     (case a of
        Some s \<Rightarrow> if length s > 32 then Panic ''Node Alias can not be longer than 32 bytes'' else Ok (name_bytes s)
      | None \<Rightarrow> Ok (replicate 32 0))"

fun listen_addrs :: "(string \<Rightarrow> string option) \<Rightarrow> string list \<Rightarrow> (unit, string list) outcome" where
  "listen_addrs from_str [] = Ok []"
| "listen_addrs from_str (s # ss) =
     (case from_str s of
        Some sa \<Rightarrow> bind_out (listen_addrs from_str ss) (\<lambda>sas. Ok (sa # sas))
      | None \<Rightarrow> Panic ''Failed to parse announced-listen-addr into a socket address'')"

definition parse_startup_args :: "os_env \<Rightarrow> ldk_user_info args" where
  "parse_startup_args env =
     (if arg env 1 = Some ''workshop'' then lift_st (get_config_info env)
      else if length (argv env) < 3
      then bind_st (println_args (''ldk-tutorial-node requires at least 2 arguments: `cargo run '' @
        ''[<bitcoind-rpc-username>:<bitcoind-rpc-password>@]<bitcoind-rpc-host>:<bitcoind-rpc-port> '' @
        ''ldk_storage_directory_path [<ldk-incoming-peer-listening-port>] [bitcoin-network] '' @
        ''[announced-node-name announced-listen-addr*]`'')) (\<lambda>_. lift_st (Err ()))
      else
        (let parts = rsplitn2 CHR ''@'' (argv env ! 1)
         in case split_char CHR '':'' (parts ! 0) of
              [host, port_str] \<Rightarrow>
                bind_st (lift_st (unwrap_res (ok_or_unit (parse_u16 port_str)))) (\<lambda>rpc_port.
                case parse_port_arg (arg env 3) of (peer_port, port_set) \<Rightarrow>
                let arg_idx = (if port_set then 4 else 3) in
                bind_st (lift_st (parse_network (arg env arg_idx))) (\<lambda>network.
                bind_st (rpc_auth env parts network) (\<lambda>(username, password).
                bind_st (lift_st (node_name (arg env (arg_idx + 1)))) (\<lambda>name.
                bind_st (lift_st (listen_addrs (socket_address env) (drop (arg_idx + 2) (argv env)))) (\<lambda>addrs.
                return_st
                  \<lparr>bitcoind_rpc_username = username,
                   bitcoind_rpc_password = password,
                   bitcoind_rpc_port = rpc_port,
                   bitcoind_rpc_host = host,
                   ldk_storage_dir_path = argv env ! 2,
                   ldk_peer_listening_port = peer_port,
                   ldk_announced_listen_addr = addrs,
                   ldk_announced_node_name = name,
                   node_network = network\<rparr>)))))
            | _ \<Rightarrow> bind_st (println_args ''ERROR: bad bitcoind RPC path provided'') (\<lambda>_. lift_st (Err ()))))"

end
