(* ===== verification/Args_Props.thy ===== *)
theory Args_Props imports Args begin

text \<open>
  What the command line means: a configuration written as arguments is read back, the sources of
  credentials are asked in order, and a listening port out of range ends the node.
\<close>

section \<open>Text of numbers\<close>

lemma digit_char_range: "d < 10 \<Longrightarrow> digit_char d \<notin> {CHR '':'', CHR ''@''}"
proof -
  assume "d < 10"
  then have "digit_val (digit_char d) = Some d" by simp
  moreover have "digit_val (CHR '':'') = None" "digit_val (CHR ''@'') = None" by code_simp+
  ultimately show ?thesis by auto
qed

lemma show_nat_no_sep: "CHR '':'' \<notin> set (show_nat n)" "CHR ''@'' \<notin> set (show_nat n)"
proof (induction n rule: less_induct)
  case (less n)
  have r: "digit_char (n mod 10) \<notin> {CHR '':'', CHR ''@''}" by (rule digit_char_range) simp
  { case 1
    from less(1) [of "n div 10"] r digit_char_range [of n] show ?case by (subst show_nat.simps) auto
  next
    case 2
    from less(2) [of "n div 10"] r digit_char_range [of n] show ?case by (subst show_nat.simps) auto }
qed

definition show_u16 :: "u16 \<Rightarrow> string" where
  "show_u16 w = show_nat (unat w)"

lemma parse_show_u16 [simp]: "parse_u16 (show_u16 w) = Some w"
  using unsigned_less [of w, where 'a = nat] by (simp add: parse_u16_def show_u16_def parse_show_nat)

interpretation u16_text: codec show_u16 parse_u16
  by unfold_locales (rule parse_show_u16)

lemma show_u16_no_sep: "CHR '':'' \<notin> set (show_u16 w)" "CHR ''@'' \<notin> set (show_u16 w)"
  by (simp_all add: show_u16_def show_nat_no_sep)

lemma digits_loop_value: "digits_loop mx acc s = Some m \<Longrightarrow> mx \<le> mx' \<Longrightarrow> digits_loop mx' acc s = Some m"
  by (induction mx acc s rule: digits_loop.induct) (auto split: option.splits if_splits)

lemma parse_u16_out_of_range: "65535 < n \<Longrightarrow> parse_u16 (show_nat n) = None"
proof (rule ccontr)
  assume n: "65535 < n" and "parse_u16 (show_nat n) \<noteq> None"
  then obtain m where m: "parse_uint 65535 (show_nat n) = Some m" by (auto simp: parse_u16_def)
  obtain d cs where s: "show_nat n = digit_char d # cs" "d < 10" using show_nat_hd [of n] by blast
  then have v: "digits_loop 65535 0 (show_nat n) = Some m"
    using m digit_char_not_plus [of d] by (simp del: digits_loop.simps split: if_splits)
  have "digits_loop n 0 (show_nat n) = Some m" by (rule digits_loop_value [OF v]) (use n in simp)
  moreover have "m \<le> 65535" by (rule digits_loop_bound [OF le0 v])
  ultimately show False using digits_loop_show [of n n] n by simp
qed

section \<open>The sources of credentials\<close>

text \<open>
  A source never panics, only appends to what is printed, and its result does not depend on what was
  printed before.
\<close>

definition source_like :: "'a args \<Rightarrow> bool" where
  "source_like m \<longleftrightarrow> (\<forall>out. m out = (fst (m []), out @ snd (m []))) \<and> \<not> is_panic (fst (m []))"

lemma source_likeD: "source_like m \<Longrightarrow> m out = (fst (m []), out @ snd (m []))"
  unfolding source_like_def by blast

lemma source_like_no_panic: "source_like m \<Longrightarrow> \<not> is_panic (fst (m []))"
  unfolding source_like_def by blast

lemma source_like_basic [simp]:
  "source_like (println_args t)" "source_like (return_st a)" "source_like (lift_st r) \<longleftrightarrow> \<not> is_panic r"
  by (simp_all add: source_like_def println_args_def return_st_def lift_st_def)

lemma source_like_bind:
  assumes "source_like m" "\<And>a. source_like (f a)"
  shows "source_like (bind_st m f)"
proof -
  have m: "m x = (fst (m []), x @ snd (m []))" for x using assms(1) by (rule source_likeD)
  have f: "f a x = (fst (f a []), x @ snd (f a []))" for a x using assms(2) by (rule source_likeD)
  have p: "\<not> is_panic (fst (m []))" "\<not> is_panic (fst (f a []))" for a
    using assms by (auto dest: source_like_no_panic)
  show ?thesis
  proof (cases "fst (m [])")
    case (Ok a)
    have "bind_st m f x = (fst (f a []), (x @ snd (m [])) @ snd (f a []))" for x
      unfolding bind_st_def by (subst m) (simp add: Ok f [of a "x @ snd (m [])"])
    then show ?thesis using p(2) [of a] by (simp add: source_like_def)
  next
    case (Err e)
    have "bind_st m f x = (Err e, x @ snd (m []))" for x
      unfolding bind_st_def by (subst m) (simp add: Err)
    then show ?thesis by (simp add: source_like_def)
  qed (use p in simp)
qed

lemma source_like_print_all [simp]: "source_like (print_all ls)"
  by (induction ls) (simp_all add: source_like_bind)

lemma source_like_collect_env [simp]: "source_like (collect_env ls m)"
  by (induction ls m rule: collect_env.induct) (auto simp: source_like_bind split: list.splits)

lemma source_like_parse_rpc_auth [simp]: "source_like (parse_rpc_auth a)"
  by (auto simp: parse_rpc_auth_def source_like_bind split: list.splits)

lemma no_panic_basic [simp]:
  "\<not> is_panic (ok_or_unit x)" "\<not> is_panic (get_cookie_path env d n c)"
  "\<not> is_panic (get_rpc_auth_from_env_vars env)"
  by (auto simp: ok_or_unit_def get_cookie_path_def get_rpc_auth_from_env_vars_def Let_def
      split: option.splits prod.splits bool.splits)

lemma source_like_sources [simp]:
  "source_like (get_rpc_auth_from_env_file env f)" "source_like (get_rpc_auth_from_cookie env d n c)"
  "source_like (print_rpc_auth_help env)" "source_like (no_credentials env)"
  by (auto simp: get_rpc_auth_from_env_file_def parse_env_file_def get_rpc_auth_from_cookie_def
      print_rpc_auth_help_def no_credentials_def Let_def intro!: source_like_bind
      split: option.splits)

lemma or_st_value:
  assumes "source_like m" "source_like n"
  shows "or_st m n out = (case fst (m []) of Ok a \<Rightarrow> Ok a | _ \<Rightarrow> fst (n []), out @ snd (m []) @ snd (n []))"
    and "source_like (or_st m n)"
proof -
  have p: "\<not> is_panic (fst (m []))" "\<not> is_panic (fst (n []))" using assms by (auto dest: source_like_no_panic)
  have v: "or_st m n x = (case fst (m []) of Ok a \<Rightarrow> Ok a | _ \<Rightarrow> fst (n []), x @ snd (m []) @ snd (n []))" for x
    using p
    by (cases "fst (m [])"; cases "fst (n [])")
      (simp_all add: or_st_def source_likeD [OF assms(1), of x] source_likeD [OF assms(2), of "x @ snd (m [])"])
  then show "or_st m n out = (case fst (m []) of Ok a \<Rightarrow> Ok a | _ \<Rightarrow> fst (n []), out @ snd (m []) @ snd (n []))" .
  show "source_like (or_st m n)" using v p by (simp add: source_like_def split: outcome.splits)
qed


section \<open>Properties\<close>

fun first_ok :: "('e, 'a) outcome list \<Rightarrow> ('e, 'a) outcome \<Rightarrow> ('e, 'a) outcome" where
  "first_ok [] r = r"
| "first_ok (Ok a # rs) r = Ok a"
| "first_ok (_ # rs) r = first_ok rs r"

text \<open>
  Without credentials on the command line they are taken from the environment variables, else
  from the file \<open>.env\<close>, else from bitcoind's cookie file of the network; the files are consulted
  even when the variables are set, and the message that no credentials were found is printed with its
  help even when they were.
\<close>

theorem auth_sources_in_order:
  "\<exists>t. rpc_auth env [host_port] net out =
     (first_ok [get_rpc_auth_from_env_vars env,
                fst (get_rpc_auth_from_env_file env None []),
                fst (get_rpc_auth_from_cookie env None (Some net) None [])] (Err ()),
      out @ t @ ''ERROR: unable to get bitcoind RPC username and password'' @ [CHR 0x0A] @
      snd (print_rpc_auth_help env []))"
proof -
  let ?file = "get_rpc_auth_from_env_file env None" and ?cookie = "get_rpc_auth_from_cookie env None (Some net) None"
  let ?m = "or_st (or_st (lift_st (get_rpc_auth_from_env_vars env)) ?file) ?cookie"
  have none: "fst (no_credentials env []) = Err ()"
    "snd (no_credentials env []) = ''ERROR: unable to get bitcoind RPC username and password'' @ [CHR 0x0A] @
       snd (print_rpc_auth_help env [])"
    using source_likeD [OF source_like_sources(3), of env "''ERROR: unable to get bitcoind RPC username and password'' @ [CHR 0x0A]"]
      source_like_no_panic [OF source_like_sources(3), of env]
    by (cases "fst (print_rpc_auth_help env [])";
        simp add: no_credentials_def bind_st_def println_args_def lift_st_def print_rpc_auth_help_def Let_def return_st_def)+
  have m: "fst (?m []) = first_ok [get_rpc_auth_from_env_vars env, fst (?file [])] (fst (?cookie []))"
    using source_like_no_panic [OF source_like_sources(1), of env None] no_panic_basic(3) [of env]
    by (cases "get_rpc_auth_from_env_vars env"; cases "fst (?file [])") (simp_all add: or_st_value lift_st_def)
  have "rpc_auth env [host_port] net out = (case fst (?m []) of Ok a \<Rightarrow> Ok a | _ \<Rightarrow> Err (),
      out @ snd (?m []) @ snd (no_credentials env []))"
    using or_st_value(1) [of ?m "no_credentials env" out, unfolded none(1)] by (simp add: rpc_auth_def or_st_value(2))
  moreover have "(case fst (?m []) of Ok a \<Rightarrow> Ok a | _ \<Rightarrow> Err ()) =
      first_ok [get_rpc_auth_from_env_vars env, fst (?file []), fst (?cookie [])] (Err ())"
    unfolding m
    using source_like_no_panic [OF source_like_sources(1), of env None] no_panic_basic(3) [of env]
      source_like_no_panic [OF source_like_sources(2), of env None "Some net" None]
    by (cases "get_rpc_auth_from_env_vars env"; cases "fst (?file [])"; cases "fst (?cookie [])") simp_all
  ultimately show ?thesis using none(2) by auto
qed

text \<open>A configuration as arguments.\<close>

fun network_arg :: "bitcoin_network \<Rightarrow> string" where
  "network_arg Bitcoin = ''bitcoin''"
| "network_arg Testnet = ''testnet''"
| "network_arg Regtest = ''regtest''"
| "network_arg Signet = ''signet''"

definition command_line :: "ldk_user_info \<Rightarrow> string \<Rightarrow> string list" where
  "command_line c name =
     [''node'', bitcoind_rpc_username c @ '':'' @ bitcoind_rpc_password c @ ''@'' @ bitcoind_rpc_host c @ '':'' @
        show_u16 (bitcoind_rpc_port c),
      ldk_storage_dir_path c, show_u16 (ldk_peer_listening_port c), network_arg (node_network c), name] @
     ldk_announced_listen_addr c"

lemma listen_addrs_parsed: "list_all (\<lambda>a. from_str a = Some a) as \<Longrightarrow> listen_addrs from_str as = Ok as"
  by (induction as) simp_all

lemma parse_network_arg: "n \<noteq> Bitcoin \<Longrightarrow> parse_network (Some (network_arg n)) = Ok n"
  by (cases n) (simp_all add: parse_network_def)

text \<open>
  C26. A configuration for a test network, written as command line arguments, is read back as it is,
  and nothing is printed: credentials without a colon (an at sign is allowed), a host without colon or
  at sign, an alias of at most 32 bytes, and addresses that the library parses.
\<close>

theorem command_line_round_trip:
  assumes "argv env = command_line c name" "node_network c \<noteq> Bitcoin"
    and "CHR '':'' \<notin> set (bitcoind_rpc_username c @ bitcoind_rpc_password c @ bitcoind_rpc_host c)"
    and "CHR ''@'' \<notin> set (bitcoind_rpc_host c)"
    and "length name \<le> 32" "ldk_announced_node_name c = name_bytes name"
    and "list_all (\<lambda>a. socket_address env a = Some a) (ldk_announced_listen_addr c)"
  shows "parse_startup_args env out = (Ok c, out)"
proof -
  let ?hp = "bitcoind_rpc_host c @ '':'' @ show_u16 (bitcoind_rpc_port c)"
  let ?auth = "bitcoind_rpc_username c @ '':'' @ bitcoind_rpc_password c"
  have a1: "argv env ! 1 = ?auth @ ''@'' @ ?hp" using assms(1) by (simp add: command_line_def)
  have parts: "rsplitn2 CHR ''@'' (argv env ! 1) = [?hp, ?auth]"
    unfolding a1 using rsplitn2_two assms(4) show_u16_no_sep by simp
  have hp: "split_char CHR '':'' ?hp = [bitcoind_rpc_host c, show_u16 (bitcoind_rpc_port c)]"
    and auth: "split_char CHR '':'' ?auth = [bitcoind_rpc_username c, bitcoind_rpc_password c]"
    using assms(3) show_u16_no_sep by (simp_all add: split_char_append split_char_no_sep)
  have not_workshop: "?auth @ ''@'' @ ?hp \<noteq> ''workshop''"
  proof
    assume "?auth @ ''@'' @ ?hp = ''workshop''"
    then have "CHR ''@'' \<in> set ''workshop''" by (metis in_set_conv_decomp append_Cons append_Nil)
    then show False by simp
  qed
  have args: "arg env 1 \<noteq> Some ''workshop''" "\<not> length (argv env) < 3"
    "arg env 3 = Some (show_u16 (ldk_peer_listening_port c))" "arg env 4 = Some (network_arg (node_network c))"
    "arg env 5 = Some name" "drop 6 (argv env) = ldk_announced_listen_addr c" "argv env ! 2 = ldk_storage_dir_path c"
    using assms(1) not_workshop a1 by (simp_all add: arg_def command_line_def)
  have creds: "rpc_auth env [?hp, ?auth] n out = (Ok (bitcoind_rpc_username c, bitcoind_rpc_password c), out)" for n
    using auth by (simp add: rpc_auth_def parse_rpc_auth_def return_st_def)
  show ?thesis
    unfolding parse_startup_args_def
    using args parts hp creds assms(2,5,6) listen_addrs_parsed [OF assms(7)] parse_network_arg [OF assms(2)]
    by (simp add: bind_st_def lift_st_def return_st_def ok_or_unit_def parse_port_arg_def node_name_def
        del: append.simps)
qed

definition sample_config :: ldk_user_info where
  "sample_config = \<lparr>bitcoind_rpc_username = ''us@er'', bitcoind_rpc_password = ''pass'', bitcoind_rpc_port = 18443,
     bitcoind_rpc_host = ''localhost'', ldk_storage_dir_path = ''dir'', ldk_peer_listening_port = 9735,
     ldk_announced_listen_addr = [''a''], ldk_announced_node_name = name_bytes ''nd'', node_network = Regtest\<rparr>"

definition sample_os :: "string list \<Rightarrow> os_env" where
  "sample_os args = \<lparr>argv = args, env_var = (\<lambda>v. None), home_dir = None, read_to_string = (\<lambda>p. None),
     socket_address = Some\<rparr>"

theorem command_line_round_trip_witness:
  "parse_startup_args (sample_os (command_line sample_config ''nd'')) [] = (Ok sample_config, [])"
  by (rule command_line_round_trip [where name = "''nd''"]) (simp_all add: sample_os_def sample_config_def)

text \<open>
  A listening port above 65535 is not reported as such: it is not a port, so it is taken for the
  name of the network, and the node panics.
\<close>

theorem port_out_of_range_panics:
  assumes "65535 < n" "argv env = prog # info # dir # show_nat n # more_args" "info \<noteq> ''workshop''"
    and "split_char CHR '':'' (rsplitn2 CHR ''@'' info ! 0) = [host, port]" "parse_u16 port = Some p"
  shows "parse_startup_args env out =
    (Panic (''Unsupported network provided. Options are: `regtest`, `testnet`, and `signet`. Got '' @ show_nat n), out)"
proof -
  obtain d cs where d: "show_nat n = digit_char d # cs" "d < 10" using show_nat_hd [of n] by blast
  have "digit_val (CHR ''t'') = None" "digit_val (CHR ''r'') = None" "digit_val (CHR ''s'') = None" by code_simp+
  then have "digit_char d \<notin> {CHR ''t'', CHR ''r'', CHR ''s''}" using digit_val_char [OF d(2)] by auto
  then have net: "show_nat n \<notin> {''testnet'', ''regtest'', ''signet''}" using d(1) by auto
  have "arg env 3 = Some (show_nat n)" "arg env 1 \<noteq> Some ''workshop''" "\<not> length (argv env) < 3" "argv env ! 1 = info"
    using assms(2,3) by (simp_all add: arg_def)
  then show ?thesis
    unfolding parse_startup_args_def
    using assms(4,5) net parse_u16_out_of_range [OF assms(1)]
    by (simp add: bind_st_def lift_st_def ok_or_unit_def parse_port_arg_def parse_network_def del: append.simps)
qed

theorem port_out_of_range_panics_witness:
  "is_panic (fst (parse_startup_args (sample_os [''node'', ''u:p@h:80'', ''dir'', show_nat 70000, ''regtest'']) []))"
proof -
  have s: "split_char CHR '':'' (rsplitn2 CHR ''@'' ''u:p@h:80'' ! 0) = [''h'', ''80'']"
    by code_simp
  have p: "parse_u16 ''80'' = Some 80" by (simp add: parse_u16_def digit_val_def)
  have "parse_startup_args (sample_os [''node'', ''u:p@h:80'', ''dir'', show_nat 70000, ''regtest'']) [] =
    (Panic (''Unsupported network provided. Options are: `regtest`, `testnet`, and `signet`. Got '' @ show_nat 70000), [])"
    by (rule port_out_of_range_panics [OF _ _ _ s p]) (simp_all add: sample_os_def)
  then show ?thesis by simp
qed

end
