(* ===== verification/Convert.thy ===== *)
theory Convert imports Bitcoind_Client Complex_Main begin

text \<open>
  \<open>src/src/convert.rs\<close>: the conversions of bitcoind's JSON answers. A JSON number is what
  \<open>serde_json\<close> keeps of it, an unsigned or a negative integer, or a double. A finite double is
  a sign, a mantissa and a power of two; its exponent is not bounded here, which makes no difference
  to the conversions: what would overflow saturates and what would underflow rounds to zero either way.
  The parsers of hashes, addresses and amounts are the \<open>bitcoin\<close> library's, given by
  \<open>bitcoin_parsers\<close>.
\<close>

section \<open>Doubles\<close>

datatype f64 = F64 (negative: bool) (mantissa: nat) (expo: int)

text \<open>How many bits a mantissa has beyond 53, and rounding them off to nearest, ties to even.\<close>

fun excess_bits :: "nat \<Rightarrow> nat" where
  "excess_bits m = (if m < 2 ^ 53 then 0 else Suc (excess_bits (m div 2)))"

declare excess_bits.simps [simp del]

definition round_half_even :: "nat \<Rightarrow> nat \<Rightarrow> nat" where
  "round_half_even m k =
     (let q = m div 2 ^ k; r = m mod 2 ^ k
      in if 2 * r < 2 ^ k \<or> 2 * r = 2 ^ k \<and> even q then q else Suc q)"

definition nearest :: "bool \<Rightarrow> nat \<Rightarrow> int \<Rightarrow> f64" where
  "nearest s m e = (let k = excess_bits m in F64 s (round_half_even m k) (e + int k))"

fun f64_times :: "f64 \<Rightarrow> nat \<Rightarrow> f64" where
  "f64_times (F64 s m e) n = nearest s (m * n) e"

fun f64_quarter :: "f64 \<Rightarrow> f64" where
  "f64_quarter (F64 s m e) = F64 s m (e - 2)"

text \<open>\<open>f64::round\<close>: to the nearest integer, half away from zero; \<open>as u32\<close> saturates.\<close>

definition round_magnitude :: "nat \<Rightarrow> int \<Rightarrow> nat" where
  "round_magnitude m e =
     (if e \<ge> 0 then m * 2 ^ nat e else (2 * m + 2 ^ nat (- e)) div (2 * 2 ^ nat (- e)))"

fun round_to_u32 :: "f64 \<Rightarrow> u32" where
  "round_to_u32 (F64 s m e) =
     (if s then 0 else if round_magnitude m e \<ge> 2 ^ 32 then - 1 else of_nat (round_magnitude m e))"

section \<open>JSON\<close>

datatype json_number = PosInt u64 | NegInt int | Float f64

datatype json =
    JNull
  | JBool bool
  | JNumber json_number
  | JString string
  | JArray "json list"
  | JObject "(string \<times> json) list"

text \<open>\<open>value["key"]\<close>: null when the key is missing or the value is no object.\<close>

fun json_get :: "json \<Rightarrow> string \<Rightarrow> json" where
  "json_get (JObject kvs) k = (case map_of kvs k of Some v \<Rightarrow> v | None \<Rightarrow> JNull)"
| "json_get _ k = JNull"

fun as_str :: "json \<Rightarrow> string option" where
  "as_str (JString s) = Some s"
| "as_str _ = None"

fun as_bool :: "json \<Rightarrow> bool option" where
  "as_bool (JBool b) = Some b"
| "as_bool _ = None"

fun as_array :: "json \<Rightarrow> json list option" where
  "as_array (JArray js) = Some js"
| "as_array _ = None"

fun as_u64 :: "json \<Rightarrow> u64 option" where
  "as_u64 (JNumber (PosInt n)) = Some n"
| "as_u64 _ = None"

fun as_i64 :: "json \<Rightarrow> int option" where
  "as_i64 (JNumber (PosInt n)) = (if unat n < 2 ^ 63 then Some (int (unat n)) else None)"
| "as_i64 (JNumber (NegInt i)) = Some i"
| "as_i64 _ = None"

fun as_f64 :: "json \<Rightarrow> f64 option" where
  "as_f64 (JNumber (PosInt n)) = Some (nearest False (unat n) 0)"
| "as_f64 (JNumber (NegInt i)) = Some (nearest True (nat (- i)) 0)"
| "as_f64 (JNumber (Float f)) = Some f"
| "as_f64 _ = None"

section \<open>The conversions\<close>

datatype convert_error = InvalidData string

type_synonym 'a converted = "(convert_error, 'a) outcome"

record funded_tx = changepos :: int  funded_hex :: string
record signed_tx = complete :: bool  signed_hex :: string
record fee_response = feerate_sat_per_kw :: "u32 option"  errored :: bool
record blockchain_info = latest_height :: nat  latest_blockhash :: bytes  chain :: string
record list_unspent_utxo = txid :: bytes  vout :: u32  amount :: u64  address :: string

record bitcoin_parsers =
  block_hash_from_str :: "string \<Rightarrow> bytes option"
  txid_from_str :: "string \<Rightarrow> bytes option"
  amount_from_btc :: "f64 \<Rightarrow> u64 option"
  address_from_str :: "string \<Rightarrow> string option"

definition try_into_funded_tx :: "json \<Rightarrow> funded_tx converted" where
  "try_into_funded_tx j =
     bind_out (unwrap_opt (as_i64 (json_get j ''changepos''))) (\<lambda>pos.
     bind_out (unwrap_opt (as_str (json_get j ''hex''))) (\<lambda>hx.
     Ok \<lparr>changepos = pos, funded_hex = hx\<rparr>))"

definition try_into_raw_tx :: "json \<Rightarrow> string converted" where
  "try_into_raw_tx j = unwrap_opt (as_str j)"

definition try_into_signed_tx :: "json \<Rightarrow> signed_tx converted" where
  "try_into_signed_tx j =
     bind_out (unwrap_opt (as_str (json_get j ''hex''))) (\<lambda>hx.
     bind_out (unwrap_opt (as_bool (json_get j ''complete''))) (\<lambda>c.
     Ok \<lparr>complete = c, signed_hex = hx\<rparr>))"

definition try_into_new_address :: "json \<Rightarrow> string converted" where
  "try_into_new_address j = unwrap_opt (as_str j)"

text \<open>BTC per kvB to satoshis per 1000 weight units.\<close>

definition sat_per_kw :: "f64 \<Rightarrow> u32" where
  "sat_per_kw feerate_btc_per_kvbyte = round_to_u32 (f64_quarter (f64_times feerate_btc_per_kvbyte 100000000))"

definition try_into_fee_response :: "json \<Rightarrow> fee_response converted" where
  "try_into_fee_response j =
     Ok \<lparr>feerate_sat_per_kw = map_option sat_per_kw (as_f64 (json_get j ''feerate'')),
         errored = (json_get j ''errors'' \<noteq> JNull)\<rparr>"

definition try_into_mempool_min_fee_response :: "json \<Rightarrow> fee_response converted" where
  "try_into_mempool_min_fee_response j =
     (if as_u64 (json_get j ''maxmempool'') \<noteq> Some 300000000
      then Panic ''assertion `left == right` failed''
      else Ok \<lparr>feerate_sat_per_kw = map_option sat_per_kw (as_f64 (json_get j ''mempoolminfee'')),
               errored = (json_get j ''errors'' \<noteq> JNull)\<rparr>)"

definition try_into_blockchain_info :: "bitcoin_parsers \<Rightarrow> json \<Rightarrow> blockchain_info converted" where
  "try_into_blockchain_info lib j =
     bind_out (unwrap_opt (as_u64 (json_get j ''blocks''))) (\<lambda>blocks.
     bind_out (unwrap_opt (as_str (json_get j ''bestblockhash''))) (\<lambda>best.
     bind_out (unwrap_opt (block_hash_from_str lib best)) (\<lambda>blockhash.
     bind_out (unwrap_opt (as_str (json_get j ''chain''))) (\<lambda>c.
     Ok \<lparr>latest_height = unat blocks, latest_blockhash = blockhash, chain = c\<rparr>))))"

definition unspent_utxo :: "bitcoin_parsers \<Rightarrow> json \<Rightarrow> list_unspent_utxo converted" where
  "unspent_utxo lib utxo =
     bind_out (unwrap_opt (as_str (json_get utxo ''txid''))) (\<lambda>txid_str.
     bind_out (unwrap_opt (txid_from_str lib txid_str)) (\<lambda>tx.
     bind_out (unwrap_opt (as_u64 (json_get utxo ''vout''))) (\<lambda>out.
     bind_out (unwrap_opt (as_f64 (json_get utxo ''amount''))) (\<lambda>btc.
     bind_out (unwrap_opt (amount_from_btc lib btc)) (\<lambda>sat.
     bind_out (unwrap_opt (as_str (json_get utxo ''address''))) (\<lambda>addr_str.
     bind_out (unwrap_opt (address_from_str lib addr_str)) (\<lambda>addr.
     Ok \<lparr>txid = tx, vout = ucast out, amount = sat, address = addr\<rparr>)))))))"

text \<open>Collecting an iterator of results: the first failure ends it.\<close>

fun collect_out :: "('a \<Rightarrow> ('e, 'b) outcome) \<Rightarrow> 'a list \<Rightarrow> ('e, 'b list) outcome" where
  "collect_out f [] = Ok []"
| "collect_out f (x # xs) = bind_out (f x) (\<lambda>y. bind_out (collect_out f xs) (\<lambda>ys. Ok (y # ys)))"

definition try_into_list_unspent_response :: "bitcoin_parsers \<Rightarrow> json \<Rightarrow> list_unspent_utxo list converted" where
  "try_into_list_unspent_response lib j =
     bind_out (unwrap_opt (as_array j)) (collect_out (unspent_utxo lib))"

definition ok_or :: "'a option \<Rightarrow> 'e \<Rightarrow> ('e, 'a) outcome" where
  "ok_or x e = (case x of Some a \<Rightarrow> Ok a | None \<Rightarrow> Err e)"

definition try_into_mempool_info :: "json \<Rightarrow> string list converted" where
  "try_into_mempool_info j =
     bind_out (ok_or (as_array j) (InvalidData ''Expected a JSON array'')) (\<lambda>array.
     collect_out (\<lambda>item. ok_or (as_str item) (InvalidData ''Non-string item found'')) array)"

text \<open>
  The answers of the polling task: the call of the client, then the conversion of its JSON.
\<close>

definition fee_call :: "(fee_request \<Rightarrow> (convert_error, json) outcome) \<Rightarrow> convert_error fee_rpc" where
  "fee_call call_method req =
     bind_out (call_method req) (\<lambda>j.
     bind_out (case req of GetMempoolInfo \<Rightarrow> try_into_mempool_min_fee_response j
                         | EstimateSmartFee blocks mode \<Rightarrow> try_into_fee_response j) (\<lambda>r.
     Ok (feerate_sat_per_kw r)))"

section \<open>Facts\<close>

lemma collect_out_Ok: "collect_out f xs = Ok ys \<longleftrightarrow> list_all2 (\<lambda>x y. f x = Ok y) xs ys"
  by (induction xs arbitrary: ys) (auto simp: bind_out_Ok_iff list_all2_Cons1)

lemma collect_out_no_panic:
  assumes "\<And>x. \<not> is_panic (f x)"
  shows "\<not> is_panic (collect_out f xs)"
proof (induction xs)
  case (Cons x xs)
  then show ?case using assms [of x] by (cases "f x"; cases "collect_out f xs") simp_all
qed simp

lemma as_str_Some: "as_str j = Some s \<longleftrightarrow> j = JString s"
  by (cases j) auto

lemma as_array_Some: "as_array j = Some js \<longleftrightarrow> j = JArray js"
  by (cases j) auto

lemma ok_or_Ok: "ok_or x e = Ok a \<longleftrightarrow> x = Some a"
  by (cases x) (auto simp: ok_or_def)

lemma excess_bits_spec: "m < 2 ^ (53 + excess_bits m) \<and> (excess_bits m > 0 \<longrightarrow> 2 ^ (52 + excess_bits m) \<le> m)"
proof (induction m rule: excess_bits.induct)
  case (1 m)
  show ?case
  proof (cases "m < 2 ^ 53")
    case True
    then show ?thesis by (simp add: excess_bits.simps)
  next
    case False
    let ?k = "excess_bits (m div 2)"
    have k: "excess_bits m = Suc ?k" using False by (subst excess_bits.simps) simp
    have ih: "m div 2 < 2 ^ (53 + ?k)" "?k > 0 \<longrightarrow> 2 ^ (52 + ?k) \<le> m div 2" using 1 False by simp_all
    have "2 ^ (52 + Suc ?k) \<le> m"
    proof (cases "?k = 0")
      case True
      then show ?thesis using False by simp
    next
      case False
      then have "2 * 2 ^ (52 + ?k) \<le> m" using ih(2) by simp
      moreover have "(2 :: nat) ^ (52 + Suc ?k) = 2 * 2 ^ (52 + ?k)" by (simp add: power_add)
      ultimately show ?thesis by linarith
    qed
    moreover have "m < 2 * 2 ^ (53 + ?k)" using ih(1) by linarith
    then have "m < 2 ^ (53 + Suc ?k)" by (simp add: power_add)
    ultimately show ?thesis unfolding k by blast
  qed
qed

lemma round_half_even_error: "\<bar>real (round_half_even m k) * 2 ^ k - real m\<bar> \<le> 2 ^ k / 2"
proof -
  let ?q = "m div 2 ^ k" and ?r = "m mod 2 ^ k"
  have "m = ?q * 2 ^ k + ?r" by (rule div_mult_mod_eq [symmetric])
  then have m: "real m = real ?q * 2 ^ k + real ?r" by (metis of_nat_add of_nat_mult of_nat_numeral of_nat_power)
  have r: "real ?r \<le> 2 ^ k" by (metis less_imp_le mod_less_divisor of_nat_le_iff of_nat_numeral of_nat_power zero_less_numeral zero_less_power)
  show ?thesis
  proof (cases "2 * ?r < 2 ^ k \<or> 2 * ?r = 2 ^ k \<and> even ?q")
    case True
    then have "2 * ?r \<le> 2 ^ k" by auto
    then have "2 * real ?r \<le> 2 ^ k" by (metis of_nat_le_iff of_nat_mult of_nat_numeral of_nat_power)
    moreover have "round_half_even m k = ?q" using True by (simp add: round_half_even_def Let_def)
    ultimately show ?thesis using m by simp
  next
    case False
    then have "2 ^ k \<le> 2 * ?r" by auto
    then have "2 ^ k \<le> 2 * real ?r" by (metis of_nat_le_iff of_nat_mult of_nat_numeral of_nat_power)
    moreover have "round_half_even m k = Suc ?q" using False by (simp add: round_half_even_def Let_def)
    ultimately show ?thesis using m r by (simp add: algebra_simps abs_le_iff)
  qed
qed

text \<open>The value of a double.\<close>

definition magnitude :: "nat \<Rightarrow> int \<Rightarrow> real" where
  "magnitude m e = real m * 2 powi e"

lemma magnitude_nearest:
  assumes "nearest s m e = F64 s' m' e'"
  shows "s' = s" "\<bar>magnitude m' e' - magnitude m e\<bar> \<le> magnitude m e / 2 ^ 53"
proof -
  let ?k = "excess_bits m"
  show "s' = s" using assms by (simp add: nearest_def Let_def)
  have m': "m' = round_half_even m ?k" "e' = e + int ?k" using assms by (simp_all add: nearest_def Let_def)
  have "magnitude m' e' - magnitude m e = (real (round_half_even m ?k) * 2 ^ ?k - real m) * 2 powi e"
    by (simp add: magnitude_def m' power_int_add algebra_simps)
  then have err: "\<bar>magnitude m' e' - magnitude m e\<bar> = \<bar>real (round_half_even m ?k) * 2 ^ ?k - real m\<bar> * 2 powi e"
    by (simp add: abs_mult)
  have "\<bar>real (round_half_even m ?k) * 2 ^ ?k - real m\<bar> \<le> real m / 2 ^ 53"
  proof (cases "?k = 0")
    case True
    then show ?thesis by (simp add: round_half_even_def)
  next
    case False
    then have "2 ^ (52 + ?k) \<le> m" using excess_bits_spec [of m] by simp
    then have "2 ^ (52 + ?k) \<le> real m" by (metis of_nat_le_iff of_nat_numeral of_nat_power)
    then have "2 ^ ?k / 2 \<le> real m / 2 ^ 53" by (simp add: power_add field_simps)
    then show ?thesis using round_half_even_error [of m ?k] by linarith
  qed
  then have "\<bar>real (round_half_even m ?k) * 2 ^ ?k - real m\<bar> * 2 powi e \<le> real m / 2 ^ 53 * 2 powi e"
    by (rule mult_right_mono) simp
  then show "\<bar>magnitude m' e' - magnitude m e\<bar> \<le> magnitude m e / 2 ^ 53"
    unfolding err by (simp add: magnitude_def)
qed

lemma half_bounds:
  fixes m d r :: nat
  assumes "r * (2 * d) \<le> 2 * m + d" "2 * m + d < (r + 1) * (2 * d)" "d > 0"
  shows "real r - 1 / 2 \<le> real m / real d \<and> real m / real d < real r + 1 / 2"
proof -
  have "real (r * (2 * d)) \<le> real (2 * m + d)" "real (2 * m + d) < real ((r + 1) * (2 * d))"
    using assms(1,2) of_nat_le_iff of_nat_less_iff by blast+
  then show ?thesis using assms(3) by (simp add: field_simps)
qed

lemma round_magnitude_bounds:
  "real (round_magnitude m e) - 1 / 2 \<le> magnitude m e" "magnitude m e < real (round_magnitude m e) + 1 / 2"
proof -
  have "real (round_magnitude m e) - 1 / 2 \<le> magnitude m e \<and> magnitude m e < real (round_magnitude m e) + 1 / 2"
  proof (cases "e \<ge> 0")
    case True
    then show ?thesis by (simp add: round_magnitude_def magnitude_def power_int_def)
  next
    case False
    let ?d = "2 ^ nat (- e) :: nat" and ?r = "round_magnitude m e"
    have d: "?d > 0" by simp
    have r: "?r = (2 * m + ?d) div (2 * ?d)" using False by (simp add: round_magnitude_def)
    have "?r * (2 * ?d) \<le> 2 * m + ?d" unfolding r by (rule div_times_less_eq_dividend)
    moreover have "2 * m + ?d < (?r + 1) * (2 * ?d)"
      unfolding r using d dividend_less_div_times [of "2 * ?d" "2 * m + ?d"] by (simp add: algebra_simps)
    ultimately have n: "?r * (2 * ?d) \<le> 2 * m + ?d" "2 * m + ?d < (?r + 1) * (2 * ?d)" .
    have v: "magnitude m e = real m / real ?d" using False by (simp add: magnitude_def power_int_def field_simps)
    show ?thesis unfolding v by (rule half_bounds [OF n d])
  qed
  then show "real (round_magnitude m e) - 1 / 2 \<le> magnitude m e" "magnitude m e < real (round_magnitude m e) + 1 / 2" by auto
qed


lemma near_quarter:
  fixes r n :: nat
  assumes "4 * r < n + 3" "n < 4 * r + 3"
  shows "r = (n + 2) div 4 \<or> n mod 4 = 2 \<and> r = n div 4"
proof (cases "n + 2 < 4 * r + 4")
  case True
  then have "(n + 2) div 4 = r" using assms(1) by (intro div_nat_eqI) simp_all
  then show ?thesis by simp
next
  case False
  then have n: "n = 4 * r + 2" using assms(2) by simp
  then have d: "n div 4 = r" by (intro div_nat_eqI) simp_all
  then have "n mod 4 = 2" using n mult_div_mod_eq [of 4 n] by linarith
  with d show ?thesis by simp
qed

section \<open>Properties\<close>

text \<open>
  C28. The fee rate of an answer. When bitcoind's decimal number was read as a double within one unit
  in the last place of \<open>n\<close> satoshis per kvB, the result is a quarter of \<open>n\<close> rounded half up,
  except that an exact half may also be rounded down; it never differs from \<open>n / 4\<close> by more than
  a half.
\<close>

theorem fee_conversion_accurate:
  assumes "\<bar>magnitude m e * 10 ^ 8 - real n\<bar> \<le> real n / 2 ^ 51" "n < 2 ^ 34 - 2"
  shows "unat (sat_per_kw (F64 False m e)) = (n + 2) div 4 \<or>
    n mod 4 = 2 \<and> unat (sat_per_kw (F64 False m e)) = n div 4"
proof -
  obtain s' m' e' where f: "nearest False (m * 100000000) e = F64 s' m' e'" by (cases "nearest False (m * 100000000) e")
  note near = magnitude_nearest [OF f]
  have prod: "magnitude (m * 100000000) e = magnitude m e * 10 ^ 8" by (simp add: magnitude_def)
  define P where "P = magnitude m e * 10 ^ 8"
  have "real n < real (2 ^ 34 :: nat)" unfolding of_nat_less_iff using assms(2) by simp
  then have n: "real n < 17179869184" by simp
  then have d1: "real n / 2251799813685248 < 1 / 131072" by simp
  have P: "\<bar>P - real n\<bar> \<le> real n / 2251799813685248" using assms(1) unfolding P_def by simp
  then have p: "P < 34359738368" using d1 n by linarith
  then have d2: "P / 9007199254740992 < 1 / 131072" by simp
  have near': "\<bar>magnitude m' e' - P\<bar> \<le> P / 9007199254740992" using near(2) unfolding prod P_def by simp
  have close: "\<bar>magnitude m' e' - real n\<bar> < 1" using near' P d1 d2 by linarith
  let ?r = "round_magnitude m' (e' - 2)"
  have quarter: "magnitude m' (e' - 2) = magnitude m' e' / 4" by (simp add: magnitude_def power_int_diff)
  have "4 * real ?r - 2 \<le> magnitude m' e'" "magnitude m' e' < 4 * real ?r + 2"
    using round_magnitude_bounds [of m' "e' - 2"] unfolding quarter by linarith+
  then have "real (4 * ?r) < real (n + 3)" "real n < real (4 * ?r + 3)" using close by simp_all
  then have b: "4 * ?r < n + 3" "n < 4 * ?r + 3" unfolding of_nat_less_iff .
  then have r: "?r < 2 ^ 32" using assms(2) by simp
  have "sat_per_kw (F64 False m e) = round_to_u32 (F64 False m' (e' - 2))"
    unfolding sat_per_kw_def f64_times.simps f near(1) f64_quarter.simps ..
  then have "sat_per_kw (F64 False m e) = of_nat ?r" using r by simp
  then have "unat (sat_per_kw (F64 False m e)) = ?r" using r by (simp add: unat_of_nat take_bit_nat_eq_self)
  moreover have "?r = (n + 2) div 4 \<or> n mod 4 = 2 \<and> ?r = n div 4" by (rule near_quarter [OF b])
  ultimately show ?thesis by simp
qed

theorem fee_conversion_accurate_witness:
  "unat (sat_per_kw (F64 False 565946108181409 (- 65))) \<in> {(1534 + 2) div 4, 1534 div 4} \<and>
   sat_per_kw (F64 False 565946108181409 (- 65)) = 383"
proof
  have "magnitude 565946108181409 (- 65) * 10 ^ 8 - real 1534 = (565946108181409 * 10 ^ 8 - 1534 * 2 ^ 65) / 2 ^ 65"
    by (simp add: magnitude_def power_int_def power_divide)
  then have "\<bar>magnitude 565946108181409 (- 65) * 10 ^ 8 - real 1534\<bar> \<le> real 1534 / 2 ^ 51" by simp
  from fee_conversion_accurate [OF this]
  show "unat (sat_per_kw (F64 False 565946108181409 (- 65))) \<in> {(1534 + 2) div 4, 1534 div 4}" by auto
  show "sat_per_kw (F64 False 565946108181409 (- 65)) = 383"
    by (simp add: sat_per_kw_def nearest_def excess_bits.simps round_half_even_def round_magnitude_def Let_def)
qed

text \<open>
  \<open>MempoolInfo\<close> is read exactly from an array of strings; anything else is an error, not a
  panic.
\<close>

theorem mempool_info_exact:
  "(try_into_mempool_info j = Ok ids \<longleftrightarrow> j = JArray (map JString ids)) \<and> \<not> is_panic (try_into_mempool_info j)"
proof
  have "list_all2 (\<lambda>x y. x = JString y) js ids \<longleftrightarrow> js = map JString ids" for js
    by (auto simp: list_all2_conv_all_nth intro: nth_equalityI)
  then show "try_into_mempool_info j = Ok ids \<longleftrightarrow> j = JArray (map JString ids)"
    by (simp add: try_into_mempool_info_def bind_out_Ok_iff ok_or_Ok as_array_Some as_str_Some collect_out_Ok)
  show "\<not> is_panic (try_into_mempool_info j)"
    by (cases "as_array j") (simp_all add: try_into_mempool_info_def ok_or_def collect_out_no_panic split: option.splits)
qed

text \<open>
  A bitcoind whose mempool is not limited to 300000000 bytes ends the node: the conversion of
  its answer asserts that limit, and the assertion fails in the polling task before any fee is stored.
\<close>

theorem custom_mempool_size_ends_node:
  assumes "call GetMempoolInfo = Ok j" "as_u64 (json_get j ''maxmempool'') \<noteq> Some 300000000"
  shows "is_panic (fst (poll_round ovf (fee_call call) fees)) \<and> snd (poll_round ovf (fee_call call) fees) = fees"
  by (rule failed_request_panics [where q = GetMempoolInfo])
    (use assms in \<open>simp_all add: polled_requests_def fee_call_def try_into_mempool_min_fee_response_def\<close>)

theorem custom_mempool_size_ends_node_witness:
  "is_panic (fst (poll_round True (fee_call (\<lambda>q. Ok (JObject [(''maxmempool'', JNumber (PosInt 100000000))]))) initial_fees))"
  by (rule conjunct1 [OF custom_mempool_size_ends_node
        [where j = "JObject [(''maxmempool'', JNumber (PosInt 100000000))]"]]) simp_all

end
