(* ===== verification/Startup.thy ===== *)
theory Startup imports Args_Props Convert Fs begin

text \<open>
  The start of \<open>start_ldk\<close> in \<open>src/src/main.rs\<close>: arguments, data directory, connection
  and network check, and the seed of the node's keys. What bitcoind answers is in \<open>boot_env\<close>;
  the state is the disk and what is printed. Returning early is the value \<open>None\<close>.
\<close>

section \<open>Requests to bitcoind\<close>

text \<open>\<open>RpcClient::call_method\<close>, by the name of the method and its parameters.\<close>

type_synonym ('e, 'a) rpc_call = "string \<Rightarrow> json list \<Rightarrow> ('e, 'a) outcome"

definition get_header :: "('e, 'a) rpc_call \<Rightarrow> string \<Rightarrow> ('e, 'a) outcome" where
  "get_header call_method header_hash = call_method ''getblockheader'' [JString header_hash]"

definition get_block :: "('e, 'a) rpc_call \<Rightarrow> string \<Rightarrow> ('e, 'a) outcome" where
  "get_block call_method header_hash = call_method ''getblock'' [JString header_hash, JNumber (PosInt 0)]"

definition get_best_block :: "('e, 'a) rpc_call \<Rightarrow> ('e, 'a) outcome" where
  "get_best_block call_method = call_method ''getblockchaininfo'' []"

definition get_blockchain_info ::
  "bitcoin_parsers \<Rightarrow> (convert_error, json) rpc_call \<Rightarrow> (unit, blockchain_info) outcome" where
  "get_blockchain_info lib call_method =
     unwrap_res (bind_out (call_method ''getblockchaininfo'' []) (try_into_blockchain_info lib))"

definition get_raw_mempool :: "(convert_error, json) rpc_call \<Rightarrow> (unit, string list) outcome" where
  "get_raw_mempool call_method =
     unwrap_res (bind_out (call_method ''getrawmempool'' []) try_into_mempool_info)"

section \<open>State\<close>

record boot_state =
  boot_disk :: disk
  boot_out :: string

record boot_env =
  os :: os_env
  client_error :: "ldk_user_info \<Rightarrow> string option"
  parsers :: bitcoin_parsers
  rpc :: "(convert_error, json) rpc_call"
  random_seed :: bytes
  io_error_text :: "io_error \<Rightarrow> string"

type_synonym 'a boot = "(boot_state, unit, 'a) st"

definition boot_println :: "string \<Rightarrow> unit boot" where
  "boot_println t s = (Ok (), s\<lparr>boot_out := boot_out s @ t @ [CHR 0x0A]\<rparr>)"

definition attempt :: "'a io \<Rightarrow> ((io_error, 'a) outcome \<Rightarrow> 'b boot) \<Rightarrow> 'b boot" where
  "attempt m k s = (case m (boot_disk s) of (r, d) \<Rightarrow> k r (s\<lparr>boot_disk := d\<rparr>))"

definition expect :: "string \<Rightarrow> 'a io \<Rightarrow> 'a boot" where
  "expect msg m = attempt m (\<lambda>r. case r of
     Ok a \<Rightarrow> return_st a | Err e \<Rightarrow> lift_st (Panic msg) | Panic p \<Rightarrow> lift_st (Panic p))"

section \<open>The seed\<close>

definition keys_seed :: "boot_env \<Rightarrow> path \<Rightarrow> bytes option boot" where
  "keys_seed env keys_seed_path =
     attempt (sys (fs_read keys_seed_path)) (\<lambda>r. case r of
       Ok seed \<Rightarrow>
         if length seed \<noteq> 32 then lift_st (Panic ''assertion `left == right` failed'')
         else return_st (Some seed)
     | Panic m \<Rightarrow> lift_st (Panic m)
     | Err e \<Rightarrow>
         (let key = random_seed env in
          attempt (sys (fs_create keys_seed_path)) (\<lambda>r. case r of
            Ok f \<Rightarrow>
              bind_st (expect ''Failed to write node keys seed to disk'' (sys_write f key)) (\<lambda>_.
              bind_st (expect ''Failed to sync node keys seed to disk'' (sys (fs_sync f))) (\<lambda>_.
              return_st (Some key)))
          | Err e \<Rightarrow>
              bind_st (boot_println (''ERROR: Unable to create keys seed file '' @ path_str keys_seed_path @
                '': '' @ io_error_text env e)) (\<lambda>_.
              return_st None)
          | Panic m \<Rightarrow> lift_st (Panic m))))"

section \<open>The first steps\<close>

fun chain_name :: "bitcoin_network \<Rightarrow> string" where
  "chain_name Bitcoin = ''main''"
| "chain_name Regtest = ''regtest''"
| "chain_name Signet = ''signet''"
| "chain_name Testnet = ''test''"

fun show_network :: "bitcoin_network \<Rightarrow> string" where
  "show_network Bitcoin = ''bitcoin''"
| "show_network Regtest = ''regtest''"
| "show_network Signet = ''signet''"
| "show_network Testnet = ''testnet''"

definition ldk_data_dir :: "ldk_user_info \<Rightarrow> path" where
  "ldk_data_dir args = components (ldk_storage_dir_path args @ ''/.ldk'')"

definition start_node :: "boot_env \<Rightarrow> ldk_user_info \<Rightarrow> bytes option boot" where
  "start_node env args =
     bind_st (expect ''called `Result::unwrap()` on an `Err` value'' (create_dir_all (ldk_data_dir args))) (\<lambda>_.
     case client_error env args of
       Some e \<Rightarrow> bind_st (boot_println (''Failed to connect to bitcoind client: '' @ e)) (\<lambda>_. return_st None)
     | None \<Rightarrow>
         bind_st (lift_st (get_blockchain_info (parsers env) (rpc env))) (\<lambda>info.
         if chain info \<noteq> chain_name (node_network args)
         then bind_st (boot_println (''Chain argument ('' @ show_network (node_network args) @
                '') didn't match bitcoind chain ('' @ chain info @ '')'')) (\<lambda>_. return_st None)
         else keys_seed env (ldk_data_dir args @ [''keys_seed''])))"

definition start_ldk :: "boot_env \<Rightarrow> (ldk_user_info \<times> bytes) option boot" where
  "start_ldk env s =
     (case parse_startup_args (os env) (boot_out s) of
        (Err _, out) \<Rightarrow> (Ok None, s\<lparr>boot_out := out\<rparr>)
      | (Panic m, out) \<Rightarrow> (Panic m, s\<lparr>boot_out := out\<rparr>)
      | (Ok args, out) \<Rightarrow>
          bind_st (start_node env args) (\<lambda>key. return_st (map_option (Pair args) key)) (s\<lparr>boot_out := out\<rparr>))"

section \<open>Facts\<close>

lemma keys_seed_stored:
  assumes "content_at (cur (boot_disk s)) p = Some k" "next_fault (boot_disk s) = None"
  shows "fst (keys_seed env p s) = (if length k = 32 then Ok (Some k) else Panic ''assertion `left == right` failed'')"
    "cur (boot_disk (snd (keys_seed env p s))) = cur (boot_disk s)"
  using assms
  by (auto simp: keys_seed_def attempt_def sys_def perform_def fs_read_def content_at_def lift_st_def
      return_st_def split: option.splits node.splits)

text \<open>What a seed that was just made leaves on the disk.\<close>

lemma new_seed_stored:
  assumes "fs_wf f" "fs_create p f = (Ok i, f1)"
  shows "content_at (f1\<lparr>unsynced := u\<rparr>) p = Some []"
    and "content_at ((put_data i b f1)\<lparr>unsynced := u\<rparr>) p = Some b"
    and "durable (put_data i b f1) = durable f"
  using fs_create_Ok [OF assms] by (simp_all add: content_at_def fs_simps)

lemma keys_seed_cases:
  assumes "fs_wf (cur (boot_disk s))" "keys_seed env p s = (Ok (Some k), s')"
  shows "content_at (cur (boot_disk s')) p = Some k \<and> (length (random_seed env) = 32 \<longrightarrow> length k = 32) \<and>
    (content_at (cur (boot_disk s)) p = Some k \<or>
     k = random_seed env \<and> durable (cur (boot_disk s')) = durable (cur (boot_disk s)))"
proof -
  let ?d = "boot_disk s"
  obtain r d1 where rd: "sys (fs_read p) ?d = (r, d1)" by (cases "sys (fs_read p) ?d")
  have d1: "cur d1 = cur ?d"
    using rd by (auto simp: sys_def perform_def fs_read_def split: option.splits node.splits)
  have rcontent: "r = Ok seed \<Longrightarrow> content_at (cur ?d) p = Some seed" for seed
    using rd by (auto simp: sys_def perform_def fs_read_def content_at_def split: option.splits node.splits)
  show ?thesis
  proof (cases r)
    case (Ok seed)
    then have "k = seed" "length seed = 32" "s' = s\<lparr>boot_disk := d1\<rparr>"
      using assms(2) rd by (auto simp: keys_seed_def attempt_def lift_st_def return_st_def split: if_splits)
    then show ?thesis using d1 rcontent [OF Ok] by (simp add: content_at_def)
  next
    case (Err e)
    obtain i d2 where c: "sys (fs_create p) d1 = (Ok i, d2)"
      using assms(2) rd Err
      by (auto simp: keys_seed_def attempt_def lift_st_def return_st_def bind_st_def boot_println_def Let_def
          split: outcome.splits prod.splits)
    then obtain f1 where f1: "fs_create p (cur ?d) = (Ok i, f1)" "cur d2 = f1"
      using d1 by (auto simp: sys_def perform_def split: option.splits prod.splits)
    have res: "k = random_seed env"
      "cur (boot_disk s') = (put_data i (data_of f1 i @ random_seed env) f1)
         \<lparr>unsynced := removeAll i (unsynced (put_data i (data_of f1 i @ random_seed env) f1))\<rparr>"
      using assms(2) rd Err c f1(2)
      by (auto simp: keys_seed_def attempt_def expect_def lift_st_def return_st_def sys_write_def sys_def perform_def
          bind_st_def Let_def fs_write_def fs_sync_def split: option.splits outcome.splits prod.splits)
    note st = new_seed_stored [OF assms(1) f1(1)]
    show ?thesis using res st fs_create_Ok(4) [OF assms(1) f1(1)] by simp
  next
    case (Panic m)
    then show ?thesis using assms(2) rd by (simp add: keys_seed_def attempt_def lift_st_def)
  qed
qed

section \<open>Properties\<close>

definition empty_tree :: fs where
  "empty_tree = \<lparr>ents = [], durable = [], pending = [], contents = [], unsynced = [], next_ino = 0\<rparr>"

definition seed_tree :: fs where
  "seed_tree = \<lparr>ents = [([''keys_seed''], File 0)], durable = [([''keys_seed''], File 0)], pending = [],
     contents = [(0, replicate 32 7)], unsynced = [], next_ino = 1\<rparr>"

definition boot_on :: "fs \<Rightarrow> (io_error \<times> nat) option list \<Rightarrow> boot_state" where
  "boot_on f fl = \<lparr>boot_disk = \<lparr>cur = f, faults = fl, hist = []\<rparr>, boot_out = []\<rparr>"

definition sample_boot :: "u8 \<Rightarrow> boot_env" where
  "sample_boot b = \<lparr>os = sample_os [], client_error = (\<lambda>a. None),
     parsers = \<lparr>block_hash_from_str = (\<lambda>s. None), txid_from_str = (\<lambda>s. None), amount_from_btc = (\<lambda>f. None),
       address_from_str = (\<lambda>s. None)\<rparr>,
     rpc = (\<lambda>m ps. Ok JNull), random_seed = replicate 32 b, io_error_text = (\<lambda>e. [])\<rparr>"

lemma sample_trees: "fs_wf empty_tree" "fs_wf seed_tree"
  by (auto simp: fs_wf_def empty_tree_def seed_tree_def lookup_def)

text \<open>
  C24. The seed of the node's keys. A start that obtains a seed has it in its file, whatever fails. Every later start
  for which the file still holds it and the read goes through obtains the same seed, whatever random
  bytes it would have drawn, and leaves the file as it is, so the next start is in the same situation.
  Without these two conditions it fails: a failed read replaces the seed (the next property), and a
  power loss may take away the file of a new one (\<open>new_seed_can_be_lost\<close>).
\<close>

theorem seed_survives_restart:
  assumes "fs_wf (cur (boot_disk s))" "keys_seed env p s = (Ok (Some k), s')"
    and "length (random_seed env) = 32"
  shows "content_at (cur (boot_disk s')) p = Some k \<and>
    (\<forall>env2 s2. content_at (cur (boot_disk s2)) p = Some k \<and> next_fault (boot_disk s2) = None \<longrightarrow>
       fst (keys_seed env2 p s2) = Ok (Some k) \<and> cur (boot_disk (snd (keys_seed env2 p s2))) = cur (boot_disk s2))"
  using keys_seed_cases [OF assms(1,2)] keys_seed_stored [of _ p k] assms(3) by simp

text \<open>The seed of the first start, through a second and a third, each with other random bytes.\<close>

theorem seed_survives_restart_witness:
  "fst (keys_seed (sample_boot 2) [''keys_seed''] (snd (keys_seed (sample_boot 1) [''keys_seed''] (boot_on empty_tree [])))) =
     Ok (Some (replicate 32 1)) \<and>
   fst (keys_seed (sample_boot 3) [''keys_seed''] (snd (keys_seed (sample_boot 2) [''keys_seed'']
     (snd (keys_seed (sample_boot 1) [''keys_seed''] (boot_on empty_tree [])))))) = Ok (Some (replicate 32 1))"
proof -
  let ?p = "[''keys_seed'']" let ?s1 = "snd (keys_seed (sample_boot 1) ?p (boot_on empty_tree []))"
  let ?s2 = "snd (keys_seed (sample_boot 2) ?p ?s1)"
  have k: "keys_seed (sample_boot 1) ?p (boot_on empty_tree []) = (Ok (Some (replicate 32 1)), ?s1)"
    by (rule prod_eqI) (simp_all, code_simp)
  have len: "length (random_seed (sample_boot 1)) = 32" by (simp add: sample_boot_def)
  have wf: "fs_wf (cur (boot_disk (boot_on empty_tree [])))"
    using sample_trees(1) by (simp add: boot_on_def)
  note kept = seed_survives_restart [OF wf k len]
  have n: "next_fault (boot_disk ?s1) = None" "next_fault (boot_disk ?s2) = None" by code_simp+
  have two: "fst (keys_seed (sample_boot 2) ?p ?s1) = Ok (Some (replicate 32 1)) \<and> cur (boot_disk ?s2) = cur (boot_disk ?s1)"
    using kept n(1) by blast
  then have "content_at (cur (boot_disk ?s2)) ?p = Some (replicate 32 1)" using conjunct1 [OF kept] by (simp only: simp_thms)
  then have "fst (keys_seed (sample_boot 3) ?p ?s2) = Ok (Some (replicate 32 1))" using kept n(2) by blast
  with two show ?thesis by blast
qed

text \<open>
  C25. A seed that cannot be read at the moment is replaced: one failed read of an existing file makes
  the start overwrite it with fresh random bytes, and the node goes on with other keys.
\<close>

theorem unreadable_seed_is_replaced:
  assumes "fs_wf (cur (boot_disk s))" "faults (boot_disk s) = [Some (e, n)]"
    and "content_at (cur (boot_disk s)) p = Some old" "lookup (cur (boot_disk s)) (butlast p) = Some Dir"
  shows "fst (keys_seed env p s) = Ok (Some (random_seed env)) \<and>
    content_at (cur (boot_disk (snd (keys_seed env p s)))) p = Some (random_seed env)"
proof -
  obtain i where i: "lookup (cur (boot_disk s)) p = Some (File i)"
    using assms(3) by (auto simp: content_at_def split: option.splits node.splits)
  then have "fs_create p (cur (boot_disk s)) = (Ok i, put_data i [] (cur (boot_disk s)))"
    using assms(4) by (simp add: fs_create_def parent_dir_def)
  then show ?thesis using assms(2) i
    by (simp add: keys_seed_def attempt_def expect_def lift_st_def return_st_def sys_def sys_write_def perform_def
        next_fault_def bind_st_def Let_def fs_write_def fs_sync_def content_at_def fs_simps)
qed

theorem unreadable_seed_is_replaced_witness:
  "content_at seed_tree [''keys_seed''] = Some (replicate 32 7) \<and>
   content_at (cur (boot_disk (snd (keys_seed (sample_boot 1) [''keys_seed'']
     (boot_on seed_tree [Some (OtherError ''EIO'', 0)]))))) [''keys_seed''] = Some (replicate 32 1)"
proof
  show c: "content_at seed_tree [''keys_seed''] = Some (replicate 32 7)"
    by (simp add: seed_tree_def content_at_def lookup_def data_of_def)
  show "content_at (cur (boot_disk (snd (keys_seed (sample_boot 1) [''keys_seed'']
     (boot_on seed_tree [Some (OtherError ''EIO'', 0)]))))) [''keys_seed''] = Some (replicate 32 1)"
    using unreadable_seed_is_replaced [of "boot_on seed_tree [Some (OtherError ''EIO'', 0)]" "OtherError ''EIO''" 0
        "[''keys_seed'']" "replicate 32 7" "sample_boot 1"] c sample_trees(2)
    by (simp add: boot_on_def sample_boot_def)
qed

text \<open>
  A new seed can be lost: its file is synced, but not the directory that holds it, so after a
  start that made the seed a power loss may leave no file, and the next start makes other keys.
\<close>

theorem new_seed_can_be_lost:
  assumes "fs_wf (cur (boot_disk s))" "keys_seed env p s = (Ok (Some k), s')"
    and "content_at (cur (boot_disk s)) p = None" "map_of (durable (cur (boot_disk s))) p = None"
  shows "crash_read (cur (boot_disk s')) p None"
  using keys_seed_cases [OF assms(1,2)] assms(3,4)
  by (auto simp: crash_read_def possible_ent_def)

theorem new_seed_can_be_lost_witness:
  "crash_read (cur (boot_disk (snd (keys_seed (sample_boot 1) [''keys_seed''] (boot_on empty_tree []))))) [''keys_seed''] None"
proof -
  have k: "keys_seed (sample_boot 1) [''keys_seed''] (boot_on empty_tree []) =
      (Ok (Some (replicate 32 1)), snd (keys_seed (sample_boot 1) [''keys_seed''] (boot_on empty_tree [])))"
    by (rule prod_eqI) (simp_all, code_simp)
  show ?thesis
    by (rule new_seed_can_be_lost [OF _ k])
      (use sample_trees(1) in \<open>simp_all add: boot_on_def empty_tree_def content_at_def lookup_def\<close>)
qed

end
