(* ===== verification/Wallet.thy ===== *)
theory Wallet imports Bitcoind_Client begin

text \<open>
  \<open>src/src/onchain_wallet.rs\<close>: the on-chain wallet. The wallet itself is \<open>bdk_wallet\<close>'s:
  its operations, the Esplora client and the constructors of \<open>lightning\<close> are the record
  \<open>bdk\<close>, over a state \<open>'w\<close> of the library. Modelled is what the program does with them: the
  fee rate it asks for, which outputs it offers to the library, and what it persists. The database keeps
  a state of its own, which loading reads.
\<close>

section \<open>State\<close>

record local_output =
  out_point :: "bytes \<times> u32"
  out_value :: u64
  out_script :: bytes
  is_confirmed :: bool

record utxo =
  utxo_point :: "bytes \<times> u32"
  utxo_value :: u64
  utxo_script :: bytes
  satisfaction_weight :: u64

record tx_request =
  recipient :: "bytes \<times> u64"
  fee_rate_kwu :: u64
  nlocktime :: u32

record ('w, 'u) bdk =
  reveal_next_address :: "'w \<Rightarrow> string \<times> 'w"
  script_of_address :: "string \<Rightarrow> bytes"
  wallet_balance :: "'w \<Rightarrow> u64"
  list_unspent :: "'w \<Rightarrow> local_output list"
  finish_tx :: "'w \<Rightarrow> tx_request \<Rightarrow> (string, bytes) outcome \<times> 'w"
  sign_tx :: "'w \<Rightarrow> bool \<Rightarrow> bytes \<Rightarrow> (string, bytes) outcome"
  extract_tx :: "bytes \<Rightarrow> (string, bytes) outcome"
  client_full_scan :: "'w \<Rightarrow> (string, 'u) outcome"
  client_sync :: "'w \<Rightarrow> (string, 'u) outcome"
  apply_update :: "'u \<Rightarrow> 'w \<Rightarrow> (string, 'w) outcome"
  load_wallet :: "'w option \<Rightarrow> (string, 'w option) outcome"
  create_wallet :: "(string, 'w) outcome"
  persist :: "'w \<Rightarrow> 'w option \<Rightarrow> (string, 'w option) outcome"
  address_from_script :: "bytes \<Rightarrow> (nat \<times> bytes) option option"
  x_only_key :: "bytes \<Rightarrow> bool"
  new_v0_p2wpkh :: "bytes \<times> u32 \<Rightarrow> u64 \<Rightarrow> bytes \<Rightarrow> utxo"

record 'w wallet =
  inner :: 'w
  path_to_db :: "'w option"

type_synonym ('w, 'a) wallet_op = "('w wallet, string, 'a) st"

section \<open>Scanning and syncing\<close>

text \<open>Both end with the same two calls; an error leaves the wallet as it was.\<close>

definition apply_and_persist :: "('w, 'u) bdk \<Rightarrow> 'u \<Rightarrow> ('w, unit) wallet_op" where
  "apply_and_persist lib update s =
     (case apply_update lib update (inner s) of
        Err e \<Rightarrow> (Err e, s)
      | Panic m \<Rightarrow> (Panic m, s)
      | Ok w \<Rightarrow>
          (case persist lib w (path_to_db s) of
             Ok d \<Rightarrow> (Ok (), s\<lparr>inner := w, path_to_db := d\<rparr>)
           | Err e \<Rightarrow> (Err e, s\<lparr>inner := w\<rparr>)
           | Panic m \<Rightarrow> (Panic m, s\<lparr>inner := w\<rparr>)))"

definition full_scan :: "('w, 'u) bdk \<Rightarrow> ('w, unit) wallet_op" where
  "full_scan lib s = bind_st (lift_st (client_full_scan lib (inner s))) (apply_and_persist lib) s"

definition sync_wallet :: "('w, 'u) bdk \<Rightarrow> ('w, unit) wallet_op" where
  "sync_wallet lib s = bind_st (lift_st (client_sync lib (inner s))) (apply_and_persist lib) s"

text \<open>
  The constructor: load from the database or create, then a full scan whose result is dropped.
\<close>

definition new_from_seed :: "('w, 'u) bdk \<Rightarrow> 'w option \<Rightarrow> (string, 'w wallet) outcome" where
  "new_from_seed lib db =
     bind_out (unwrap_res (load_wallet lib db)) (\<lambda>wallet_opt.
     bind_out (case wallet_opt of
         Some w \<Rightarrow> Ok (w, db)
       | None \<Rightarrow>
           bind_out (unwrap_res (create_wallet lib)) (\<lambda>w.
           bind_out (unwrap_res (persist lib w db)) (\<lambda>db'. Ok (w, db')))) (\<lambda>(w, db).
     case full_scan lib \<lparr>inner = w, path_to_db = db\<rparr> of
       (Panic m, s) \<Rightarrow> Panic m
     | (_, s) \<Rightarrow> Ok s))"

section \<open>Transactions, addresses and outputs\<close>

definition create_funding_transaction ::
  "('w, 'u) bdk \<Rightarrow> fees \<Rightarrow> bytes \<Rightarrow> u64 \<Rightarrow> confirmation_target \<Rightarrow> u32 \<Rightarrow> ('w, bytes) wallet_op" where
  "create_funding_transaction lib fee_estimator output_script amount confirmation_target locktime s =
     (case get_est_sat_per_1000_weight fee_estimator confirmation_target of
        Err e \<Rightarrow> (Panic ''unreachable'', s)
      | Panic m \<Rightarrow> (Panic m, s)
      | Ok fee_rate \<Rightarrow>
          (case finish_tx lib (inner s)
                  \<lparr>recipient = (output_script, amount), fee_rate_kwu = ucast fee_rate, nlocktime = locktime\<rparr> of
             (r, w) \<Rightarrow>
               (bind_out (unwrap_res r) (\<lambda>psbt.
                bind_out (unwrap_res (sign_tx lib w False psbt)) (\<lambda>signed.
                unwrap_res (extract_tx lib signed))),
                s\<lparr>inner := w\<rparr>)))"

definition get_address :: "('w, 'u) bdk \<Rightarrow> ('w, string) wallet_op" where
  "get_address lib s = (case reveal_next_address lib (inner s) of (a, w) \<Rightarrow> (Ok a, s\<lparr>inner := w\<rparr>))"

definition get_balance :: "('w, 'u) bdk \<Rightarrow> ('w, u64) wallet_op" where
  "get_balance lib s = (Ok (wallet_balance lib (inner s)), s)"

text \<open>
  \<open>list_confirmed_utxos\<close>: of the confirmed outputs, those paid to a key hash (a program of
  version 0 and 20 bytes) or to an output key (version 1 and 32 bytes).
\<close>

definition offer_output :: "('w, 'u) bdk \<Rightarrow> local_output \<Rightarrow> utxo option" where
  "offer_output lib o1 =
     (case address_from_script lib (out_script o1) of
        Some (Some (version, program)) \<Rightarrow>
          if version = 0 \<and> length program = 20
          then Some (new_v0_p2wpkh lib (out_point o1) (out_value o1) program)
          else if version = 1 \<and> length program = 32
          then (if x_only_key lib program
                then Some \<lparr>utxo_point = out_point o1, utxo_value = out_value o1, utxo_script = out_script o1,
                           satisfaction_weight = 1 * 4 + 1 + 1 + 64\<rparr>
                else None)
          else None
      | _ \<Rightarrow> None)"

definition list_confirmed_utxos :: "('w, 'u) bdk \<Rightarrow> ('w, utxo list) wallet_op" where
  "list_confirmed_utxos lib s =
     (Ok (List.map_filter (offer_output lib) (filter is_confirmed (list_unspent lib (inner s)))), s)"

text \<open>\<open>get_change_script\<close> and \<open>get_change_destination_script\<close>.\<close>

definition get_change_script :: "('w, 'u) bdk \<Rightarrow> ('w, bytes) wallet_op" where
  "get_change_script lib =
     bind_st (get_address lib) (\<lambda>a. return_st (script_of_address lib a))"

definition sign_psbt :: "('w, 'u) bdk \<Rightarrow> bytes \<Rightarrow> ('w, bytes) wallet_op" where
  "sign_psbt lib psbt s =
     (bind_out (unwrap_res (sign_tx lib (inner s) True psbt)) (\<lambda>signed.
      unwrap_res (extract_tx lib signed)), s)"

section \<open>Properties\<close>

definition spendable :: "('w, 'u) bdk \<Rightarrow> local_output \<Rightarrow> bool" where
  "spendable lib o1 \<longleftrightarrow> is_confirmed o1 \<and>
     (case address_from_script lib (out_script o1) of
        Some (Some (version, program)) \<Rightarrow>
          version = 0 \<and> length program = 20 \<or> version = 1 \<and> length program = 32 \<and> x_only_key lib program
      | _ \<Rightarrow> False)"

definition keeps_output :: "('w, 'u) bdk \<Rightarrow> bool" where
  "keeps_output lib \<longleftrightarrow>
     (\<forall>p v h. utxo_point (new_v0_p2wpkh lib p v h) = p \<and> utxo_value (new_v0_p2wpkh lib p v h) = v)"

lemma offer_output_spendable:
  assumes "keeps_output lib" "is_confirmed o1"
  shows "(case offer_output lib o1 of None \<Rightarrow> \<not> spendable lib o1
    | Some u \<Rightarrow> spendable lib o1 \<and> utxo_point u = out_point o1 \<and> utxo_value u = out_value o1)"
proof -
  have "utxo_point (new_v0_p2wpkh lib p v h) = p" "utxo_value (new_v0_p2wpkh lib p v h) = v" for p v h
    using assms(1) unfolding keeps_output_def by blast+
  with assms(2) show ?thesis by (auto simp: offer_output_def spendable_def split: option.splits)
qed

lemma spendable_confirmed: "\<not> is_confirmed o1 \<Longrightarrow> \<not> spendable lib o1"
  by (simp add: spendable_def)

text \<open>
  The outputs offered for anchor transactions are exactly the confirmed ones the wallet can spend
  with one key, in the wallet's order, each with its outpoint and value; unconfirmed outputs and other
  scripts are left out, and the wallet is not changed.
\<close>

theorem confirmed_utxos_exact:
  assumes "keeps_output lib" "list_confirmed_utxos lib s = (r, s')"
  shows "s' = s \<and> (case r of
      Ok us \<Rightarrow> map (\<lambda>u. (utxo_point u, utxo_value u)) us =
        map (\<lambda>o1. (out_point o1, out_value o1)) (filter (spendable lib) (list_unspent lib (inner s)))
    | _ \<Rightarrow> False)"
proof -
  have "map (\<lambda>u. (utxo_point u, utxo_value u)) (List.map_filter (offer_output lib) (filter is_confirmed os)) =
      map (\<lambda>o1. (out_point o1, out_value o1)) (filter (spendable lib) os)" for os
  proof (induction os)
    case (Cons o1 os)
    show ?case
    proof (cases "is_confirmed o1")
      case True
      with offer_output_spendable [OF assms(1) True] Cons show ?thesis
        by (cases "offer_output lib o1") (simp_all add: List.map_filter_simps)
    qed (use Cons spendable_confirmed in simp)
  qed (simp add: List.map_filter_simps)
  then show ?thesis using assms(2) by (auto simp: list_confirmed_utxos_def)
qed

definition sample_bdk :: "(nat, nat) bdk" where
  "sample_bdk = \<lparr>reveal_next_address = (\<lambda>n. (''bcrt'' @ show_nat n, Suc n)), script_of_address = as_bytes,
     wallet_balance = (\<lambda>n. 0),
     list_unspent = (\<lambda>n. [\<lparr>out_point = ([1], 0), out_value = 10, out_script = [0], is_confirmed = True\<rparr>,
       \<lparr>out_point = ([2], 1), out_value = 20, out_script = [0], is_confirmed = False\<rparr>,
       \<lparr>out_point = ([3], 0), out_value = 30, out_script = [9], is_confirmed = True\<rparr>]),
     finish_tx = (\<lambda>n q. (Ok [], n)), sign_tx = (\<lambda>n t p. Ok p), extract_tx = (\<lambda>p. Ok p),
     client_full_scan = (\<lambda>n. Err ''offline''), client_sync = (\<lambda>n. Err ''offline''),
     apply_update = (\<lambda>u n. Ok n), load_wallet = (\<lambda>d. Ok d), create_wallet = Ok 0, persist = (\<lambda>n d. Ok (Some n)),
     address_from_script = (\<lambda>b. if b = [0] then Some (Some (0, replicate 20 7)) else None),
     x_only_key = (\<lambda>b. True),
     new_v0_p2wpkh = (\<lambda>p v h. \<lparr>utxo_point = p, utxo_value = v, utxo_script = h, satisfaction_weight = 112\<rparr>)\<rparr>"

theorem confirmed_utxos_exact_witness:
  "map (\<lambda>u. (utxo_point u, utxo_value u))
     (case fst (list_confirmed_utxos sample_bdk \<lparr>inner = 0, path_to_db = None\<rparr>) of Ok us \<Rightarrow> us | _ \<Rightarrow> []) =
   [(([1], 0), 10)]"
proof -
  have k: "keeps_output sample_bdk" by (simp add: keeps_output_def sample_bdk_def)
  show ?thesis
    using confirmed_utxos_exact [OF k surjective_pairing, of "\<lparr>inner = 0, path_to_db = None\<rparr>"]
    by (auto simp: sample_bdk_def spendable_def split: outcome.splits)
qed

text \<open>
  An address that was handed out is not persisted: started again on the same database, with the
  chain not reachable, the wallet hands it out again.
\<close>

lemma address_repeats_after_restart:
  assumes "load_wallet lib (path_to_db s) = Ok (Some (inner s))" "client_full_scan lib (inner s) = Err e"
    and "get_address lib s = (Ok a, s1)" "new_from_seed lib (path_to_db s1) = Ok s2"
  shows "fst (get_address lib s2) = Ok a"
  using assms by (auto simp: get_address_def new_from_seed_def full_scan_def bind_st_def lift_st_def split: prod.splits)

text \<open>
  The rate for anchor channels, read off bitcoind's answers: the estimate for 144 blocks of the last
  round that was answered and has got as far as its fifth store, raised to 253, or 253 when bitcoind
  had no estimate or no round has got so far.
\<close>

definition published_anchor_rate :: "('e fee_rpc \<times> nat) list \<Rightarrow> u32" where
  "published_anchor_rate evs =
     foldl (\<lambda>rate (rpc, k).
       if list_all (\<lambda>q. is_ok (rpc q)) polled_requests \<and> 5 \<le> k
       then (case rpc (EstimateSmartFee 144 ''ECONOMICAL'') of Ok (Some r) \<Rightarrow> max r 253 | _ \<Rightarrow> 253)
       else rate) 253 evs"

lemma floor_or_max: "floor_or MIN_FEERATE r = (case r of Some x \<Rightarrow> max x 253 | None \<Rightarrow> 253)"
  by (auto simp: floor_or_def MIN_FEERATE_def max_def split: option.splits)

lemma fetch_estimates_answered: "(\<exists>e. fetch_estimates rpc = Ok e) \<longleftrightarrow> list_all (\<lambda>q. is_ok (rpc q)) polled_requests"
  unfolding fetch_estimates_Ok polled_requests_def by (simp add: is_ok_iff) blast

lemma apply_stores_reads:
  assumes "fee_inv fees" "list_all store_ok ss"
  shows "map_of (snd (apply_stores fees ss)) t =
    (case map_of (rev ss) t of Some (Ok x) \<Rightarrow> Some x | _ \<Rightarrow> map_of fees t)"
  using assms
proof (induction ss arbitrary: fees)
  case (Cons s ss)
  obtain u x where s: "s = (u, Ok x)" using Cons.prems(2) by (cases s rule: store_ok.cases) auto
  obtain fees' where f: "store_fee fees s = Ok fees'" "fee_inv fees'"
    using store_fee_keeps [OF Cons.prems(1), of s] Cons.prems(2) by auto
  then have "map_of fees' t = (if t = u then Some x else map_of fees t)"
    using s by (auto simp: bind_out_Ok_iff alist_simps)
  moreover have "\<exists>y. v = Ok y" if "map_of (rev ss) t = Some v" for v
  proof -
    have "(t, v) \<in> set ss" using map_of_SomeD [OF that] by simp
    then have "store_ok (t, v)" using Cons.prems(2) by (simp add: list_all_iff)
    then show ?thesis by (cases v) simp_all
  qed
  ultimately show ?case using Cons.IH [OF f(2)] Cons.prems(2) f(1) s
    by (auto simp: map_add_def split: option.splits)
qed simp

lemma poll_step_anchor:
  assumes "fee_inv fees" "map_of fees AnchorChannelFee = Some rate"
  shows "map_of (poll_step ovf fees (rpc, k)) AnchorChannelFee =
    Some (if list_all (\<lambda>q. is_ok (rpc q)) polled_requests \<and> 5 \<le> k
          then (case rpc (EstimateSmartFee 144 ''ECONOMICAL'') of Ok (Some r) \<Rightarrow> max r 253 | _ \<Rightarrow> 253) else rate)"
proof (cases "\<exists>e. fetch_estimates rpc = Ok e")
  case True
  then obtain e r2 where e: "fetch_estimates rpc = Ok e" "rpc (EstimateSmartFee 144 ''ECONOMICAL'') = Ok r2"
    "background_estimate e = floor_or MIN_FEERATE r2" by (auto simp: fetch_estimates_Ok)
  have stored: "map_of (rev (take k (poll_stores ovf e))) AnchorChannelFee =
      (if 5 \<le> k then Some (Ok (floor_or MIN_FEERATE r2)) else None)"
    by (auto simp: poll_stores_def take_Cons' e(3))
  have "map_of (poll_step ovf fees (rpc, k)) AnchorChannelFee =
      Some (if 5 \<le> k then floor_or MIN_FEERATE r2 else rate)"
    using apply_stores_reads [OF assms(1) list_all_take [OF poll_stores_ok [OF e(1), of ovf], of k], of AnchorChannelFee]
      assms(2) e(1) by (simp add: stored)
  then show ?thesis using e(2) True fetch_estimates_answered [of rpc]
    by (auto simp: floor_or_max split: option.splits)
next
  case False
  then have "poll_step ovf fees (rpc, k) = fees" by (cases "fetch_estimates rpc") auto
  then show ?thesis using False assms(2) fetch_estimates_answered [of rpc] by simp
qed

lemma run_anchor:
  assumes "fee_inv fees" "map_of fees AnchorChannelFee = Some rate"
  shows "map_of (run_steps (poll_step ovf) fees evs) AnchorChannelFee =
    Some (foldl (\<lambda>rate (rpc, k).
       if list_all (\<lambda>q. is_ok (rpc q)) polled_requests \<and> 5 \<le> k
       then (case rpc (EstimateSmartFee 144 ''ECONOMICAL'') of Ok (Some r) \<Rightarrow> max r 253 | _ \<Rightarrow> 253)
       else rate) rate evs)"
  using assms
proof (induction evs arbitrary: fees rate)
  case (Cons e evs)
  obtain rpc k where e: "e = (rpc, k)" by (cases e)
  from Cons.IH [OF poll_step_keeps [OF Cons.prems(1)] poll_step_anchor [OF Cons.prems]] show ?case
    by (simp only: e run_steps.simps foldl_Cons prod.case)
qed simp

text \<open>
  C31. A channel is funded at the fee rate the polling task has published: at every moment of a run
  of that task, whatever bitcoind answered, the transaction is requested at the rate that the last
  answered round has stored for anchor channels, the estimate for 144 blocks, which is at least 253 sat
  per 1000 weight; the output is the channel's, with its amount and lock time.
\<close>

theorem funding_transaction_fee_rate:
  "let rate = ucast (published_anchor_rate evs) in 253 \<le> rate \<and>
     create_funding_transaction lib (run_steps (poll_step ovf) initial_fees evs) script amt AnchorChannelFee lock s =
     (case finish_tx lib (inner s) \<lparr>recipient = (script, amt), fee_rate_kwu = rate, nlocktime = lock\<rparr> of
        (r, w) \<Rightarrow>
          (bind_out (unwrap_res r) (\<lambda>psbt.
           bind_out (unwrap_res (sign_tx lib w False psbt)) (\<lambda>signed.
           unwrap_res (extract_tx lib signed))), s\<lparr>inner := w\<rparr>))"
proof -
  let ?fees = "run_steps (poll_step ovf) initial_fees evs"
  have start: "map_of initial_fees AnchorChannelFee = Some 253" by (simp add: initial_fees_def Let_def MIN_FEERATE_def)
  define w where "w = published_anchor_rate evs"
  have m: "map_of ?fees AnchorChannelFee = Some w"
    using run_anchor [OF fee_inv_initial start, of ovf evs] by (simp only: w_def published_anchor_rate_def)
  then have w: "get_est_sat_per_1000_weight ?fees AnchorChannelFee = Ok w" "fee_floor AnchorChannelFee \<le> w"
    using fee_polling.run_keeps [OF fee_inv_initial, of ovf evs]
    by (auto simp: fee_inv_def get_est_sat_per_1000_weight_def) (metis option.inject)
  have "unat (253 :: u32) \<le> unat w" using w(2) by (simp add: fee_floor_def MIN_FEERATE_def word_le_nat_alt)
  moreover have "unat (ucast w :: u64) = unat w"
    using unsigned_less [of w, where 'a = nat] by (simp add: unsigned_ucast_eq take_bit_nat_eq_self)
  ultimately have "(253 :: u64) \<le> ucast w" by (simp add: word_le_nat_alt)
  then show ?thesis using w(1) by (simp add: create_funding_transaction_def Let_def w_def)
qed

end
