(* ===== verification/Node_Start.thy ===== *)
theory Node_Start imports Startup Payments Wallet begin

text \<open>
  \<open>start_ldk\<close> of \<open>src/src/main.rs\<close> from the seed to the payment tables: the wallet, the
  keys, the channel monitors, the network graph and the scorer of \<open>src/src/disk.rs\<close>, the
  channel manager, the output sweeper, and their synchronisation with the chain. The objects of
  \<open>lightning\<close> are what their readers and constructors give, in \<open>services_env\<close>; the state is
  the store on the data directory.
\<close>

section \<open>What the library provides\<close>

type_synonym block_hash = bytes

text \<open>\<open>BestBlock\<close>, and a channel monitor with the output that funds its channel.\<close>

record best_block =
  block_hash :: block_hash
  height :: u32

record monitor =
  funding_txo :: "bytes \<times> u16"
  monitor_data :: bytes

text \<open>The settings of the node that differ from the library's defaults.\<close>

record user_config =
  force_announced_channel_preference :: bool
  negotiate_anchors_zero_fee_htlc_tx :: bool
  manually_accept_inbound_channels :: bool

text \<open>What is brought up to the chain's tip: each listener from the block it had seen.\<close>

datatype ('m, 's) listener = Manager 'm | Sweeper 's | Monitor monitor

datatype watch_answer = Completed | In_progress | Watch_error

record ('w, 'u, 'x, 'g, 'c, 'm, 's) services_env =
  bdk :: "('w, 'u) bdk"
  wallet_db :: "'w option"
  xpriv_new_master :: "bitcoin_network \<Rightarrow> bytes \<Rightarrow> 'x option"
  xpriv_derive :: "'x \<Rightarrow> u32 \<Rightarrow> 'x option"
  secret_bytes :: "'x \<Rightarrow> bytes"
  now_secs :: u64
  later_secs :: u64
  all_monitors :: "(string, (block_hash \<times> monitor) list) outcome"
  best_block_answer :: "(string, block_hash \<times> u32 option) outcome"
  polled_tip :: "(string, best_block) outcome"
  read_graph :: "bytes \<Rightarrow> 'g option"
  new_graph :: "bitcoin_network \<Rightarrow> 'g"
  read_scorer_from :: "'g \<Rightarrow> bytes \<Rightarrow> 'c option"
  new_scorer :: "'g \<Rightarrow> 'c"
  default_config :: user_config
  read_manager :: "user_config \<Rightarrow> monitor list \<Rightarrow> bytes \<Rightarrow> (string, block_hash \<times> 'm) outcome"
  new_manager :: "user_config \<Rightarrow> bitcoin_network \<Rightarrow> best_block \<Rightarrow> u32 \<Rightarrow> 'm"
  current_best_block :: "'m \<Rightarrow> best_block"
  sweeper_namespace :: "string \<times> string \<times> string"
  new_sweeper :: "best_block \<Rightarrow> 's"
  read_sweeper :: "bytes \<Rightarrow> (best_block \<times> 's) option"
  synchronize_listeners :: "(block_hash \<times> ('m, 's) listener) list \<Rightarrow> (string, best_block) outcome"
  watch_channel :: "bytes \<times> u16 \<Rightarrow> monitor \<Rightarrow> watch_answer"

text \<open>The node that a start builds, with what it asked of the chain monitor.\<close>

record ('w, 'g, 'c, 'm, 's) services =
  on_chain_wallet :: "'w wallet"
  ldk_seed :: bytes
  network_graph :: 'g
  scorer :: 'c
  channel_manager :: 'm
  output_sweeper :: 's
  restarting_node :: bool
  synced :: "(block_hash \<times> ('m, 's) listener) list"
  watched :: "((bytes \<times> u16) \<times> monitor) list"
  chain_tip :: best_block

type_synonym 'a start = "(kvstore, unit, 'a) st"

text \<open>\<open>Option::expect\<close> and \<open>Result::expect\<close>.\<close>

fun expect_opt :: "string \<Rightarrow> 'a option \<Rightarrow> (unit, 'a) outcome" where
  "expect_opt msg (Some a) = Ok a"
| "expect_opt msg None = Panic msg"

fun expect_res :: "string \<Rightarrow> (string, 'a) outcome \<Rightarrow> (unit, 'a) outcome" where
  "expect_res msg (Ok a) = Ok a"
| "expect_res msg (Err e) = Panic (msg @ '': '' @ e)"
| "expect_res msg (Panic m) = Panic m"

section \<open>Keys\<close>

text \<open>The seed of the Lightning keys: child 535' of the master key.\<close>

definition derive_ldk_seed ::
  "('w, 'u, 'x, 'g, 'c, 'm, 's) services_env \<Rightarrow> bitcoin_network \<Rightarrow> bytes \<Rightarrow> (unit, bytes) outcome" where
  "derive_ldk_seed env net key =
     bind_out (unwrap_opt (xpriv_new_master env net key)) (\<lambda>xprv.
     bind_out (expect_opt ''Your RNG is busted'' (xpriv_derive env xprv 535)) (\<lambda>ldk_xprv.
     Ok (secret_bytes env ldk_xprv)))"

section \<open>Objects read from the data directory\<close>

text \<open>
  \<open>read_network\<close> and \<open>read_scorer\<close>: what the file decodes to, or a new one when it cannot
  be opened, read or decoded.
\<close>

definition read_or_new :: "(bytes \<Rightarrow> 'a option) \<Rightarrow> 'a \<Rightarrow> path \<Rightarrow> kvstore \<Rightarrow> 'a \<times> kvstore" where
  "read_or_new dec fresh path s =
     (case on_disk (sys (fs_open path)) s of
        (Ok file, s1) \<Rightarrow>
          (case on_disk (sys (fs_read path)) s1 of
             (Ok buf, s2) \<Rightarrow> ((case dec buf of Some a \<Rightarrow> a | None \<Rightarrow> fresh), s2)
           | (_, s2) \<Rightarrow> (fresh, s2))
      | (_, s1) \<Rightarrow> (fresh, s1))"

definition read_network ::
  "('w, 'u, 'x, 'g, 'c, 'm, 's) services_env \<Rightarrow> bitcoin_network \<Rightarrow> path \<Rightarrow> 'g start" where
  "read_network env net path s =
     (case read_or_new (read_graph env) (new_graph env net) path s of (g, s') \<Rightarrow> (Ok g, s'))"

definition read_scorer :: "('w, 'u, 'x, 'g, 'c, 'm, 's) services_env \<Rightarrow> 'g \<Rightarrow> path \<Rightarrow> 'c start" where
  "read_scorer env graph path s =
     (case read_or_new (read_scorer_from env graph) (new_scorer env graph) path s of (g, s') \<Rightarrow> (Ok g, s'))"

definition node_config :: "user_config \<Rightarrow> user_config" where
  "node_config dflt =
     dflt\<lparr>force_announced_channel_preference := False, negotiate_anchors_zero_fee_htlc_tx := True,
          manually_accept_inbound_channels := True\<rparr>"

text \<open>
  The channel manager: read when its file opens, and then a failed read or decode is a panic; otherwise
  the node is taken for a fresh one. The result says which.
\<close>

definition load_manager ::
  "('w, 'u, 'x, 'g, 'c, 'm, 's) services_env \<Rightarrow> bitcoin_network \<Rightarrow> (block_hash \<times> monitor) list \<Rightarrow> best_block \<Rightarrow>
   path \<Rightarrow> (bool \<times> block_hash \<times> 'm) start" where
  "load_manager env net channelmonitors tip path s =
     (let config = node_config (default_config env) in
      case on_disk (sys (fs_open path)) s of
        (Ok f, s1) \<Rightarrow>
          (case on_disk (sys (fs_read path)) s1 of
             (Ok buf, s2) \<Rightarrow>
               (bind_out (unwrap_res (read_manager env config (map snd channelmonitors) buf)) (\<lambda>(hash, m).
                Ok (True, hash, m)), s2)
           | (Err e, s2) \<Rightarrow> (Panic ''called `Result::unwrap()` on an `Err` value'', s2)
           | (Panic p, s2) \<Rightarrow> (Panic p, s2))
      | (_, s1) \<Rightarrow>
          (Ok (False, block_hash tip, new_manager env config net tip (ucast (now_secs env))), s1))"

text \<open>The output sweeper: from the store, or a new one when the store has none.\<close>

definition load_sweeper ::
  "('w, 'u, 'x, 'g, 'c, 'm, 's) services_env \<Rightarrow> 'm \<Rightarrow> (best_block \<times> 's) start" where
  "load_sweeper env manager s =
     (case sweeper_namespace env of (prim, sec, key) \<Rightarrow>
        (case kv_read prim sec key s of
           (Err NotFound, s') \<Rightarrow>
             (Ok (current_best_block env manager, new_sweeper env (current_best_block env manager)), s')
         | (Ok buf, s') \<Rightarrow> (expect_opt ''Failed to deserialize OutputSweeper'' (read_sweeper env buf), s')
         | (Err e, s') \<Rightarrow> (Panic ''Failed to read OutputSweeper'', s')
         | (Panic p, s') \<Rightarrow> (Panic p, s')))"

section \<open>Catching up with the chain\<close>

definition chain_listeners ::
  "block_hash \<times> 'm \<Rightarrow> best_block \<times> 's \<Rightarrow> (block_hash \<times> monitor) list \<Rightarrow> (block_hash \<times> ('m, 's) listener) list" where
  "chain_listeners manager sweeper channelmonitors =
     [(fst manager, Manager (snd manager)), (block_hash (fst sweeper), Sweeper (snd sweeper))] @
     map (\<lambda>(hash, m). (hash, Monitor m)) channelmonitors"

text \<open>\<open>assert_eq!(chain_monitor.watch_channel(..), Ok(Completed))\<close> for each monitor.\<close>

fun give_monitors ::
  "(bytes \<times> u16 \<Rightarrow> monitor \<Rightarrow> watch_answer) \<Rightarrow> monitor list \<Rightarrow> (unit, ((bytes \<times> u16) \<times> monitor) list) outcome" where
  "give_monitors watch [] = Ok []"
| "give_monitors watch (m # ms) =
     (if watch (funding_txo m) m \<noteq> Completed then Panic ''assertion `left == right` failed''
      else bind_out (give_monitors watch ms) (\<lambda>rest. Ok ((funding_txo m, m) # rest)))"

text \<open>Only a node that restarts catches up, and only then are its monitors kept.\<close>

definition catch_up ::
  "('w, 'u, 'x, 'g, 'c, 'm, 's) services_env \<Rightarrow> bool \<Rightarrow> block_hash \<times> 'm \<Rightarrow> best_block \<times> 's \<Rightarrow>
   (block_hash \<times> monitor) list \<Rightarrow> best_block \<Rightarrow>
   (unit, (block_hash \<times> ('m, 's) listener) list \<times> monitor list \<times> best_block) outcome" where
  "catch_up env restarting manager sweeper channelmonitors tip =
     (if restarting
      then (let listeners = chain_listeners manager sweeper channelmonitors in
            bind_out (unwrap_res (synchronize_listeners env listeners)) (\<lambda>tip'.
            Ok (listeners, map snd channelmonitors, tip')))
      else Ok ([], [], tip))"

text \<open>\<open>current_time.try_into().unwrap()\<close>, the time that the peer manager takes as a \<open>u32\<close>.\<close>

definition peer_manager_time :: "u64 \<Rightarrow> (unit, u32) outcome" where
  "peer_manager_time t =
     (if t < 4294967296 then Ok (ucast t) else Panic ''called `Result::unwrap()` on an `Err` value'')"

section \<open>The whole\<close>

definition services_in ::
  "('w, 'u, 'x, 'g, 'c, 'm, 's) services_env \<Rightarrow> bitcoin_network \<Rightarrow> bytes \<Rightarrow> path \<Rightarrow>
   ('w, 'g, 'c, 'm, 's) services start" where
  "services_in env net key dir =
     (bind_st (lift_st (unwrap_res (new_from_seed (bdk env) (wallet_db env)))) (\<lambda>wallet.
      bind_st (lift_st (derive_ldk_seed env net key)) (\<lambda>ldk_seed.
      bind_st (lift_st (unwrap_res (all_monitors env))) (\<lambda>channelmonitors.
      bind_st (lift_st (unwrap_res (best_block_answer env))) (\<lambda>_.
      bind_st (lift_st (expect_res ''Failed to fetch best block header and best block'' (polled_tip env))) (\<lambda>tip.
      bind_st (read_network env net (dir @ [''network_graph''])) (\<lambda>graph.
      bind_st (read_scorer env graph (dir @ [''scorer''])) (\<lambda>score.
      bind_st (load_manager env net channelmonitors tip (dir @ [''manager''])) (\<lambda>(restarting, hash, manager).
      bind_st (load_sweeper env manager) (\<lambda>sweeper.
      bind_st (lift_st (catch_up env restarting (hash, manager) sweeper channelmonitors tip)) (\<lambda>(listeners, monitors, tip').
      bind_st (lift_st (give_monitors (watch_channel env) monitors)) (\<lambda>given.
      bind_st (lift_st (peer_manager_time (later_secs env))) (\<lambda>_.
      return_st \<lparr>on_chain_wallet = wallet, ldk_seed = ldk_seed, network_graph = graph, scorer = score,
        channel_manager = manager, output_sweeper = snd sweeper, restarting_node = restarting,
        synced = listeners, watched = given, chain_tip = tip'\<rparr>)))))))))))))"

definition start_services ::
  "('w, 'u, 'x, 'g, 'c, 'm, 's) services_env \<Rightarrow> bitcoin_network \<Rightarrow> bytes \<Rightarrow>
   ('w, 'g, 'c, 'm, 's) services start" where
  "start_services env net key s = services_in env net key (data_dir (cfg s)) s"

section \<open>What a start ends with\<close>

lemma bind_st_Ok_iff: "bind_st m f s = (Ok b, s') \<longleftrightarrow> (\<exists>a s1. m s = (Ok a, s1) \<and> f a s1 = (Ok b, s'))"
  by (auto simp: bind_st_def split: prod.splits outcome.splits)

lemma lift_st_Ok_iff: "lift_st r s = (Ok a, s') \<longleftrightarrow> r = Ok a \<and> s' = s"
  by (auto simp: lift_st_def)

lemma return_st_Ok_iff: "return_st a s = (Ok b, s') \<longleftrightarrow> b = a \<and> s' = s"
  by (auto simp: return_st_def)

lemmas st_Ok_iffs = bind_st_Ok_iff lift_st_Ok_iff return_st_Ok_iff

lemma give_monitors_Ok:
  "give_monitors watch ms = Ok given \<Longrightarrow>
     given = map (\<lambda>m. (funding_txo m, m)) ms \<and> list_all (\<lambda>m. watch (funding_txo m) m = Completed) ms"
  by (induction ms arbitrary: given) (auto simp: bind_out_Ok_iff split: if_splits)

text \<open>The state in which the manager's file is opened.\<close>

definition before_manager ::
  "('w, 'u, 'x, 'g, 'c, 'm, 's) services_env \<Rightarrow> bitcoin_network \<Rightarrow> kvstore \<Rightarrow> kvstore" where
  "before_manager env net s =
     (case read_or_new (read_graph env) (new_graph env net) (data_dir (cfg s) @ [''network_graph'']) s of
        (g, s1) \<Rightarrow> snd (read_or_new (read_scorer_from env g) (new_scorer env g) (data_dir (cfg s) @ [''scorer'']) s1))"

definition manager_opens ::
  "('w, 'u, 'x, 'g, 'c, 'm, 's) services_env \<Rightarrow> bitcoin_network \<Rightarrow> kvstore \<Rightarrow> bool" where
  "manager_opens env net s =
     is_ok (fst (on_disk (sys (fs_open (data_dir (cfg s) @ [''manager'']))) (before_manager env net s)))"

lemma load_manager_restarting:
  "load_manager env net ms tip path s = (Ok (restarting, hash, m), s') \<Longrightarrow>
     restarting = is_ok (fst (on_disk (sys (fs_open path)) s)) \<and>
     (\<not> restarting \<longrightarrow> hash = block_hash tip \<and>
        m = new_manager env (node_config (default_config env)) net tip (ucast (now_secs env)))"
  by (auto simp: load_manager_def Let_def bind_out_Ok_iff split: prod.splits outcome.splits)

lemma start_services_Ok:
  assumes "start_services env net key s = (Ok n, s')"
  obtains ms tip hash sweeper where "all_monitors env = Ok ms" "polled_tip env = Ok tip"
    "restarting_node n = manager_opens env net s"
    "catch_up env (restarting_node n) (hash, channel_manager n) sweeper ms tip = Ok (synced n, map snd (if restarting_node n then ms else []), chain_tip n)"
    "watched n = map (\<lambda>m. (funding_txo m, m)) (map snd (if restarting_node n then ms else []))"
    "\<not> restarting_node n \<Longrightarrow> channel_manager n = new_manager env (node_config (default_config env)) net tip (ucast (now_secs env))"
    "output_sweeper n = snd sweeper" "later_secs env < 4294967296"
    "list_all (\<lambda>m. watch_channel env (funding_txo m) m = Completed) (map snd (if restarting_node n then ms else []))"
    "derive_ldk_seed env net key = Ok (ldk_seed n)"
proof -
  let ?dir = "data_dir (cfg s)"
  from assms obtain wl ms bb tip g s1 sc s2 hash m s3 sw s4 ls mons tip' given seed t where
    a: "all_monitors env = Ok ms" "polled_tip env = Ok tip" "derive_ldk_seed env net key = Ok seed"
    and g: "read_network env net (?dir @ [''network_graph'']) s = (Ok g, s1)"
    and sc: "read_scorer env g (?dir @ [''scorer'']) s1 = (Ok sc, s2)"
    and m: "load_manager env net ms tip (?dir @ [''manager'']) s2 = (Ok (restarting_node n, hash, m), s3)"
    and sw: "load_sweeper env m s3 = (Ok sw, s4)"
    and c: "catch_up env (restarting_node n) (hash, m) sw ms tip = Ok (ls, mons, tip')"
    and w: "give_monitors (watch_channel env) mons = Ok given"
    and t: "peer_manager_time (later_secs env) = Ok t"
    and n: "channel_manager n = m" "output_sweeper n = snd sw" "synced n = ls" "watched n = given" "chain_tip n = tip'"
      "ldk_seed n = seed"
    unfolding start_services_def services_in_def
    by (auto simp: st_Ok_iffs split: prod.splits elim!: expect_res.elims)
  have before: "s2 = before_manager env net s"
    using g sc by (auto simp: read_network_def read_scorer_def before_manager_def split: prod.splits)
  note M = load_manager_restarting [OF m]
  have mons: "mons = map snd (if restarting_node n then ms else [])"
    using c by (auto simp: catch_up_def Let_def bind_out_Ok_iff split: if_splits)
  show thesis
    by (rule that [OF a(1,2), of hash sw])
      (use M c mons give_monitors_Ok [OF w] t n before a(3) in
        \<open>auto simp: manager_opens_def peer_manager_time_def split: if_splits\<close>)
qed

section \<open>Properties\<close>

definition sample_monitor :: monitor where
  "sample_monitor = \<lparr>funding_txo = ([1], 0), monitor_data = [9]\<rparr>"

definition sample_services :: "u64 \<Rightarrow> (nat, nat, bytes, nat, nat, bytes, bytes) services_env" where
  "sample_services t = \<lparr>bdk = sample_bdk, wallet_db = None, xpriv_new_master = (\<lambda>n k. Some k),
     xpriv_derive = (\<lambda>x i. Some x), secret_bytes = rev, now_secs = t, later_secs = t,
     all_monitors = Ok [([5], sample_monitor)], best_block_answer = Ok ([7], Some 3),
     polled_tip = Ok \<lparr>block_hash = [7], height = 3\<rparr>, read_graph = (\<lambda>b. None), new_graph = (\<lambda>n. 0),
     read_scorer_from = (\<lambda>g b. None), new_scorer = (\<lambda>g. 0),
     default_config = \<lparr>force_announced_channel_preference = True, negotiate_anchors_zero_fee_htlc_tx = False,
       manually_accept_inbound_channels = False\<rparr>,
     read_manager = (\<lambda>cf ms b. Ok ([4], b)), new_manager = (\<lambda>cf n b t. [0]),
     current_best_block = (\<lambda>m. \<lparr>block_hash = [4], height = 1\<rparr>), sweeper_namespace = ([], [], ''output_sweeper''),
     new_sweeper = (\<lambda>b. [8]), read_sweeper = (\<lambda>b. None),
     synchronize_listeners = (\<lambda>ls. Ok \<lparr>block_hash = [7], height = 3\<rparr>), watch_channel = (\<lambda>o1 m. Completed)\<rparr>"

text \<open>A store with a channel manager, and the faults of the coming system calls.\<close>

definition stored_manager :: "(io_error \<times> nat) option list \<Rightarrow> kvstore" where
  "stored_manager fl =
     (let s = snd (kv_put ([], [], ''manager'') [6, 6] (sample_store [])) in s\<lparr>dsk := (dsk s)\<lparr>faults := fl\<rparr>\<rparr>)"

text \<open>
  C13. A restart loses no channel. When the file of the channel manager opens, a start that succeeds
  hands every stored channel monitor to the chain monitor, under the output that funds its channel, in
  order; and before that the manager, the sweeper and each monitor were brought to the chain's tip, each
  from the block it had seen.
\<close>

theorem restart_watches_every_monitor:
  assumes "start_services env net key s = (Ok n, s')" "manager_opens env net s" "all_monitors env = Ok ms"
  shows "watched n = map (\<lambda>(hash, m). (funding_txo m, m)) ms \<and>
    (\<exists>hash (best :: best_block). synced n = [(hash, Manager (channel_manager n)), (block_hash best, Sweeper (output_sweeper n))] @
       map (\<lambda>(hash, m). (hash, Monitor m)) ms) \<and>
    synchronize_listeners env (synced n) = Ok (chain_tip n)"
proof (rule start_services_Ok [OF assms(1)])
  fix ms' tip hash sweeper
  assume h: "all_monitors env = Ok ms'" "restarting_node n = manager_opens env net s"
    "catch_up env (restarting_node n) (hash, channel_manager n) sweeper ms' tip =
       Ok (synced n, map snd (if restarting_node n then ms' else []), chain_tip n)"
    "watched n = map (\<lambda>m. (funding_txo m, m)) (map snd (if restarting_node n then ms' else []))"
    "output_sweeper n = snd sweeper"
  have r: "restarting_node n" "ms' = ms" using h assms(2,3) by simp_all
  then have c: "synced n = chain_listeners (hash, channel_manager n) sweeper ms"
    "synchronize_listeners env (synced n) = Ok (chain_tip n)"
    using h(3) by (auto simp: catch_up_def Let_def bind_out_Ok_iff)
  have "watched n = map (\<lambda>(hash, m). (funding_txo m, m)) ms" using h(4) r by (simp add: case_prod_beta comp_def)
  moreover have "synced n = [(hash, Manager (channel_manager n)), (block_hash (fst sweeper), Sweeper (output_sweeper n))] @
      map (\<lambda>(hash, m). (hash, Monitor m)) ms"
    using c(1) h(5) by (simp add: chain_listeners_def)
  ultimately show ?thesis using c(2) by blast
qed

theorem restart_watches_every_monitor_witness:
  "case start_services (sample_services 100) Regtest [1, 2] (stored_manager []) of
     (Ok n, s') \<Rightarrow> watched n = [(([1], 0), sample_monitor)] \<and> channel_manager n = [6, 6]
   | _ \<Rightarrow> False"
proof -
  let ?st = "start_services (sample_services 100) Regtest [1, 2] (stored_manager [])"
  obtain n where n: "fst ?st = Ok n" "channel_manager n = [6, 6]"
  proof -
    have "case fst ?st of Ok n \<Rightarrow> channel_manager n = [6, 6] | _ \<Rightarrow> False" by code_simp
    then show thesis using that by (cases "fst ?st") auto
  qed
  then have st: "?st = (Ok n, snd ?st)" by (metis prod.collapse)
  have "manager_opens (sample_services 100) Regtest (stored_manager [])" by code_simp
  from restart_watches_every_monitor [OF st this, of "[([5], sample_monitor)]"] n show ?thesis
    by (subst st) (simp add: sample_services_def sample_monitor_def)
qed

text \<open>
  C14. A failed open abandons the channels. Whatever the reason the file of the channel manager does not
  open, an error of the disk or too many open files included, the start takes the node for a fresh one:
  with a new channel manager, and with none of the stored monitors watched or brought up to date.
\<close>

theorem unopened_manager_abandons_monitors:
  assumes "start_services env net key s = (Ok n, s')" "\<not> manager_opens env net s" "polled_tip env = Ok tip"
  shows "watched n = [] \<and> synced n = [] \<and> chain_tip n = tip \<and>
    channel_manager n = new_manager env (node_config (default_config env)) net tip (ucast (now_secs env))"
  by (rule start_services_Ok [OF assms(1)]) (use assms(2,3) in \<open>simp add: catch_up_def\<close>)

theorem unopened_manager_abandons_monitors_witness:
  "content_at (cur (dsk (stored_manager [None, None, Some (OtherError ''EMFILE'', 0)]))) [''data'', ''manager''] = Some [6, 6] \<and>
   all_monitors (sample_services 100) = Ok [([5], sample_monitor)] \<and>
   (case start_services (sample_services 100) Regtest [1, 2] (stored_manager [None, None, Some (OtherError ''EMFILE'', 0)]) of
      (Ok n, s') \<Rightarrow> watched n = [] \<and> channel_manager n = [0]
    | _ \<Rightarrow> False)"
proof -
  let ?s = "stored_manager [None, None, Some (OtherError ''EMFILE'', 0)]"
  let ?st = "start_services (sample_services 100) Regtest [1, 2] ?s"
  have "is_ok (fst ?st)" by code_simp
  then obtain n where "fst ?st = Ok n" by (auto simp: is_ok_iff)
  then have st: "?st = (Ok n, snd ?st)" by (metis prod.collapse)
  have "\<not> manager_opens (sample_services 100) Regtest ?s" by code_simp
  from unopened_manager_abandons_monitors [OF st this, of "\<lparr>block_hash = [7], height = 3\<rparr>"]
  have "watched n = [] \<and> channel_manager n = [0]" by (simp add: sample_services_def)
  then have "case ?st of (Ok n, s') \<Rightarrow> watched n = [] \<and> channel_manager n = [0] | _ \<Rightarrow> False" by (subst st) simp
  moreover have "content_at (cur (dsk ?s)) [''data'', ''manager''] = Some [6, 6]" by code_simp
  ultimately show ?thesis by (simp add: sample_services_def)
qed

text \<open>
  The time a fresh node starts from is not cut off: the cast of the seconds to 32 bits would lose
  bits from 2106 on, but a start that succeeds has passed the checked conversion of a later time.
\<close>

theorem start_time_not_truncated:
  assumes "start_services env net key s = (Ok n, s')" "now_secs env \<le> later_secs env"
  shows "unat (ucast (now_secs env) :: u32) = unat (now_secs env)"
proof (rule start_services_Ok [OF assms(1)])
  assume "later_secs env < 4294967296"
  then have "unat (now_secs env) < 4294967296" using assms(2) by (simp add: word_le_nat_alt word_less_nat_alt)
  then show ?thesis by (simp add: unsigned_ucast_eq take_bit_nat_eq_self)
qed

theorem start_time_not_truncated_witness:
  "is_ok (fst (start_services (sample_services 1700000000) Regtest [1, 2] (stored_manager []))) \<and>
   unat (ucast (1700000000 :: u64) :: u32) = 1700000000 \<and>
   \<not> is_ok (fst (start_services (sample_services 4294967296) Regtest [1, 2] (stored_manager [])))"
proof -
  let ?st = "\<lambda>t. start_services (sample_services t) Regtest [1, 2] (stored_manager [])"
  have ok: "is_ok (fst (?st 1700000000))" by code_simp
  then obtain n where "fst (?st 1700000000) = Ok n" by (auto simp: is_ok_iff)
  then have st: "?st 1700000000 = (Ok n, snd (?st 1700000000))" by (metis prod.collapse)
  have "unat (ucast (1700000000 :: u64) :: u32) = unat (1700000000 :: u64)"
    using start_time_not_truncated [OF st] by (simp add: sample_services_def)
  moreover have "\<not> is_ok (fst (?st 4294967296))"
  proof
    assume "is_ok (fst (?st 4294967296))"
    then obtain n where "fst (?st 4294967296) = Ok n" by (auto simp: is_ok_iff)
    then have "?st 4294967296 = (Ok n, snd (?st 4294967296))" by (metis prod.collapse)
    then have "later_secs (sample_services 4294967296) < 4294967296" by (rule start_services_Ok)
    then show False by (simp add: sample_services_def)
  qed
  ultimately show ?thesis using ok by simp
qed

end
