(* ===== verification/Boot.thy ===== *)
theory Boot imports Runtime_Props Node_Start begin

text \<open>
  The start of the node as a whole: \<open>start_ldk\<close> of \<open>src/src/main.rs\<close> from the command line to
  the running tasks, composed of \<open>Startup\<close>, \<open>Node_Start\<close> and \<open>Payments\<close>; and the proof that
  it ends in a state from which the theorems on the running node hold.
\<close>

section \<open>The composition\<close>

text \<open>
  The store is opened on the data directory; \<open>recent\<close> is \<open>list_recent_payments\<close> of the channel
  manager, \<open>store_cfg\<close> the alphabet and limits of the store. The second store of the command loop
  is on the same disk. An early return of \<open>start_ldk\<close> is \<open>None\<close>.
\<close>

definition start_runtime :: "config \<Rightarrow> payment_db \<Rightarrow> string \<Rightarrow> runtime" where
  "start_runtime c d out =
     \<lparr>node = \<lparr>db = d, stdout = out, calls = []\<rparr>,
      shell = \<lparr>pay_db = d\<lparr>fs_store := store_new c (dsk (fs_store d))\<rparr>, screen = [], requests = [], peers = []\<rparr>,
      offer_stage = Idle, running = True\<rparr>"

definition boot_node ::
  "boot_env \<Rightarrow> ('w, 'u, 'x, 'g, 'c, 'm, 's) services_env \<Rightarrow> (payments \<Rightarrow> bytes) \<Rightarrow> (bytes \<Rightarrow> payments option) \<Rightarrow>
   ('m \<Rightarrow> bytes list) \<Rightarrow> (path \<Rightarrow> config) \<Rightarrow> boot_state \<Rightarrow>
   (unit, (('w, 'g, 'c, 'm, 's) services \<times> runtime) option) outcome" where
  "boot_node env senv e dec recent store_cfg s =
     (case start_ldk env s of
        (Err x, s1) \<Rightarrow> Err x
      | (Panic m, s1) \<Rightarrow> Panic m
      | (Ok None, s1) \<Rightarrow> Ok None
      | (Ok (Some (args, key)), s1) \<Rightarrow>
          (let c = store_cfg (ldk_data_dir args) in
           case start_services senv (node_network args) key (store_new c (boot_disk s1)) of
             (Err x, kv) \<Rightarrow> Err x
           | (Panic m, kv) \<Rightarrow> Panic m
           | (Ok n, kv) \<Rightarrow>
               (case load_payments e dec (recent (channel_manager n)) kv of
                  (Ok _, d) \<Rightarrow> Ok (Some (n, start_runtime c d (boot_out s1)))
                | (Err x, d) \<Rightarrow> Err x
                | (Panic m, d) \<Rightarrow> Panic m)))"

section \<open>Computations that only read\<close>

definition reading :: "(kvstore \<Rightarrow> 'a \<times> kvstore) \<Rightarrow> bool" where
  "reading m \<longleftrightarrow> (\<forall>s. cur (dsk (snd (m s))) = cur (dsk s) \<and> cfg (snd (m s)) = cfg s \<and>
     (faults (dsk s) = [] \<longrightarrow> faults (dsk (snd (m s))) = []))"

named_theorems reading_rules

lemma readingD: "reading m \<Longrightarrow> m s = (r, s') \<Longrightarrow>
    cur (dsk s') = cur (dsk s) \<and> cfg s' = cfg s \<and> (faults (dsk s) = [] \<longrightarrow> faults (dsk s') = [])"
  unfolding reading_def by (metis snd_conv)

lemma reading_bind [reading_rules]: "reading m \<Longrightarrow> (\<And>a. reading (f a)) \<Longrightarrow> reading (bind_st m f)"
proof -
  assume m: "reading m" and f: "\<And>a. reading (f a)"
  have "cur (dsk (snd (bind_st m f s))) = cur (dsk s) \<and> cfg (snd (bind_st m f s)) = cfg s \<and>
      (faults (dsk s) = [] \<longrightarrow> faults (dsk (snd (bind_st m f s))) = [])" for s
  proof (cases "m s")
    case (Pair r s1)
    show ?thesis
    proof (cases r)
      case (Ok a)
      obtain r2 s2 where "f a s1 = (r2, s2)" by fastforce
      with Pair Ok readingD [OF m Pair] readingD [OF f this] show ?thesis by (simp add: bind_st_def)
    qed (use Pair readingD [OF m Pair] in \<open>simp_all add: bind_st_def\<close>)
  qed
  then show ?thesis by (simp add: reading_def)
qed

lemma reading_basic [reading_rules]: "reading (return_st a)" "reading (lift_st r)" "reading (check_st p n k)"
  "reading (dest_st p n x)"
  by (simp_all add: reading_def return_st_def lift_st_def check_st_def dest_st_def)

lemma reading_gc [reading_rules]: "reading gc_st"
  by (simp add: reading_def gc_st_def garbage_collect_locks_def Let_def)

lemma reading_sys [reading_rules]: "reading (on_disk (sys (fs_open p)))" "reading (on_disk (sys (fs_read p)))"
  using open_read_same by (auto simp: reading_def on_disk_def sys_def perform_def next_fault_def split: prod.splits option.splits)
    (metis snd_conv)+

lemma reading_lock [reading_rules]: "reading m \<Longrightarrow> reading (with_lock p m)"
proof -
  assume m: "reading m"
  have "cur (dsk (snd (with_lock p m s))) = cur (dsk s) \<and> cfg (snd (with_lock p m s)) = cfg s \<and>
      (faults (dsk s) = [] \<longrightarrow> faults (dsk (snd (with_lock p m s))) = [])" for s
    using readingD [OF m, of "acquire p s"]
    by (cases "m (acquire p s)") (auto simp: with_lock_def acquire_def release_def Let_def split: option.splits)
  then show ?thesis by (simp add: reading_def)
qed

lemma reading_kv_read [reading_rules]: "reading (kv_read p n x)"
  unfolding kv_read_def by (intro reading_rules)

lemma reading_read_or_new: "reading (read_or_new d fresh p)"
proof -
  note R = reading_sys
  show ?thesis unfolding reading_def
  proof
    fix s
    obtain r1 s1 where o: "on_disk (sys (fs_open p)) s = (r1, s1)" by fastforce
    obtain r2 s2 where r: "on_disk (sys (fs_read p)) s1 = (r2, s2)" by fastforce
    show "cur (dsk (snd (read_or_new d fresh p s))) = cur (dsk s) \<and> cfg (snd (read_or_new d fresh p s)) = cfg s \<and>
      (faults (dsk s) = [] \<longrightarrow> faults (dsk (snd (read_or_new d fresh p s))) = [])"
      using readingD [OF R(1) o] readingD [OF R(2) r] o r
      by (cases r1; cases r2) (auto simp: read_or_new_def)
  qed
qed

lemma reading_objects [reading_rules]: "reading (read_network env net p)" "reading (read_scorer env g p)"
  using reading_read_or_new unfolding reading_def read_network_def read_scorer_def
  by (simp_all add: case_prod_beta)

lemma reading_load_manager [reading_rules]: "reading (load_manager env net ms tip p)"
  unfolding reading_def
proof
  fix s
  obtain r1 s1 where o: "on_disk (sys (fs_open p)) s = (r1, s1)" by fastforce
  obtain r2 s2 where r: "on_disk (sys (fs_read p)) s1 = (r2, s2)" by fastforce
  show "cur (dsk (snd (load_manager env net ms tip p s))) = cur (dsk s) \<and> cfg (snd (load_manager env net ms tip p s)) = cfg s \<and>
      (faults (dsk s) = [] \<longrightarrow> faults (dsk (snd (load_manager env net ms tip p s))) = [])"
    using readingD [OF reading_sys(1) o] readingD [OF reading_sys(2) r] o r
    by (cases r1; cases r2) (auto simp: load_manager_def Let_def)
qed

lemma reading_load_sweeper [reading_rules]: "reading (load_sweeper env m)"
proof -
  obtain p n x where k: "sweeper_namespace env = (p, n, x)" by (cases "sweeper_namespace env")
  show ?thesis unfolding reading_def
  proof
    fix s
    obtain r s' where "kv_read p n x s = (r, s')" by fastforce
    with readingD [OF reading_kv_read this] show "cur (dsk (snd (load_sweeper env m s))) = cur (dsk s) \<and>
        cfg (snd (load_sweeper env m s)) = cfg s \<and> (faults (dsk s) = [] \<longrightarrow> faults (dsk (snd (load_sweeper env m s))) = [])"
      by (auto simp: load_sweeper_def k split: outcome.splits io_error.splits)
  qed
qed

text \<open>The start of the library's objects changes no file.\<close>

lemma reading_pair [reading_rules]: "(\<And>a b. reading (f a b)) \<Longrightarrow> reading (case x of (a, b) \<Rightarrow> f a b)"
  by (cases x) simp

lemma reading_start_services: "reading (start_services env net key)"
proof -
  have "reading (services_in env net key dir)" for dir
    unfolding services_in_def by (intro reading_rules)
  then show ?thesis by (simp add: reading_def start_services_def)
qed

section \<open>The disk before the store is opened\<close>

definition sound :: "boot_state \<Rightarrow> bool" where
  "sound s \<longleftrightarrow> fs_wf (cur (boot_disk s)) \<and> faults (boot_disk s) = []"

lemma create_dirs_faults: "faults d = [] \<Longrightarrow> faults (snd (create_dirs pre cs d)) = []"
proof (induction pre cs d rule: create_dirs.induct)
  case (2 pre c cs d)
  then show ?case by (auto simp: sys_no_fault split: option.splits node.splits prod.splits outcome.splits)
qed simp

lemma sound_create_dirs: "sound s \<Longrightarrow> create_dir_all p (boot_disk s) = (r, d) \<Longrightarrow> sound (s\<lparr>boot_disk := d\<rparr>)"
  using create_dirs_faults [of "boot_disk s" "[]" p] create_dirs_keeps [of "content_at (cur (boot_disk s))" "boot_disk s" "[]" p]
  by (auto simp: sound_def keeps_def create_dir_all_def)

lemma sound_keys_seed:
  assumes "sound s" "keys_seed env p s = (r, s')"
  shows "sound s'"
proof -
  let ?f = "cur (boot_disk s)"
  have read: "sys (fs_read p) (boot_disk s) = (fst (fs_read p ?f), (boot_disk s)\<lparr>hist := ?f # hist (boot_disk s)\<rparr>)"
    using assms(1) by (auto simp: sound_def sys_no_fault fs_read_def split: option.splits node.splits)
  obtain q f where c: "fs_create p ?f = (q, f)" by fastforce
  have wf: "fs_wf f" "fs_wf ?f" using c fs_create_Ok(1) [of ?f p _ f] fs_create_fail [OF c] assms(1)
    by (cases q; simp add: sound_def)+
  show ?thesis
    using assms read c wf
    by (auto simp: sound_def keys_seed_def attempt_def expect_def return_st_def lift_st_def bind_st_def boot_println_def
        sys_no_fault sys_write_no_fault fs_sync_def Let_def fs_wf_put_data fs_wf_def fs_simps
        split: outcome.splits if_splits)
qed

lemma sound_start_ldk:
  assumes "sound s" "start_ldk env s = (r, s')"
  shows "sound s'"
proof -
  have out: "sound (t\<lparr>boot_out := x\<rparr>) = sound t" for t x by (simp add: sound_def)
  have step: "sound t'" if "sound t" "start_node env args t = (q, t')" for args t q t'
  proof -
    obtain x d where d: "create_dir_all (ldk_data_dir args) (boot_disk t) = (x, d)" by fastforce
    from sound_create_dirs [OF that(1) d] that(2) d show ?thesis
      by (auto simp: start_node_def expect_def attempt_def bind_st_def lift_st_def return_st_def boot_println_def out
          split: outcome.splits option.splits if_splits dest: sound_keys_seed)
  qed
  obtain x out where p: "parse_startup_args (os env) (boot_out s) = (x, out)" by fastforce
  show ?thesis
  proof (cases x)
    case (Ok args)
    obtain q t where n: "start_node env args (s\<lparr>boot_out := out\<rparr>) = (q, t)" by fastforce
    have "s' = t" using assms(2) p Ok n by (cases q) (simp_all add: start_ldk_def bind_st_def return_st_def)
    then show ?thesis using step [OF _ n] assms(1) out by simp
  qed (use assms p out in \<open>auto simp: start_ldk_def\<close>)
qed

section \<open>From a start to a running node\<close>

lemma read_present:
  assumes "faults (dsk s) = []" "valid_key (cfg s) (table_key fname)"
    and "read_payment_info dec (data_dir (cfg s) @ [fname]) s = (t, s1)"
  shows "faults (dsk s1) = [] \<and>
    (case kv_get s (table_key fname) of Some b \<Rightarrow> t = (case dec b of Some x \<Rightarrow> x | None \<Rightarrow> []) | None \<Rightarrow> t = [])"
  using assms
  by (auto simp: read_payment_info_def on_disk_def sys_no_fault fs_open_def fs_read_def content_at_def kv_get_def
      key_path.simps split: option.splits node.splits outcome.splits prod.splits)

text \<open>Tables that were loaded from a disk without faults agree with their files.\<close>

definition table_of :: "(bytes \<Rightarrow> payments option) \<Rightarrow> kvstore \<Rightarrow> string \<Rightarrow> payments" where
  "table_of dec s fname =
     (case kv_get s (table_key fname) of Some b \<Rightarrow> (case dec b of Some t \<Rightarrow> t | None \<Rightarrow> []) | None \<Rightarrow> [])"

definition readable_tables :: "(bytes \<Rightarrow> payments option) \<Rightarrow> kvstore \<Rightarrow> bool" where
  "readable_tables dec s \<longleftrightarrow>
     (\<forall>fname \<in> {INBOUND_PAYMENTS_FNAME, OUTBOUND_PAYMENTS_FNAME}. valid_key (cfg s) (table_key fname) \<and>
        (\<forall>b. kv_get s (table_key fname) = Some b \<longrightarrow> (\<exists>t. dec b = Some t \<and> is_map t)))"

lemma readable_facts:
  assumes "readable_tables dec s"
  shows "valid_key (cfg s) (table_key INBOUND_PAYMENTS_FNAME)" "valid_key (cfg s) (table_key OUTBOUND_PAYMENTS_FNAME)"
    "is_map (table_of dec s INBOUND_PAYMENTS_FNAME)" "is_map (table_of dec s OUTBOUND_PAYMENTS_FNAME)"
    "kv_get s (table_key INBOUND_PAYMENTS_FNAME) = Some b \<Longrightarrow> dec b = Some (table_of dec s INBOUND_PAYMENTS_FNAME)"
    "kv_get s (table_key INBOUND_PAYMENTS_FNAME) = None \<Longrightarrow> table_of dec s INBOUND_PAYMENTS_FNAME = []"
  using assms by (auto simp: readable_tables_def table_of_def is_map_def split: option.splits)

lemma load_started:
  assumes inv: "store_inv s" "faults (dsk s) = []" and load: "load_payments e dec recent s = (Ok (), d)"
    and rd: "readable_tables dec s" and dec: "\<And>t. dec (e t) = Some t"
  shows "in_sync dec d" "cfg (fs_store d) = cfg s"
    "inbound_payments d = table_of dec s INBOUND_PAYMENTS_FNAME"
    "outbound_payments d = fail_forgotten recent (table_of dec s OUTBOUND_PAYMENTS_FNAME)"
proof -
  let ?p = "\<lambda>f. data_dir (cfg s) @ [f]"
  note F = readable_facts [OF rd]
  obtain ib s1 where r1: "read_payment_info dec (?p INBOUND_PAYMENTS_FNAME) s = (ib, s1)" by fastforce
  obtain ob s2 where r2: "read_payment_info dec (?p OUTBOUND_PAYMENTS_FNAME) s1 = (ob, s2)" by fastforce
  note R1 = read_present [OF inv(2) F(1) r1] read_payment_info_state [OF r1] and R2 = read_payment_info_state [OF r2]
  have g1: "kv_get s1 = kv_get s" using same_cur_get R1 by blast
  have "read_payment_info dec (data_dir (cfg s1) @ [OUTBOUND_PAYMENTS_FNAME]) s1 = (ob, s2)" using r2 R1 by simp
  note R3 = read_present [OF _ _ this]
  have ib: "ib = table_of dec s INBOUND_PAYMENTS_FNAME" and ob: "ob = table_of dec s OUTBOUND_PAYMENTS_FNAME"
    using R1 R3 F(2) g1 by (auto simp: table_of_def split: option.splits)
  note U = load_payments_unfold [OF r1 r2]
  let ?d = "\<lparr>inbound_payments = ib, outbound_payments = fail_forgotten recent ob, fs_store = s2\<rparr>"
  have p: "persist_payments e OUTBOUND_PAYMENTS_FNAME (fail_forgotten recent ob) ?d = (Ok (), d)"
    using load U(1) by (simp add: persist_outbound_def)
  note P = persist_payments_cases [OF U(2) [OF inv(1)] p] persist_cfg [OF p U(2) [OF inv(1)]]
  show c: "cfg (fs_store d) = cfg s" using P(7) R1 R2 by simp
  show "inbound_payments d = table_of dec s INBOUND_PAYMENTS_FNAME"
    "outbound_payments d = fail_forgotten recent (table_of dec s OUTBOUND_PAYMENTS_FNAME)"
    using P(2,3) ib ob by simp_all
  have "file_of d INBOUND_PAYMENTS_FNAME = kv_get s (table_key INBOUND_PAYMENTS_FNAME)"
    "file_of d OUTBOUND_PAYMENTS_FNAME = Some (e (fail_forgotten recent ob))"
    using U(3) P(5) by (simp_all add: file_of_def fun_eq_iff)
  then show "in_sync dec d" using P(1-3) c F dec ib
    by (auto simp: in_sync_def on_file_def split: option.splits)
qed

section \<open>Property\<close>

text \<open>
  C6. A start ends where the running node begins. When the start of the node succeeds on a disk without
  faults whose tables decode, the node runs with both tables as they were on disk, but with the pending
  payments that the channel manager has forgotten marked as failed; the tables agree with their files, no
  id is in one twice, and nothing has been sent yet: what the theorems on the running node start from.
\<close>

theorem boot_starts_runtime:
  assumes "sound s" "start_ldk env s = (Ok (Some (args, key)), s1)" "alphabet_ok (store_cfg (ldk_data_dir args))"
    and "kv0 = store_new (store_cfg (ldk_data_dir args)) (boot_disk s1)" "readable_tables dec kv0" "\<And>t. dec (e t) = Some t"
    and "boot_node env senv e dec recent store_cfg s = Ok (Some (n, rt))"
  shows "started (cfg kv0) dec rt \<and>
    inbound_payments (tables rt) = table_of dec kv0 INBOUND_PAYMENTS_FNAME \<and>
    outbound_payments (tables rt) = fail_forgotten (recent (channel_manager n)) (table_of dec kv0 OUTBOUND_PAYMENTS_FNAME)"
proof -
  obtain kv d where sv: "start_services senv (node_network args) key kv0 = (Ok n, kv)"
    and ld: "load_payments e dec (recent (channel_manager n)) kv = (Ok (), d)"
    and rt: "rt = start_runtime (cfg kv0) d (boot_out s1)"
    using assms(2,4,7) by (auto simp: boot_node_def Let_def store_new_def split: prod.splits outcome.splits)
  have s1: "sound s1" by (rule sound_start_ldk [OF assms(1,2)])
  note K = readingD [OF reading_start_services sv]
  have inv: "store_inv kv" "faults (dsk kv) = []" "kv_get kv = kv_get kv0" "cfg kv = cfg kv0"
    using K s1 assms(3,4) same_cur_get [of kv kv0] by (auto simp: store_inv_def sound_def store_new_def)
  have same: "readable_tables dec kv" "table_of dec kv = table_of dec kv0"
    using assms(5) inv by (simp_all add: readable_tables_def table_of_def fun_eq_iff)
  note L = load_started [OF inv(1,2) ld same(1) assms(6)]
  have "is_map (inbound_payments d)" "is_map (outbound_payments d)"
    using readable_facts(3,4) [OF assms(5)] L same by (simp_all add: is_map_def fail_forgotten_def)
  then show ?thesis using L same inv by (simp add: rt start_runtime_def started_def store_new_def)
qed

definition stored_table :: payments where
  "stored_table = [([1], \<lparr>preimage = None, secret = None, status = Pending, amt_msat = Some 10\<rparr>),
     ([2], \<lparr>preimage = None, secret = None, status = Pending, amt_msat = None\<rparr>)]"

definition used_disk :: boot_state where
  "used_disk = boot_on \<lparr>ents = [([''.ldk''], Dir), ([''.ldk'', ''outbound_payments''], File 0)],
     durable = [([''.ldk''], Dir), ([''.ldk'', ''outbound_payments''], File 0)], pending = [],
     contents = [(0, table_enc stored_table)], unsynced = [], next_ino = 1\<rparr> []"

definition workshop_boot :: boot_env where
  "workshop_boot = (sample_boot 1)\<lparr>os := sample_os [''node'', ''workshop''],
     parsers := \<lparr>block_hash_from_str = (\<lambda>t. Some [7]), txid_from_str = (\<lambda>s. None), amount_from_btc = (\<lambda>f. None),
       address_from_str = (\<lambda>s. None)\<rparr>,
     rpc := (\<lambda>m ps. Ok (JObject [(''blocks'', JNumber (PosInt 3)), (''bestblockhash'', JString ''07''),
       (''chain'', JString ''regtest'')]))\<rparr>"

definition any_cfg :: "path \<Rightarrow> config" where
  "any_cfg p = sample_cfg\<lparr>data_dir := p\<rparr>"

definition first_store :: kvstore where
  "first_store = store_new (any_cfg [''.ldk'']) (boot_disk (snd (start_ldk workshop_boot used_disk)))"

lemma first_store_facts:
  "kv_get first_store (table_key INBOUND_PAYMENTS_FNAME) = None"
  "kv_get first_store (table_key OUTBOUND_PAYMENTS_FNAME) = Some (table_enc stored_table)"
proof -
  have c: "cfg first_store = any_cfg [''.ldk'']" by (simp add: first_store_def store_new_def)
  have v: "valid_key (any_cfg [''.ldk'']) (table_key INBOUND_PAYMENTS_FNAME)"
    "valid_key (any_cfg [''.ldk'']) (table_key OUTBOUND_PAYMENTS_FNAME)"
    by (simp_all add: valid_key_iff is_valid_kvstore_str_def any_cfg_def sample_cfg_def
        INBOUND_PAYMENTS_FNAME_def OUTBOUND_PAYMENTS_FNAME_def)
  have "content_at (cur (dsk first_store)) [''.ldk'', ''inbound_payments''] = None"
    "content_at (cur (dsk first_store)) [''.ldk'', ''outbound_payments''] = Some (table_enc stored_table)"
    by code_simp+
  with c v show "kv_get first_store (table_key INBOUND_PAYMENTS_FNAME) = None"
    "kv_get first_store (table_key OUTBOUND_PAYMENTS_FNAME) = Some (table_enc stored_table)"
    by (simp_all add: kv_get_def key_path.simps) (simp_all add: any_cfg_def INBOUND_PAYMENTS_FNAME_def OUTBOUND_PAYMENTS_FNAME_def)
qed

lemma first_store_readable: "readable_tables table_dec first_store"
  using first_store_facts
  by (simp add: readable_tables_def table_codec.dec_enc valid_key_iff is_valid_kvstore_str_def first_store_def store_new_def
      any_cfg_def sample_cfg_def INBOUND_PAYMENTS_FNAME_def OUTBOUND_PAYMENTS_FNAME_def is_map_def stored_table_def)

theorem boot_starts_runtime_witness:
  "case boot_node workshop_boot (sample_services 100) table_enc table_dec (\<lambda>m. [[2]]) any_cfg used_disk of
     Ok (Some (n, rt)) \<Rightarrow> started (any_cfg [''.ldk'']) table_dec rt \<and>
       map_of (outbound_payments (tables rt)) [1] = Some \<lparr>preimage = None, secret = None, status = Failed, amt_msat = Some 10\<rparr> \<and>
       map_of (outbound_payments (tables rt)) [2] = Some \<lparr>preimage = None, secret = None, status = Pending, amt_msat = None\<rparr>
   | _ \<Rightarrow> False"
proof -
  let ?b = "boot_node workshop_boot (sample_services 100) table_enc table_dec (\<lambda>m. [[2]]) any_cfg used_disk"
  have "case ?b of Ok (Some x) \<Rightarrow> True | _ \<Rightarrow> False" by code_simp
  then obtain n rt where b: "?b = Ok (Some (n, rt))" by (auto split: outcome.splits option.splits)
  obtain args key where s: "fst (start_ldk workshop_boot used_disk) = Ok (Some (args, key))" "ldk_data_dir args = [''.ldk'']"
  proof -
    have "case fst (start_ldk workshop_boot used_disk) of Ok (Some (args, key)) \<Rightarrow> ldk_data_dir args = [''.ldk''] | _ \<Rightarrow> False"
      by code_simp
    then show thesis using that by (auto split: outcome.splits option.splits)
  qed
  have sound: "sound used_disk"
    by (auto simp: sound_def used_disk_def boot_on_def fs_wf_def lookup_def split: if_splits)
  have st: "start_ldk workshop_boot used_disk = (Ok (Some (args, key)), snd (start_ldk workshop_boot used_disk))"
    using s(1) by (metis prod.collapse)
  have al: "alphabet_ok (any_cfg (ldk_data_dir args))" by (simp add: alphabet_ok_def any_cfg_def sample_cfg_def)
  have kv: "first_store = store_new (any_cfg (ldk_data_dir args)) (boot_disk (snd (start_ldk workshop_boot used_disk)))"
    by (simp add: first_store_def s(2))
  have t: "table_of table_dec first_store OUTBOUND_PAYMENTS_FNAME = stored_table"
    by (simp add: table_of_def first_store_facts table_codec.dec_enc)
  from boot_starts_runtime [OF sound st al kv first_store_readable table_codec.dec_enc b]
  have "started (any_cfg [''.ldk'']) table_dec rt" "outbound_payments (tables rt) = fail_forgotten [[2]] stored_table"
    by (simp_all add: t) (simp add: first_store_def store_new_def)
  then show ?thesis by (subst b) (simp add: alist_simps stored_table_def)
qed

end
