(* ===== verification/Store_Calls.thy ===== *)
theory Store_Calls imports Fs_Store_Props begin

text \<open>
  One call of \<open>write\<close> of \<open>filesystem_store.rs\<close>, cut where another thread may come in
  between: at its system calls (\<open>write_all\<close> is one), at the counter of temporary files, and at
  the lock of the file. What the call knows at each step, what its steps leave alone, and that a call
  that nothing interrupts is \<^const>\<open>kv_write\<close>. \<open>Store_Threads\<close> interleaves many
  such calls.
\<close>

section \<open>One call, cut into its steps\<close>

text \<open>
  Where a call stands: before its first step, making the missing directories, at the counter, with
  a temporary file to create, write and sync, at the lock of the file (cloning it, waiting for it),
  inside the lock with the rename, the open and the sync of the directory, dropping the lock, at
  the collection of locks, and finished.
\<close>

datatype write_phase =
  Checking
| Making path path path
| Naming path
| Creating path path
| Writing path path nat
| Syncing path path nat
| Cloning path path
| Waiting path path
| Renaming path path
| Opening path
| Syncing_dir path
| Unlocking path "(io_error, unit) outcome"
| Collecting
| Finished "(io_error, unit) outcome"

text \<open>A step of the call: where it goes on after \<open>Ok\<close>, and where the \<open>?\<close> leads.\<close>

definition call ::
  "'a store_op \<Rightarrow> ('a \<Rightarrow> 'p) \<Rightarrow> ((io_error, 'b) outcome \<Rightarrow> 'p) \<Rightarrow> kvstore \<Rightarrow> 'p \<times> kvstore" where
  "call m go stop s =
     (case m s of
        (Ok a, s') \<Rightarrow> (go a, s')
      | (Err e, s') \<Rightarrow> (stop (Err e), s')
      | (Panic p, s') \<Rightarrow> (stop (Panic p), s'))"

fun write_names :: "kv_key \<Rightarrow> (path \<times> path) store_op" where
  "write_names (prim, sec, key) =
     bind_st (check_st prim sec (Some key)) (\<lambda>_.
     bind_st (dest_st prim sec key) (\<lambda>dest.
     bind_st (parent_st dest) (\<lambda>parent.
     return_st (dest, parent))))"

fun write_call :: "kv_key \<Rightarrow> bytes \<Rightarrow> write_phase \<Rightarrow> kvstore \<Rightarrow> write_phase \<times> kvstore" where
  "write_call k buf Checking s = call (write_names k) (\<lambda>(dest, parent). Making dest [] parent) Finished s"
| "write_call k buf (Making dest made []) s = (Naming dest, s)"
| "write_call k buf (Making dest made (c # cs)) s =
     call (on_disk (create_dirs made [c])) (\<lambda>_. Making dest (made @ [c]) cs) Finished s"
| "write_call k buf (Naming dest) s = call (tmp_path_st dest) (Creating dest) Finished s"
| "write_call k buf (Creating dest tmp) s =
     call (on_disk (sys (fs_create tmp))) (Writing dest tmp) Finished s"
| "write_call k buf (Writing dest tmp fd) s =
     call (on_disk (sys_write fd buf)) (\<lambda>_. Syncing dest tmp fd) Finished s"
| "write_call k buf (Syncing dest tmp fd) s =
     call (on_disk (sys (fs_sync fd))) (\<lambda>_. Cloning dest tmp) Finished s"
| "write_call k buf (Cloning dest tmp) s = (Waiting dest tmp, acquire dest s)"
| "write_call k buf (Waiting dest tmp) s = (Renaming dest tmp, s)"
| "write_call k buf (Renaming dest tmp) s =
     call (on_disk (sys (fs_rename tmp dest))) (\<lambda>_. Opening dest) (Unlocking dest) s"
| "write_call k buf (Opening dest) s =
     call (on_disk (sys (fs_open (butlast dest)))) (\<lambda>_. Syncing_dir dest) (Unlocking dest) s"
| "write_call k buf (Syncing_dir dest) s =
     call (on_disk (sys (fs_sync_dir (butlast dest)))) (\<lambda>u. Unlocking dest (Ok u)) (Unlocking dest) s"
| "write_call k buf (Unlocking dest r) s =
     (case r of Ok _ \<Rightarrow> Collecting | _ \<Rightarrow> Finished r, release dest s)"
| "write_call k buf Collecting s = call gc_st (\<lambda>u. Finished (Ok u)) Finished s"
| "write_call k buf (Finished r) s = (Finished r, s)"

text \<open>The first \<open>n\<close> steps of a call that nothing interrupts.\<close>

fun alone :: "kv_key \<Rightarrow> bytes \<Rightarrow> nat \<Rightarrow> write_phase \<times> kvstore \<Rightarrow> write_phase \<times> kvstore" where
  "alone k buf 0 ps = ps"
| "alone k buf (Suc n) (p, s) = alone k buf n (write_call k buf p s)"

lemma alone_finished [simp]: "alone k buf n (Finished r, s) = (Finished r, s)"
  by (induction n) auto

text \<open>
  \<open>ends k buf n p m\<close>: from phase \<open>p\<close>, the call ends within \<open>n\<close> steps with
  what the computation \<open>m\<close> returns.
\<close>

definition ends :: "kv_key \<Rightarrow> bytes \<Rightarrow> nat \<Rightarrow> write_phase \<Rightarrow> unit store_op \<Rightarrow> bool" where
  "ends k buf n p m \<longleftrightarrow> (\<forall>s j. n \<le> j \<longrightarrow> alone k buf j (p, s) = (Finished (fst (m s)), snd (m s)))"

lemma ends_Suc:
  assumes "\<And>s j. n \<le> j \<Longrightarrow> alone k buf j (write_call k buf p s) = (Finished (fst (m s)), snd (m s))"
  shows "ends k buf (Suc n) p m"
  unfolding ends_def
proof (intro allI impI)
  fix s j assume "Suc n \<le> j"
  then obtain i where "j = Suc i" "n \<le> i" by (cases j) auto
  then show "alone k buf j (p, s) = (Finished (fst (m s)), snd (m s))" using assms by simp
qed

lemma ends_call:
  assumes "\<And>s. write_call k buf p s = call m go Finished s"
    "\<And>a. ends k buf n (go a) (f a)"
  shows "ends k buf (Suc n) p (bind_st m f)"
proof (rule ends_Suc)
  fix s j assume "n \<le> j"
  then show "alone k buf j (write_call k buf p s) = (Finished (fst (bind_st m f s)), snd (bind_st m f s))"
    using assms(2) unfolding assms(1)
    by (auto simp: ends_def call_def bind_st_def split: prod.splits outcome.splits)
qed

lemma bind_st_assoc: "bind_st (bind_st m f) g = bind_st m (\<lambda>a. bind_st (f a) g)"
  by (auto simp: bind_st_def fun_eq_iff split: prod.splits outcome.splits)

lemma ends_locked:
  "ends k buf 7 (Cloning dest tmp)
     (bind_st (with_lock dest (publish tmp dest (butlast dest))) (\<lambda>_. gc_st))"
  unfolding ends_def
proof (intro allI impI)
  fix s :: kvstore and j :: nat assume "7 \<le> j"
  then obtain i where "j = Suc (Suc (Suc (Suc (Suc (Suc (Suc i))))))"
    by (auto simp: le_iff_add)
  then show "alone k buf j (Cloning dest tmp, s) =
    (Finished (fst (bind_st (with_lock dest (publish tmp dest (butlast dest))) (\<lambda>_. gc_st) s)),
     snd (bind_st (with_lock dest (publish tmp dest (butlast dest))) (\<lambda>_. gc_st) s))"
    by (simp add: call_def with_lock_def publish_def bind_st_def gc_st_def split: prod.splits outcome.splits)
qed

lemma ends_tmp:
  assumes "ends k buf n (Cloning dest tmp) m"
  shows "ends k buf (n + 3) (Creating dest tmp) (bind_st (write_tmp tmp buf) (\<lambda>_. m))"
proof -
  have "ends k buf (Suc n) (Syncing dest tmp fd) (bind_st (on_disk (sys (fs_sync fd))) (\<lambda>_. m))" for fd
    by (rule ends_call [OF _ assms]) simp
  then have "ends k buf (Suc (Suc n)) (Writing dest tmp fd)
      (bind_st (on_disk (sys_write fd buf)) (\<lambda>_. bind_st (on_disk (sys (fs_sync fd))) (\<lambda>_. m)))" for fd
    by (auto intro: ends_call [where go = "\<lambda>_. Syncing dest tmp fd"])
  then have "ends k buf (Suc (Suc (Suc n))) (Creating dest tmp) (bind_st (on_disk (sys (fs_create tmp)))
      (\<lambda>fd. bind_st (on_disk (sys_write fd buf)) (\<lambda>_. bind_st (on_disk (sys (fs_sync fd))) (\<lambda>_. m))))"
    by (auto intro: ends_call [where go = "Writing dest tmp"])
  then show ?thesis by (simp add: write_tmp_def bind_st_assoc numeral_3_eq_3)
qed

lemma create_dirs_Cons:
  "create_dirs made (c # cs) = bind_st (create_dirs made [c]) (\<lambda>_. create_dirs (made @ [c]) cs)"
  by (auto simp: fun_eq_iff bind_st_def split: option.splits node.splits prod.splits outcome.splits)

lemma on_disk_bind: "on_disk (bind_st m f) = bind_st (on_disk m) (\<lambda>a. on_disk (f a))"
  by (auto simp: fun_eq_iff bind_st_def on_disk_def split: prod.splits outcome.splits)

lemma ends_making:
  assumes "ends k buf n (Naming dest) m"
  shows "ends k buf (n + length rest + 1) (Making dest made rest)
    (bind_st (on_disk (create_dirs made rest)) (\<lambda>_. m))"
proof (induction rest arbitrary: made)
  case Nil
  have "bind_st (on_disk (create_dirs made [])) (\<lambda>_. m) = m"
    by (simp add: fun_eq_iff bind_st_def on_disk_def)
  moreover have "ends k buf (Suc n) (Making dest made []) m"
    using assms by (intro ends_Suc) (simp add: ends_def)
  ultimately show ?case by (simp del: create_dirs.simps)
next
  case (Cons c cs)
  have "ends k buf (Suc (n + length cs + 1)) (Making dest made (c # cs))
      (bind_st (on_disk (create_dirs made [c])) (\<lambda>_. bind_st (on_disk (create_dirs (made @ [c]) cs)) (\<lambda>_. m)))"
    by (rule ends_call [where go = "\<lambda>_. Making dest (made @ [c]) cs"]) (simp, rule Cons)
  then show ?case by (simp add: create_dirs_Cons [of made c cs] on_disk_bind bind_st_assoc del: create_dirs.simps)
qed

text \<open>An uninterrupted call, with every step and fault, is \<open>write\<close>.\<close>

lemma alone_is_kv_write:
  assumes "length (dest_file_path s prim sec key) + 14 \<le> n"
  shows "alone (prim, sec, key) buf n (Checking, s) =
    (Finished (fst (kv_write prim sec key buf s)), snd (kv_write prim sec key buf s))"
proof -
  let ?k = "(prim, sec, key)" and ?dest = "dest_file_path s prim sec key"
  obtain m where n: "n = Suc m" "length ?dest + 13 \<le> m" using assms by (cases n) auto
  show ?thesis
  proof (cases "fst (check_st prim sec (Some key) s)")
    case (Ok u)
    show ?thesis
    proof (cases "?dest = []")
      case True
      then show ?thesis using Ok n
        by (simp add: call_def kv_write_def bind_st_def check_st_def dest_st_def parent_st_def path_parent_def)
    next
      case False
      have "ends ?k buf (11 + length (butlast ?dest) + 1) (Making ?dest [] (butlast ?dest))
        (bind_st (on_disk (create_dirs [] (butlast ?dest))) (\<lambda>_. bind_st (tmp_path_st ?dest) (\<lambda>tmp.
           bind_st (write_tmp tmp buf) (\<lambda>_. bind_st (with_lock ?dest (publish tmp ?dest (butlast ?dest)))
             (\<lambda>_. gc_st)))))" (is "ends _ _ _ _ ?m")
      proof (rule ends_making)
        have "ends ?k buf (Suc (7 + 3)) (Naming ?dest) (bind_st (tmp_path_st ?dest) (\<lambda>tmp.
            bind_st (write_tmp tmp buf) (\<lambda>_. bind_st (with_lock ?dest (publish tmp ?dest (butlast ?dest)))
             (\<lambda>_. gc_st))))"
          by (rule ends_call [where go = "Creating ?dest"]) (simp, rule ends_tmp [OF ends_locked])
        then show "ends ?k buf 11 (Naming ?dest) (bind_st (tmp_path_st ?dest) (\<lambda>tmp.
            bind_st (write_tmp tmp buf) (\<lambda>_. bind_st (with_lock ?dest (publish tmp ?dest (butlast ?dest)))
             (\<lambda>_. gc_st))))" by simp
      qed
      then have "alone ?k buf m (Making ?dest [] (butlast ?dest), s) = (Finished (fst (?m s)), snd (?m s))"
        using n False by (simp add: ends_def)
      then show ?thesis using Ok n False
        by (simp add: call_def kv_write_def bind_st_def check_st_def dest_st_def parent_st_def
            path_parent_def return_st_def create_dir_all_def [abs_def])
    qed
  qed (use n in \<open>simp_all add: call_def kv_write_def bind_st_def check_st_def\<close>)
qed

section \<open>What a call knows at each step\<close>

definition names :: "config \<Rightarrow> kv_key \<Rightarrow> path \<Rightarrow> bool" where
  "names c k dest \<longleftrightarrow> valid_key c k \<and> dest = key_path c k"

fun call_inv :: "config \<Rightarrow> kv_key \<Rightarrow> bytes \<Rightarrow> write_phase \<Rightarrow> disk \<Rightarrow> bool" where
  "call_inv c k buf Checking d \<longleftrightarrow> True"
| "call_inv c k buf (Making dest made rest) d \<longleftrightarrow> names c k dest"
| "call_inv c k buf (Naming dest) d \<longleftrightarrow> names c k dest"
| "call_inv c k buf (Creating dest tmp) d \<longleftrightarrow> names c k dest \<and> is_tmp_of dest tmp"
| "call_inv c k buf (Writing dest tmp fd) d \<longleftrightarrow>
     names c k dest \<and> is_tmp_of dest tmp \<and> holds_tmp tmp fd [] d"
| "call_inv c k buf (Syncing dest tmp fd) d \<longleftrightarrow>
     names c k dest \<and> is_tmp_of dest tmp \<and> holds_tmp tmp fd buf d"
| "call_inv c k buf (Cloning dest tmp) d \<longleftrightarrow>
     names c k dest \<and> is_tmp_of dest tmp \<and> (\<exists>i. holds_tmp tmp i buf d)"
| "call_inv c k buf (Waiting dest tmp) d \<longleftrightarrow>
     names c k dest \<and> is_tmp_of dest tmp \<and> (\<exists>i. holds_tmp tmp i buf d)"
| "call_inv c k buf (Renaming dest tmp) d \<longleftrightarrow>
     names c k dest \<and> is_tmp_of dest tmp \<and> (\<exists>i. holds_tmp tmp i buf d)"
| "call_inv c k buf (Opening dest) d \<longleftrightarrow> names c k dest"
| "call_inv c k buf (Syncing_dir dest) d \<longleftrightarrow> names c k dest"
| "call_inv c k buf (Unlocking dest r) d \<longleftrightarrow> names c k dest"
| "call_inv c k buf Collecting d \<longleftrightarrow> valid_key c k"
| "call_inv c k buf (Finished r) d \<longleftrightarrow> (r = Ok () \<longrightarrow> valid_key c k)"

text \<open>The temporary file a call works on, and whether its rename has been done.\<close>

fun tmp_of :: "write_phase \<Rightarrow> path option" where
  "tmp_of (Creating dest tmp) = Some tmp"
| "tmp_of (Writing dest tmp fd) = Some tmp"
| "tmp_of (Syncing dest tmp fd) = Some tmp"
| "tmp_of (Cloning dest tmp) = Some tmp"
| "tmp_of (Waiting dest tmp) = Some tmp"
| "tmp_of (Renaming dest tmp) = Some tmp"
| "tmp_of _ = None"

fun renamed :: "write_phase \<Rightarrow> bool" where
  "renamed (Opening dest) = True"
| "renamed (Syncing_dir dest) = True"
| "renamed (Unlocking dest r) = is_ok r"
| "renamed Collecting = True"
| "renamed (Finished r) = is_ok r"
| "renamed _ = False"

lemma call_cases:
  assumes "call m go stop s = (p, s')" "hoare P m Q R" "P s"
  obtains a where "p = go a" "Q a s'" | r where "\<not> is_ok r" "p = stop r" "R s'"
proof (cases "m s")
  case (Pair r s1)
  show thesis
  proof (cases r)
    case (Ok a)
    then show thesis using that(1) [of a] hoare_ok [OF assms(2,3), of a s1] Pair assms(1)
      by (simp add: call_def)
  next
    case (Err e)
    then show thesis using that(2) [of "Err e"] hoare_fail [OF assms(2,3) Pair] Pair assms(1)
      by (simp add: call_def)
  next
    case (Panic e)
    then show thesis using that(2) [of "Panic e"] hoare_fail [OF assms(2,3) Pair] Pair assms(1)
      by (simp add: call_def)
  qed
qed

lemma at_cfg_conj: "at_cfg c (\<lambda>d. P d \<and> Q d) s \<longleftrightarrow> at_cfg c P s \<and> Q (dsk s)"
  by (auto simp: at_cfg_def)

lemma names_facts:
  assumes "alphabet_ok c" "names c k dest"
  shows "dotless dest" "dest \<noteq> []"
  using assms key_path_dotless by (auto simp: names_def)

text \<open>
  A step keeps the contents of every key, except that the rename, which is the one step from a phase
  that is not \<^const>\<open>renamed\<close> to one that is, replaces one value.
\<close>

definition step_ok :: "config \<Rightarrow> kv_key \<Rightarrow> bytes \<Rightarrow> (path \<Rightarrow> bytes option) \<Rightarrow>
    write_phase \<Rightarrow> write_phase \<Rightarrow> kvstore \<Rightarrow> bool" where
  "step_ok c k buf g p p' s' \<longleftrightarrow> call_inv c k buf p' (dsk s') \<and>
     (at_cfg c (keeps g) s' \<and> (renamed p' \<longrightarrow> renamed p) \<or>
      at_cfg c (keeps (g(key_path c k \<mapsto> buf))) s' \<and> valid_key c k \<and> renamed p' \<and> \<not> renamed p)"

lemma hoare_write_names:
  assumes "alphabet_ok c"
  shows "hoare (at_cfg c P) (write_names k)
    (\<lambda>(dest, parent) s. at_cfg c P s \<and> names c k dest \<and> parent = butlast dest) (at_cfg c P)"
proof -
  obtain prim sec key where k: "k = (prim, sec, key)" by (cases k)
  have "hoare (at_cfg c P) (bind_st (check_st prim sec (Some key)) (\<lambda>_. bind_st (dest_st prim sec key)
      (\<lambda>dest. bind_st (parent_st dest) (\<lambda>parent. return_st (dest, parent)))))
    (\<lambda>dp s. at_cfg c P s \<and> names c k (fst dp) \<and> snd dp = butlast (fst dp)) (at_cfg c P)"
  proof (rule hoare_bind [OF hoare_check], rule hoare_bind [OF hoare_dest [OF assms]], rule hoare_fact2)
    fix dest assume d: "valid_key c (prim, sec, key)" "dest = key_path c (prim, sec, key)"
    then have "dest \<noteq> []" by simp
    then show "hoare (at_cfg c P) (bind_st (parent_st dest) (\<lambda>parent. return_st (dest, parent)))
      (\<lambda>dp s. at_cfg c P s \<and> names c k (fst dp) \<and> snd dp = butlast (fst dp)) (at_cfg c P)"
      using d by (simp add: hoare_def bind_st_def parent_st_def path_parent_def return_st_def names_def k)
  qed
  then show ?thesis by (simp add: k case_prod_unfold)
qed

lemma dsk_locks [simp]: "dsk (acquire q s) = dsk s" "dsk (release q s) = dsk s" "dsk (garbage_collect_locks s) = dsk s"
  by (simp_all add: acquire_def release_def garbage_collect_locks_def Let_def split: option.splits)

lemma write_call_own:
  assumes "alphabet_ok c" "at_cfg c (keeps g) s" "call_inv c k buf p (dsk s)"
    and w: "write_call k buf p s = (p', s')"
  shows "step_ok c k buf g p p' s'"
proof (cases p)
  case Checking
  with w have "call (write_names k) (\<lambda>(dest, parent). Making dest [] parent) Finished s = (p', s')" by simp
  then show ?thesis
    by (rule call_cases [OF _ hoare_write_names [OF assms(1)] assms(2)])
      (auto simp: step_ok_def Checking is_ok_iff)
next
  case (Making dest made rest)
  show ?thesis
  proof (cases rest)
    case (Cons d ds)
    with w Making have "call (on_disk (create_dirs made [d])) (\<lambda>_. Making dest (made @ [d]) ds) Finished s = (p', s')"
      by (simp del: create_dirs.simps)
    moreover have "hoare (keeps g) (create_dirs made [d]) (\<lambda>_. keeps g) (keeps g)"
      using create_dirs_keeps [of g] by (intro hoareI) (metis snd_conv)+
    ultimately show ?thesis
      by (rule call_cases [OF _ hoare_on_disk assms(2)])
        (use assms(3) Making in \<open>auto simp: step_ok_def is_ok_iff\<close>)
  qed (use w Making assms in \<open>auto simp: step_ok_def\<close>)
next
  case (Naming dest)
  with w have "call (tmp_path_st dest) (Creating dest) Finished s = (p', s')" by simp
  then show ?thesis
    by (rule call_cases [OF _ hoare_tmp_path assms(2)])
      (use assms(3) Naming in \<open>auto simp: step_ok_def is_ok_iff\<close>)
next
  case (Creating dest tmp)
  with assms(1,3) have t: "\<not> dotless tmp" by (auto dest: names_facts is_tmp_of_facts)
  from w Creating have "call (on_disk (sys (fs_create tmp))) (Writing dest tmp) Finished s = (p', s')" by simp
  then show ?thesis
    by (rule call_cases [OF _ hoare_on_disk [OF hoare_create_tmp [OF t]] assms(2)])
      (use assms(3) Creating in \<open>auto simp: step_ok_def is_ok_iff at_cfg_conj\<close>)
next
  case (Writing dest tmp fd)
  with assms(1,3) have t: "\<not> dotless tmp" by (auto dest: names_facts is_tmp_of_facts)
  from w Writing have "call (on_disk (sys_write fd buf)) (\<lambda>_. Syncing dest tmp fd) Finished s = (p', s')" by simp
  moreover have "at_cfg c (\<lambda>d. keeps g d \<and> holds_tmp tmp fd [] d) s"
    using assms(2,3) Writing by (simp add: at_cfg_conj)
  ultimately show ?thesis
    by (elim call_cases [OF _ hoare_on_disk [OF hoare_write_tmp [OF t]]])
      (use assms(3) Writing in \<open>auto simp: step_ok_def is_ok_iff at_cfg_conj\<close>)
next
  case (Syncing dest tmp fd)
  from w Syncing have "call (on_disk (sys (fs_sync fd))) (\<lambda>_. Cloning dest tmp) Finished s = (p', s')" by simp
  moreover have "at_cfg c (\<lambda>d. keeps g d \<and> holds_tmp tmp fd buf d) s"
    using assms(2,3) Syncing by (simp add: at_cfg_conj)
  ultimately show ?thesis
    by (elim call_cases [OF _ hoare_on_disk [OF hoare_sync_tmp]])
      (use assms(3) Syncing in \<open>auto simp: step_ok_def is_ok_iff at_cfg_conj\<close>)
next
  case (Renaming dest tmp)
  then obtain i where "holds_tmp tmp i buf (dsk s)" and n: "names c k dest" "is_tmp_of dest tmp"
    using assms(3) by auto
  then have h: "at_cfg c (\<lambda>d. keeps g d \<and> holds_tmp tmp i buf d) s" using assms(2) by (simp add: at_cfg_conj)
  have d: "dotless dest" "\<not> dotless tmp" "tmp \<noteq> []"
    using names_facts [OF assms(1) n(1)] is_tmp_of_facts n(2) by auto
  from w Renaming have "call (on_disk (sys (fs_rename tmp dest))) (\<lambda>_. Opening dest) (Unlocking dest) s = (p', s')"
    by simp
  then show ?thesis
    by (rule call_cases [OF _ hoare_on_disk [OF hoare_rename [OF d(2,3,1)]] h])
      (use n Renaming in \<open>auto simp: step_ok_def names_def\<close>)
next
  case (Opening dest)
  with w have "call (on_disk (sys (fs_open (butlast dest)))) (\<lambda>_. Syncing_dir dest) (Unlocking dest) s = (p', s')"
    by simp
  then show ?thesis
    by (rule call_cases [OF _ hoare_disk_ops(2) assms(2)]) (use assms(3) Opening in \<open>auto simp: step_ok_def\<close>)
next
  case (Syncing_dir dest)
  with w have "call (on_disk (sys (fs_sync_dir (butlast dest)))) (\<lambda>u. Unlocking dest (Ok u)) (Unlocking dest) s = (p', s')"
    by simp
  then show ?thesis
    by (rule call_cases [OF _ hoare_disk_ops(3) assms(2)]) (use assms(3) Syncing_dir in \<open>auto simp: step_ok_def\<close>)
next
  case (Unlocking dest r)
  with w assms show ?thesis by (auto simp: step_ok_def names_def split: outcome.splits)
next
  case Collecting
  with w have "call gc_st (\<lambda>u. Finished (Ok u)) Finished s = (p', s')" by simp
  then show ?thesis
    by (rule call_cases [OF _ hoare_gc assms(2), where R = "at_cfg c (keeps g)"])
      (use assms(3) Collecting in \<open>auto simp: step_ok_def is_ok_iff\<close>)
qed (use w assms in \<open>auto simp: step_ok_def\<close>)

section \<open>What a call leaves alone\<close>

text \<open>A temporary file that another call has written, seen through the steps of this one.\<close>

lemma holds_tmp_cong:
  assumes "holds_tmp q i b d" "lookup f' q = lookup (cur d) q" "data_of f' i = data_of (cur d) i"
  shows "holds_tmp q i b (d\<lparr>cur := f', faults := x, hist := h\<rparr>)"
  using assms by (simp add: holds_tmp_def)

lemma holds_tmp_faults [simp]: "holds_tmp q i b (d\<lparr>faults := x\<rparr>) = holds_tmp q i b d"
  by (simp add: holds_tmp_def)

lemma sys_leaves:
  assumes "holds_tmp q i b d"
    and "\<And>r f'. c (cur d) = (r, f') \<Longrightarrow> lookup f' q = lookup (cur d) q \<and> data_of f' i = data_of (cur d) i"
  shows "holds_tmp q i b (snd (sys c d))"
proof -
  obtain r f' where c: "c (cur d) = (r, f')" by (cases "c (cur d)")
  from assms(2) [OF c] have "holds_tmp q i b (d\<lparr>cur := f', faults := tl (faults d), hist := f' # hist d\<rparr>)"
    by (intro holds_tmp_cong [OF assms(1)]) auto
  then show ?thesis using assms(1) c by (simp add: sys_def perform_def split: option.splits)
qed

lemma create_leaves:
  assumes "fs_wf (cur d)" "holds_tmp q i b d" "q \<noteq> tmp"
  shows "holds_tmp q i b (snd (sys (fs_create tmp) d))"
proof (rule sys_leaves [OF assms(2)])
  fix r f' assume c: "fs_create tmp (cur d) = (r, f')"
  show "lookup f' q = lookup (cur d) q \<and> data_of f' i = data_of (cur d) i"
  proof (cases r)
    case (Ok j)
    note facts = fs_create_Ok [OF assms(1), of tmp j f']
    have "j \<noteq> i" using facts(6) [of q] c Ok assms(2,3) by (auto simp: holds_tmp_def)
    then show ?thesis using facts(5) [of q] facts(7) [of i] c Ok assms(3) by simp
  qed (use fs_create_fail [OF c] in simp_all)
qed

lemma write_leaves:
  assumes "fs_wf (cur d)" "holds_tmp q i b d" "q \<noteq> tmp" "holds_tmp tmp fd b' d"
  shows "holds_tmp q i b (snd (sys_write fd buf d))"
proof -
  have "fd \<noteq> i" using fs_wf_inj [OF assms(1), of q i tmp] assms(2-4) by (auto simp: holds_tmp_def)
  then show ?thesis using assms(2)
    by (auto simp: sys_write_def perform_def fs_write_def holds_tmp_def fs_simps split: option.splits)
qed

lemma rename_leaves:
  assumes "holds_tmp q i b d" "q \<noteq> tmp" "q \<noteq> dest" "tmp \<noteq> []" "dest \<noteq> []"
  shows "holds_tmp q i b (snd (sys (fs_rename tmp dest) d))"
proof (rule sys_leaves [OF assms(1)])
  fix r f' assume c: "fs_rename tmp dest (cur d) = (r, f')"
  then show "lookup f' q = lookup (cur d) q \<and> data_of f' i = data_of (cur d) i"
    using assms(2-) by (auto simp: fs_rename_def fs_simps split: option.splits node.splits outcome.splits if_splits)
qed

lemma mkdir_leaves:
  assumes "holds_tmp q i b d"
  shows "holds_tmp q i b (snd (create_dirs made [e] d))"
proof (cases "lookup (cur d) (made @ [e])")
  case None
  then have "holds_tmp q i b (snd (sys (fs_mkdir (made @ [e])) d))"
    using assms by (intro sys_leaves [OF assms]) (auto simp: fs_mkdir_def fs_simps holds_tmp_def)
  then show ?thesis using None by (auto split: prod.splits outcome.splits)
qed (use assms in \<open>auto split: node.splits\<close>)

lemma call_snd: "snd (call m go stop s) = snd (m s)"
  by (simp add: call_def split: prod.splits outcome.splits)

lemma on_disk_snd: "dsk (snd (on_disk m s)) = snd (m (dsk s))"
  by (simp add: on_disk_def split: prod.splits)

lemma write_names_pure [simp]: "snd (write_names k s) = s"
  by (cases k) (auto simp: bind_st_def check_st_def dest_st_def parent_st_def return_st_def
      split: option.splits outcome.splits)

lemma write_call_leaves:
  assumes "alphabet_ok c" "fs_wf (cur (dsk s))" "call_inv c k buf p (dsk s)"
    and "holds_tmp q i b (dsk s)" "\<not> dotless q" "tmp_of p \<noteq> Some q"
  shows "holds_tmp q i b (dsk (snd (write_call k buf p s)))"
proof (cases p)
  case (Making dest made rest)
  then show ?thesis using assms(4) mkdir_leaves [OF assms(4)]
    by (cases rest) (simp_all add: call_snd on_disk_snd del: create_dirs.simps)
next
  case (Creating dest tmp)
  then show ?thesis using create_leaves [OF assms(2,4)] assms(6) by (auto simp: call_snd on_disk_snd)
next
  case (Writing dest tmp fd)
  then show ?thesis using write_leaves [OF assms(2,4), of tmp fd "[]" buf] assms(3,6)
    by (auto simp: call_snd on_disk_snd)
next
  case (Syncing dest tmp fd)
  then show ?thesis using sys_leaves [OF assms(4), of "fs_sync fd"]
    by (simp add: call_snd on_disk_snd fs_sync_def fs_simps)
next
  case (Renaming dest tmp)
  with assms(3) have n: "names c k dest" "is_tmp_of dest tmp" by simp_all
  note d = names_facts [OF assms(1) n(1)]
  have "q \<noteq> dest" "dest \<noteq> []" "tmp \<noteq> []" using d is_tmp_of_facts(1) [OF d(1) n(2)] assms(5) by auto
  then show ?thesis using rename_leaves [OF assms(4)] Renaming assms(6) by (auto simp: call_snd on_disk_snd)
next
  case (Opening dest)
  have "holds_tmp q i b (snd (sys (fs_open (butlast dest)) (dsk s)))"
    by (rule sys_leaves [OF assms(4)]) (auto simp: fs_open_def split: option.splits)
  then show ?thesis using Opening by (simp add: call_snd on_disk_snd)
next
  case (Syncing_dir dest)
  then show ?thesis using sys_leaves [OF assms(4), of "fs_sync_dir (butlast dest)"]
    by (simp add: call_snd on_disk_snd fs_sync_dir_def fs_simps)
qed (use assms(4) in \<open>simp_all add: call_snd tmp_path_st_def Let_def gc_st_def\<close>)

lemma call_inv_other:
  assumes "call_inv c k buf p d" "\<And>q i b. tmp_of p = Some q \<Longrightarrow> holds_tmp q i b d \<Longrightarrow> holds_tmp q i b d'"
  shows "call_inv c k buf p d'"
  using assms by (cases p) auto

section \<open>Names of temporary files\<close>

definition tmp_name :: "config \<Rightarrow> kv_key \<Rightarrow> u64 \<Rightarrow> path" where
  "tmp_name c k n = set_extension (key_path c k) (show_u64 n @ ''.tmp'')"

lemma after_first_dot:
  "z \<notin> set a \<Longrightarrow> z \<notin> set b \<Longrightarrow> a @ z # x = b @ z # y \<Longrightarrow> x = y"
proof (induction a arbitrary: b)
  case Nil
  then show ?case by (cases b) auto
next
  case (Cons u a)
  then show ?case by (cases b) auto
qed

text \<open>The number in the name tells two temporary files apart, of one key or of two.\<close>

lemma tmp_name_inj:
  assumes "alphabet_ok c" "valid_key c k" "valid_key c k'" "tmp_name c k n = tmp_name c k' m"
  shows "n = m"
proof -
  have d: "dotless (key_path c k)" "dotless (key_path c k')" using assms key_path_dotless by auto
  then have "last (key_path c k) @ CHR ''.'' # show_u64 n @ ''.tmp'' =
      last (key_path c k') @ CHR ''.'' # show_u64 m @ ''.tmp''"
    using assms(4) by (simp add: tmp_name_def tmp_path)
  then have "show_u64 n @ ''.tmp'' = show_u64 m @ ''.tmp''"
    by (rule after_first_dot [rotated 2]) (use d in \<open>simp_all add: dotless_def\<close>)
  then show ?thesis by (simp add: show_u64_inj)
qed

text \<open>Whether a call has taken its number, or ended.\<close>

fun numbered :: "write_phase \<Rightarrow> bool" where
  "numbered Checking = False"
| "numbered (Making dest made rest) = False"
| "numbered (Naming dest) = False"
| "numbered _ = True"

lemma on_disk_counter [simp]: "tmp_file_counter (snd (on_disk m s)) = tmp_file_counter s"
  by (simp add: on_disk_def split: prod.splits)

lemma locks_counter [simp]:
  "tmp_file_counter (acquire q s) = tmp_file_counter s"
  "tmp_file_counter (release q s) = tmp_file_counter s"
  "tmp_file_counter (garbage_collect_locks s) = tmp_file_counter s"
  by (simp_all add: acquire_def release_def garbage_collect_locks_def Let_def split: option.splits)

lemma call_fst:
  "fst (call m go stop s) =
     (case fst (m s) of Ok a \<Rightarrow> go a | Err e \<Rightarrow> stop (Err e) | Panic e \<Rightarrow> stop (Panic e))"
  by (simp add: call_def split: prod.splits outcome.splits)

lemma write_call_names:
  assumes "call_inv c k buf p (dsk s)"
  defines "r \<equiv> write_call k buf p s"
  shows "tmp_file_counter (snd r) = tmp_file_counter s \<and> (numbered p \<longrightarrow> numbered (fst r)) \<and>
       tmp_of (fst r) \<in> {None, tmp_of p} \<or>
     valid_key c k \<and> \<not> numbered p \<and> numbered (fst r) \<and>
       tmp_file_counter (snd r) = tmp_file_counter s + 1 \<and>
       tmp_of (fst r) = Some (tmp_name c k (tmp_file_counter s))"
proof (cases p)
  case (Making dest made rest)
  then show ?thesis
    by (cases rest) (simp_all add: r_def call_snd call_fst del: create_dirs.simps split: outcome.splits)
next
  case (Naming dest)
  then show ?thesis using assms(1)
    by (simp add: r_def call_def tmp_path_st_def Let_def names_def tmp_name_def)
qed (simp_all add: r_def call_snd call_fst gc_st_def split: outcome.splits prod.splits)

section \<open>Properties\<close>

text \<open>
  A call that nothing interrupts is \<open>write\<close>: cut into its steps, with every fault, it
  returns the same outcome and leaves the same store.
\<close>

theorem uninterrupted_call_is_write:
  "alone (prim, sec, key) buf (length (dest_file_path s prim sec key) + 14 + n) (Checking, s) =
     (Finished (fst (kv_write prim sec key buf s)), snd (kv_write prim sec key buf s))"
  by (rule alone_is_kv_write) simp

end
