(* ===== verification/Fair_Runs.thy ===== *)
theory Fair_Runs imports Prelude begin

text \<open>
  Runs of a system whose scheduler may pick any actor at any time, a blocked one included. The
  interface asks for a measure that every step of an actor that can run lowers, and for an actor
  that can run as long as the measure is not zero: no deadlock. The fact clients use is that every
  schedule that is made of enough rounds, each of which picks every actor at least once, ends the
  work. \<open>Store_Threads\<close> and \<open>Store_Access\<close> interpret it.
\<close>

locale fair_system = invariant_system stp inv
  for stp :: "'s \<Rightarrow> 'e \<Rightarrow> 's" and inv :: "'s \<Rightarrow> bool" +
  fixes left :: "'s \<Rightarrow> nat"
    and runs :: "'s \<Rightarrow> 'e \<Rightarrow> bool"
    and actors :: "'s \<Rightarrow> 'e set"
  assumes progress: "inv s \<Longrightarrow> runs s e \<Longrightarrow> left (stp s e) < left s"
    and idle: "\<not> runs s e \<Longrightarrow> stp s e = s"
    and some_runs: "inv s \<Longrightarrow> 0 < left s \<Longrightarrow> \<exists>e\<in>actors s. runs s e"
    and actors_step: "actors (stp s e) = actors s"
begin

lemma step_mono: "inv s \<Longrightarrow> left (stp s e) \<le> left s"
  using progress [of s e] idle [of s e] by (cases "runs s e") auto

lemma run_mono: "inv s \<Longrightarrow> left (run_steps stp s es) \<le> left s"
proof (induction es arbitrary: s)
  case (Cons e es)
  from le_trans [OF Cons.IH [OF step_keeps [OF Cons.prems]] step_mono [OF Cons.prems]] show ?case
    by simp
qed simp

lemma run_actors: "actors (run_steps stp s es) = actors s"
  by (induction es arbitrary: s) (simp_all add: actors_step)

lemma round_progress:
  assumes "inv s" "runs s e" "e \<in> set es"
  shows "left (run_steps stp s es) < left s"
  using assms
proof (induction es arbitrary: s)
  case (Cons e' es)
  show ?case
  proof (cases "runs s e'")
    case True
    from le_less_trans [OF run_mono [OF step_keeps [OF Cons.prems(1)]] progress [OF Cons.prems(1) True]]
    show ?thesis by simp
  next
    case False
    then have "e' \<noteq> e" using Cons.prems(2) by auto
    then show ?thesis using Cons.IH [OF Cons.prems(1,2)] Cons.prems(3) idle [OF False] by simp
  qed
qed simp

lemma rounds_finish:
  assumes "inv s" "\<forall>r\<in>set rounds. actors s \<subseteq> set r" "left s \<le> length rounds"
  shows "left (run_steps stp s (concat rounds)) = 0"
  using assms
proof (induction rounds arbitrary: s)
  case (Cons r rounds)
  let ?s = "run_steps stp s r"
  have "left ?s \<le> length rounds"
  proof (cases "left s = 0")
    case True
    with run_mono [OF Cons.prems(1), of r] show ?thesis by linarith
  next
    case False
    then obtain e where "e \<in> actors s" "runs s e" using some_runs [OF Cons.prems(1)] by blast
    then have "left ?s < left s" using round_progress [OF Cons.prems(1), of e r] Cons.prems(2) by auto
    with Cons.prems(3) show ?thesis by (simp add: less_Suc_eq_le [symmetric])
  qed
  with Cons.IH [OF run_keeps [OF Cons.prems(1)], of r] Cons.prems(2) show ?case
    by (simp add: run_actors run_steps_append)
qed simp

end

end
