(* ===== verification/Store_Threads.thy ===== *)
theory Store_Threads imports Store_Calls Fair_Runs begin

text \<open>
  Several threads in one store: the event handler, the sweeper and the chain monitors call
  \<open>write\<close> of one \<open>FilesystemStore\<close>, the command loop and the background processor of
  another. A schedule interleaves the steps of any number of
  calls. A thread waits for the lock of its file by the file's path: while a thread holds or awaits
  the lock, its entry stays in the table and every other thread gets the same lock, which is
  \<open>locks_survive_collection\<close>. A panic of the debug build ends its call here and the process in
  the program, so the schedule that stops there describes it.
\<close>

section \<open>Any number of calls\<close>

record write_thread =
  tkey :: kv_key
  tbuf :: bytes
  phase :: write_phase

text \<open>Who holds the write lock of a file, and who waits for it.\<close>

fun holds_lock :: "write_phase \<Rightarrow> path option" where
  "holds_lock (Renaming dest tmp) = Some dest"
| "holds_lock (Opening dest) = Some dest"
| "holds_lock (Syncing_dir dest) = Some dest"
| "holds_lock (Unlocking dest r) = Some dest"
| "holds_lock _ = None"

fun blocked :: "write_thread list \<Rightarrow> write_phase \<Rightarrow> bool" where
  "blocked ts (Waiting dest tmp) \<longleftrightarrow> list_ex (\<lambda>t. holds_lock (phase t) = Some dest) ts"
| "blocked ts _ \<longleftrightarrow> False"

text \<open>The scheduler picks a thread; one that waits for a lock stays where it is.\<close>

fun thread_step :: "kvstore \<times> write_thread list \<Rightarrow> nat \<Rightarrow> kvstore \<times> write_thread list" where
  "thread_step (s, ts) i =
     (if i < length ts \<and> \<not> blocked ts (phase (ts ! i))
      then let t = ts ! i in
           case write_call (tkey t) (tbuf t) (phase t) s of
             (p, s') \<Rightarrow> (s', ts[i := t\<lparr>phase := p\<rparr>])
      else (s, ts))"

definition start_call :: "kv_key \<times> bytes \<Rightarrow> write_thread" where
  "start_call kb = \<lparr>tkey = fst kb, tbuf = snd kb, phase = Checking\<rparr>"

definition run_threads :: "kvstore \<Rightarrow> (kv_key \<times> bytes) list \<Rightarrow> nat list \<Rightarrow> kvstore \<times> write_thread list" where
  "run_threads s calls sched = run_steps thread_step (s, map start_call calls) sched"

section \<open>The invariant of the threads\<close>

text \<open>A value that one of the calls writes to the file \<open>p\<close>.\<close>

definition offered :: "config \<Rightarrow> write_thread list \<Rightarrow> path \<Rightarrow> bytes option \<Rightarrow> bool" where
  "offered c ts p r \<longleftrightarrow>
     (\<exists>t\<in>set ts. valid_key c (tkey t) \<and> key_path c (tkey t) = p \<and> r = Some (tbuf t))"

definition contents_inv :: "config \<Rightarrow> (path \<Rightarrow> bytes option) \<Rightarrow> kvstore \<Rightarrow> write_thread list \<Rightarrow> bool" where
  "contents_inv c g s ts \<longleftrightarrow>
     (\<forall>p. dotless p \<longrightarrow> content_at (cur (dsk s)) p = g p \<or> offered c ts p (content_at (cur (dsk s)) p)) \<and>
     (\<forall>t\<in>set ts. renamed (phase t) \<longrightarrow> valid_key c (tkey t) \<longrightarrow>
        offered c ts (key_path c (tkey t)) (content_at (cur (dsk s)) (key_path c (tkey t))))"

text \<open>Every temporary file has a number below the counter, and no two calls have the same.\<close>

definition tmps_inv :: "config \<Rightarrow> u64 \<Rightarrow> kvstore \<Rightarrow> write_thread list \<Rightarrow> bool" where
  "tmps_inv c n0 s ts \<longleftrightarrow>
     (\<exists>n \<le> length (filter (\<lambda>t. numbered (phase t)) ts). tmp_file_counter s = n0 + of_nat n \<and>
        (\<forall>t\<in>set ts. \<forall>q. tmp_of (phase t) = Some q \<longrightarrow>
           valid_key c (tkey t) \<and> (\<exists>j<n. q = tmp_name c (tkey t) (n0 + of_nat j)))) \<and>
     (\<forall>i<length ts. \<forall>j<length ts. i \<noteq> j \<longrightarrow> tmp_of (phase (ts ! i)) \<noteq> None \<longrightarrow>
        tmp_of (phase (ts ! i)) \<noteq> tmp_of (phase (ts ! j)))"

definition calls_inv :: "config \<Rightarrow> kvstore \<Rightarrow> write_thread list \<Rightarrow> bool" where
  "calls_inv c s ts \<longleftrightarrow> cfg s = c \<and> fs_wf (cur (dsk s)) \<and>
     (\<forall>t\<in>set ts. call_inv c (tkey t) (tbuf t) (phase t) (dsk s))"

lemma filter_numbered_update:
  assumes "i < length ts" "numbered (phase (ts ! i)) \<longrightarrow> numbered p"
  shows "length (filter (\<lambda>t. numbered (phase t)) (ts[i := (ts ! i)\<lparr>phase := p\<rparr>])) =
    length (filter (\<lambda>t. numbered (phase t)) ts) +
      (if numbered p \<and> \<not> numbered (phase (ts ! i)) then 1 else 0)"
  using assms
proof (induction ts arbitrary: i)
  case (Cons t ts)
  then show ?case by (cases i) auto
qed simp

lemma of_nat_u64_inj: "j < n \<Longrightarrow> n < 2 ^ 64 \<Longrightarrow> (of_nat j :: u64) \<noteq> of_nat n"
proof
  assume jn: "j < n" "n < 2 ^ 64" and "(of_nat j :: u64) = of_nat n"
  then have "unat (of_nat j :: u64) = unat (of_nat n :: u64)" by simp
  then show False using jn by (simp add: unat_of_nat take_bit_nat_eq_self)
qed

lemma bex_update:
  assumes "\<And>t. P (f t) = P t"
  shows "(\<exists>t\<in>set (ts[i := f (ts ! i)]). P t) = (\<exists>t\<in>set ts. P t)"
proof (induction ts arbitrary: i)
  case (Cons t ts)
  then show ?case using assms by (cases i) simp_all
qed simp

lemma offered_update [simp]: "offered c (ts[i := (ts ! i)\<lparr>phase := p\<rparr>]) q r = offered c ts q r"
  unfolding offered_def by (rule bex_update) simp

lemma call_inv_tmp:
  assumes "alphabet_ok c" "call_inv c k buf p d" "tmp_of p = Some q"
  shows "\<not> dotless q"
  using assms(2,3) names_facts(1) [OF assms(1), of k] is_tmp_of_facts(2) by (cases p) auto

lemma all_threads_update:
  assumes "i < length ts" "Q t'" "\<And>j. j < length ts \<Longrightarrow> j \<noteq> i \<Longrightarrow> Q (ts ! j)"
  shows "\<forall>t\<in>set (ts[i := t']). Q t"
  using assms by (auto simp: all_set_conv_all_nth nth_list_update)

lemma calls_inv_step:
  assumes "alphabet_ok c" "calls_inv c s ts" "tmps_inv c n0 s ts" "i < length ts"
    and w: "write_call (tkey (ts ! i)) (tbuf (ts ! i)) (phase (ts ! i)) s = (p, s')"
  shows "calls_inv c s' (ts[i := (ts ! i)\<lparr>phase := p\<rparr>])"
proof -
  let ?t = "ts ! i"
  have inv: "call_inv c (tkey (ts ! j)) (tbuf (ts ! j)) (phase (ts ! j)) (dsk s)" if "j < length ts" for j
    using assms(2) that by (simp add: calls_inv_def)
  have wf: "fs_wf (cur (dsk s))" "cfg s = c" using assms(2) by (simp_all add: calls_inv_def)
  have own: "step_ok c (tkey ?t) (tbuf ?t) (content_at (cur (dsk s))) (phase ?t) p s'"
    using write_call_own [OF assms(1) _ inv [OF assms(4)] w] keeps_self [OF wf(1)] wf(2) by simp
  have "call_inv c (tkey (ts ! j)) (tbuf (ts ! j)) (phase (ts ! j)) (dsk s')"
    if j: "j < length ts" "j \<noteq> i" for j
  proof (rule call_inv_other [OF inv [OF j(1)]])
    fix q n b assume q: "tmp_of (phase (ts ! j)) = Some q" and h: "holds_tmp q n b (dsk s)"
    have "tmp_of (phase ?t) \<noteq> Some q"
      using assms(3,4) j q by (metis option.distinct(1) tmps_inv_def)
    then show "holds_tmp q n b (dsk s')"
      using write_call_leaves [OF assms(1) wf(1) inv [OF assms(4)] h call_inv_tmp [OF assms(1) inv [OF j(1)] q]] w
      by simp
  qed
  then have "\<forall>t\<in>set (ts[i := ?t\<lparr>phase := p\<rparr>]). call_inv c (tkey t) (tbuf t) (phase t) (dsk s')"
    by (intro all_threads_update [OF assms(4)]) (use own in \<open>auto simp: step_ok_def\<close>)
  then show ?thesis using own by (auto simp: calls_inv_def step_ok_def at_cfg_def keeps_def)
qed

lemma contents_inv_step:
  assumes "alphabet_ok c" "calls_inv c s ts" "contents_inv c g s ts" "i < length ts"
    and w: "write_call (tkey (ts ! i)) (tbuf (ts ! i)) (phase (ts ! i)) s = (p, s')"
  shows "contents_inv c g s' (ts[i := (ts ! i)\<lparr>phase := p\<rparr>])"
proof -
  let ?t = "ts ! i" and ?h = "content_at (cur (dsk s))" and ?h' = "content_at (cur (dsk s'))"
  let ?ts' = "ts[i := ?t\<lparr>phase := p\<rparr>]" and ?kp = "key_path c (tkey (ts ! i))"
  have wf: "fs_wf (cur (dsk s))" "cfg s = c" "call_inv c (tkey ?t) (tbuf ?t) (phase ?t) (dsk s)"
    using assms(2,4) by (simp_all add: calls_inv_def)
  have own: "step_ok c (tkey ?t) (tbuf ?t) ?h (phase ?t) p s'"
    using write_call_own [OF assms(1) _ wf(3) w] keeps_self [OF wf(1)] wf(2) by simp
  have old: "\<forall>q. dotless q \<longrightarrow> ?h q = g q \<or> offered c ts q (?h q)"
    and ren: "\<forall>t\<in>set ts. renamed (phase t) \<longrightarrow> valid_key c (tkey t) \<longrightarrow>
      offered c ts (key_path c (tkey t)) (?h (key_path c (tkey t)))"
    using assms(3) unfolding contents_inv_def by blast+
  note dl = key_path_dotless [OF assms(1)]
  consider (same) "\<forall>q. dotless q \<longrightarrow> ?h' q = ?h q" "renamed p \<longrightarrow> renamed (phase ?t)"
    | (put) "\<forall>q. dotless q \<longrightarrow> ?h' q = (?h(?kp \<mapsto> tbuf ?t)) q" "valid_key c (tkey ?t)"
    using own by (auto simp: step_ok_def at_cfg_def keeps_def)
  then show ?thesis
  proof cases
    case same
    have "\<forall>t\<in>set ?ts'. renamed (phase t) \<longrightarrow> valid_key c (tkey t) \<longrightarrow>
        offered c ts (key_path c (tkey t)) (?h' (key_path c (tkey t)))"
      by (rule all_threads_update [OF assms(4)]) (use same ren dl assms(4) in \<open>simp_all\<close>)
    then show ?thesis using old same(1) by (simp add: contents_inv_def)
  next
    case put
    then have here: "offered c ts ?kp (Some (tbuf ?t))"
      using assms(4) by (auto simp: offered_def intro!: bexI [of _ ?t])
    have "\<forall>t\<in>set ?ts'. renamed (phase t) \<longrightarrow> valid_key c (tkey t) \<longrightarrow>
        offered c ts (key_path c (tkey t)) (?h' (key_path c (tkey t)))"
      by (rule all_threads_update [OF assms(4)]) (use put ren dl here in \<open>simp_all\<close>)
    moreover have "\<forall>q. dotless q \<longrightarrow> ?h' q = g q \<or> offered c ts q (?h' q)" using old put(1) here by simp
    ultimately show ?thesis by (simp add: contents_inv_def)
  qed
qed

lemma tmps_inv_step:
  assumes "alphabet_ok c" "calls_inv c s ts" "tmps_inv c n0 s ts" "i < length ts" "length ts < 2 ^ 64"
    and w: "write_call (tkey (ts ! i)) (tbuf (ts ! i)) (phase (ts ! i)) s = (p, s')"
  shows "tmps_inv c n0 s' (ts[i := (ts ! i)\<lparr>phase := p\<rparr>])"
proof -
  let ?t = "ts ! i" let ?ts' = "ts[i := ?t\<lparr>phase := p\<rparr>]"
  let ?N = "\<lambda>ts. length (filter (\<lambda>t. numbered (phase t)) ts)"
  have inv: "call_inv c (tkey ?t) (tbuf ?t) (phase ?t) (dsk s)" using assms(2,4) by (simp add: calls_inv_def)
  obtain n where n: "n \<le> ?N ts" "tmp_file_counter s = n0 + of_nat n"
    and below: "\<forall>t\<in>set ts. \<forall>q. tmp_of (phase t) = Some q \<longrightarrow>
       valid_key c (tkey t) \<and> (\<exists>j<n. q = tmp_name c (tkey t) (n0 + of_nat j))"
    using assms(3) by (auto simp: tmps_inv_def)
  have apart: "\<forall>i<length ts. \<forall>j<length ts. i \<noteq> j \<longrightarrow> tmp_of (phase (ts ! i)) \<noteq> None \<longrightarrow>
        tmp_of (phase (ts ! i)) \<noteq> tmp_of (phase (ts ! j))"
    using assms(3) by (simp add: tmps_inv_def)
  have step: "tmp_file_counter s' = tmp_file_counter s \<and> (numbered (phase ?t) \<longrightarrow> numbered p) \<and>
       tmp_of p \<in> {None, tmp_of (phase ?t)} \<or>
     valid_key c (tkey ?t) \<and> \<not> numbered (phase ?t) \<and> numbered p \<and>
       tmp_file_counter s' = tmp_file_counter s + 1 \<and>
       tmp_of p = Some (tmp_name c (tkey ?t) (tmp_file_counter s))"
    using write_call_names [OF inv] w by simp
  have low: "?N ts \<le> length ts" by (rule length_filter_le)
  from step show ?thesis
  proof
    assume k: "tmp_file_counter s' = tmp_file_counter s \<and> (numbered (phase ?t) \<longrightarrow> numbered p) \<and>
       tmp_of p \<in> {None, tmp_of (phase ?t)}"
    have "n \<le> ?N ?ts'" using n(1) filter_numbered_update [OF assms(4), of p] k by simp
    moreover have "\<forall>t\<in>set ?ts'. \<forall>q. tmp_of (phase t) = Some q \<longrightarrow>
       valid_key c (tkey t) \<and> (\<exists>j<n. q = tmp_name c (tkey t) (n0 + of_nat j))"
      by (rule all_threads_update [OF assms(4)]) (use k below assms(4) in \<open>auto simp del: split_paired_All\<close>)
    moreover have "\<forall>i<length ?ts'. \<forall>j<length ?ts'. i \<noteq> j \<longrightarrow> tmp_of (phase (?ts' ! i)) \<noteq> None \<longrightarrow>
        tmp_of (phase (?ts' ! i)) \<noteq> tmp_of (phase (?ts' ! j))"
    proof (intro allI impI)
      fix a b assume ab: "a < length ?ts'" "b < length ?ts'" "a \<noteq> b" "tmp_of (phase (?ts' ! a)) \<noteq> None"
      have at: "tmp_of (phase (?ts' ! m)) \<in> {None, tmp_of (phase (ts ! m))}" if "m < length ts" for m
        using that k by (cases "m = i") auto
      then have "tmp_of (phase (?ts' ! a)) = tmp_of (phase (ts ! a))" using at [of a] ab by auto
      moreover from this have "tmp_of (phase (ts ! a)) \<noteq> tmp_of (phase (ts ! b))"
        using apart ab by (metis length_list_update)
      ultimately show "tmp_of (phase (?ts' ! a)) \<noteq> tmp_of (phase (?ts' ! b))"
        using at [of b] ab(2,4) by (metis insertE length_list_update singletonD)
    qed
    ultimately show ?thesis using n(2) k unfolding tmps_inv_def by auto
  next
    assume k: "valid_key c (tkey ?t) \<and> \<not> numbered (phase ?t) \<and> numbered p \<and>
       tmp_file_counter s' = tmp_file_counter s + 1 \<and>
       tmp_of p = Some (tmp_name c (tkey ?t) (tmp_file_counter s))"
    have le: "Suc n \<le> ?N ?ts'" using n(1) filter_numbered_update [OF assms(4), of p] k by simp
    have fresh: "tmp_of (phase (ts ! j)) \<noteq> tmp_of p" if "j < length ts" for j
    proof
      assume "tmp_of (phase (ts ! j)) = tmp_of p"
      with k n(2) have "tmp_of (phase (ts ! j)) = Some (tmp_name c (tkey ?t) (n0 + of_nat n))" by simp
      with below that obtain m where m: "m < n" "valid_key c (tkey (ts ! j))"
          "tmp_name c (tkey ?t) (n0 + of_nat n) = tmp_name c (tkey (ts ! j)) (n0 + of_nat m)"
        by (metis nth_mem)
      from tmp_name_inj [OF assms(1) _ m(2,3)] k have "(of_nat n :: u64) = of_nat m" by simp
      moreover have "n < 2 ^ 64" using n(1) low assms(5) by linarith
      ultimately show False using of_nat_u64_inj [OF m(1)] by metis
    qed
    have "\<forall>t\<in>set ?ts'. \<forall>q. tmp_of (phase t) = Some q \<longrightarrow>
       valid_key c (tkey t) \<and> (\<exists>m<Suc n. q = tmp_name c (tkey t) (n0 + of_nat m))"
    proof (rule all_threads_update [OF assms(4)])
      show "\<forall>q. tmp_of (phase (ts ! j)) = Some q \<longrightarrow> valid_key c (tkey (ts ! j)) \<and>
          (\<exists>m<Suc n. q = tmp_name c (tkey (ts ! j)) (n0 + of_nat m))" if "j < length ts" for j
        using below that less_SucI nth_mem by metis
    qed (use k n(2) in auto)
    moreover have "\<forall>i<length ?ts'. \<forall>j<length ?ts'. i \<noteq> j \<longrightarrow> tmp_of (phase (?ts' ! i)) \<noteq> None \<longrightarrow>
        tmp_of (phase (?ts' ! i)) \<noteq> tmp_of (phase (?ts' ! j))"
    proof (intro allI impI)
      fix a b assume ab: "a < length ?ts'" "b < length ?ts'" "a \<noteq> b" "tmp_of (phase (?ts' ! a)) \<noteq> None"
      then show "tmp_of (phase (?ts' ! a)) \<noteq> tmp_of (phase (?ts' ! b))"
      proof (cases "a = i \<or> b = i")
        case True
        then show ?thesis using ab(1-3) fresh [of a] fresh [of b] by (auto simp: nth_list_update)
      next
        case False
        then show ?thesis using apart ab by (metis length_list_update nth_list_update_neq)
      qed
    qed
    ultimately show ?thesis using n(2) k le unfolding tmps_inv_def
      by (intro conjI exI [of _ "Suc n"]) (simp_all add: add.assoc)
  qed
qed

definition threads_inv :: "config \<Rightarrow> u64 \<Rightarrow> (path \<Rightarrow> bytes option) \<Rightarrow> kvstore \<times> write_thread list \<Rightarrow> bool" where
  "threads_inv c n0 g st \<longleftrightarrow> alphabet_ok c \<and> length (snd st) < 2 ^ 64 \<and> calls_inv c (fst st) (snd st) \<and>
     tmps_inv c n0 (fst st) (snd st) \<and> contents_inv c g (fst st) (snd st)"

lemma thread_step_keeps:
  assumes "threads_inv c n0 g st"
  shows "threads_inv c n0 g (thread_step st i)"
proof -
  obtain s ts where st: "st = (s, ts)" by (cases st)
  show ?thesis
  proof (cases "i < length ts \<and> \<not> blocked ts (phase (ts ! i))")
    case True
    obtain p s' where w: "write_call (tkey (ts ! i)) (tbuf (ts ! i)) (phase (ts ! i)) s = (p, s')"
      by fastforce
    have inv: "alphabet_ok c" "length ts < 2 ^ 64" "calls_inv c s ts" "tmps_inv c n0 s ts" "contents_inv c g s ts"
      using assms st by (simp_all add: threads_inv_def)
    have i: "i < length ts" using True by simp
    from calls_inv_step [OF inv(1,3,4) i w] tmps_inv_step [OF inv(1,3,4) i inv(2) w]
      contents_inv_step [OF inv(1,3,5) i w] inv(1,2)
    show ?thesis using True w by (simp add: st threads_inv_def)
  qed (use assms st in auto)
qed

interpretation writers: invariant_system thread_step "threads_inv c n0 g" for c n0 g
  by unfold_locales (rule thread_step_keeps)

lemma threads_inv_start:
  assumes "store_inv s" "length calls < 2 ^ 64"
  shows "threads_inv (cfg s) (tmp_file_counter s) (content_at (cur (dsk s))) (s, map start_call calls)"
proof -
  have "tmps_inv (cfg s) (tmp_file_counter s) s (map start_call calls)"
    unfolding tmps_inv_def by (intro conjI exI [of _ 0]) (simp_all add: start_call_def)
  then show ?thesis using assms
    by (simp add: threads_inv_def store_inv_def calls_inv_def contents_inv_def start_call_def)
qed

lemma thread_step_calls:
  "map (\<lambda>t. (tkey t, tbuf t)) (snd (thread_step st i)) = map (\<lambda>t. (tkey t, tbuf t)) (snd st)"
proof -
  obtain s ts where st: "st = (s, ts)" by (cases st)
  have "map (\<lambda>t. (tkey t, tbuf t)) (ts[i := (ts ! i)\<lparr>phase := p\<rparr>]) = map (\<lambda>t. (tkey t, tbuf t)) ts" for p
  proof (induction ts arbitrary: i)
    case (Cons t ts)
    then show ?case by (cases i) simp_all
  qed simp
  then show ?thesis by (simp add: st Let_def split: prod.splits)
qed

lemma run_calls:
  "map (\<lambda>t. (tkey t, tbuf t)) (snd (run_steps thread_step st is)) = map (\<lambda>t. (tkey t, tbuf t)) (snd st)"
  by (induction "is" arbitrary: st) (simp_all add: thread_step_calls del: thread_step.simps)

lemma threads_calls:
  "map (\<lambda>t. (tkey t, tbuf t)) (snd (run_threads s calls sched)) = calls"
  by (simp add: run_threads_def run_calls start_call_def comp_def)

lemma thread_key:
  assumes "i < length calls"
  shows "i < length (snd (run_threads s calls sched))" "tkey (snd (run_threads s calls sched) ! i) = fst (calls ! i)"
proof -
  let ?ts = "snd (run_threads s calls sched)"
  show len: "i < length ?ts" using assms arg_cong [OF threads_calls [of s calls sched], of length] by simp
  have "fst (map (\<lambda>t. (tkey t, tbuf t)) ?ts ! i) = tkey (?ts ! i)" using len by simp
  then show "tkey (?ts ! i) = fst (calls ! i)" unfolding threads_calls by simp
qed

lemma run_threads_inv:
  assumes "store_inv s" "length calls < 2 ^ 64"
  shows "threads_inv (cfg s) (tmp_file_counter s) (content_at (cur (dsk s))) (run_threads s calls sched)"
  unfolding run_threads_def by (rule writers.run_keeps [OF threads_inv_start [OF assms]])

lemma offered_call:
  assumes "map (\<lambda>t. (tkey t, tbuf t)) ts = calls" "valid_key c k" "offered c ts (key_path c k) r"
  shows "\<exists>v. (k, v) \<in> set calls \<and> r = Some v"
proof -
  from assms(3) obtain t where t: "t \<in> set ts" "valid_key c (tkey t)" "key_path c (tkey t) = key_path c k" "r = Some (tbuf t)"
    by (auto simp: offered_def simp del: split_paired_Ex)
  have "tkey t = k" by (rule key_path_inj [OF t(2) assms(2) t(3)])
  moreover have "(tkey t, tbuf t) \<in> set calls" using t(1) by (simp add: assms(1) [symmetric])
  ultimately show ?thesis using t(4) by auto
qed

lemma run_threads_contents:
  assumes "store_inv s" "length calls < 2 ^ 64" "valid_key (cfg s) k"
  shows "kv_get (fst (run_threads s calls sched)) k = kv_get s k \<or>
     (\<exists>v. (k, v) \<in> set calls \<and> kv_get (fst (run_threads s calls sched)) k = Some v)"
    and "i < length calls \<Longrightarrow> fst (calls ! i) = k \<Longrightarrow> renamed (phase (snd (run_threads s calls sched) ! i)) \<Longrightarrow>
     \<exists>v. (k, v) \<in> set calls \<and> kv_get (fst (run_threads s calls sched)) k = Some v"
proof -
  let ?c = "cfg s" and ?kp = "key_path (cfg s) k"
  obtain s' ts where r: "run_threads s calls sched = (s', ts)" by fastforce
  have m: "map (\<lambda>t. (tkey t, tbuf t)) ts = calls" using threads_calls [of s calls sched] r by simp
  have inv: "alphabet_ok ?c" "calls_inv ?c s' ts" "contents_inv ?c (content_at (cur (dsk s))) s' ts"
    using run_threads_inv [OF assms(1,2), of sched] by (simp_all add: r threads_inv_def)
  have get: "kv_get s' k = content_at (cur (dsk s')) ?kp" "kv_get s k = content_at (cur (dsk s)) ?kp"
    using inv(2) assms(3) by (simp_all add: kv_get_def calls_inv_def)
  have dl: "dotless ?kp" by (rule key_path_dotless [OF inv(1) assms(3)])
  show "kv_get (fst (run_threads s calls sched)) k = kv_get s k \<or>
     (\<exists>v. (k, v) \<in> set calls \<and> kv_get (fst (run_threads s calls sched)) k = Some v)"
  proof -
    have "content_at (cur (dsk s')) ?kp = content_at (cur (dsk s)) ?kp \<or>
        offered ?c ts ?kp (content_at (cur (dsk s')) ?kp)"
      using inv(3) dl unfolding contents_inv_def by blast
    with offered_call [OF m assms(3)] show ?thesis by (simp only: r fst_conv get) blast
  qed
  assume i: "i < length calls" "fst (calls ! i) = k" "renamed (phase (snd (run_threads s calls sched) ! i))"
  have "tkey (ts ! i) = k" "ts ! i \<in> set ts" "renamed (phase (ts ! i))"
    using thread_key [OF i(1), of s sched] i(2,3) by (simp_all add: r)
  then have "offered ?c ts ?kp (content_at (cur (dsk s')) ?kp)"
    using inv(3) assms(3) unfolding contents_inv_def by metis
  then show "\<exists>v. (k, v) \<in> set calls \<and> kv_get (fst (run_threads s calls sched)) k = Some v"
    using offered_call [OF m assms(3)] by (simp add: r get)
qed

section \<open>Every call ends\<close>

fun steps_left :: "config \<Rightarrow> write_phase \<Rightarrow> nat" where
  "steps_left c Checking = length (data_dir c) + 15"
| "steps_left c (Making dest made rest) = length rest + 12"
| "steps_left c (Naming dest) = 11"
| "steps_left c (Creating dest tmp) = 10"
| "steps_left c (Writing dest tmp fd) = 9"
| "steps_left c (Syncing dest tmp fd) = 8"
| "steps_left c (Cloning dest tmp) = 7"
| "steps_left c (Waiting dest tmp) = 6"
| "steps_left c (Renaming dest tmp) = 5"
| "steps_left c (Opening dest) = 4"
| "steps_left c (Syncing_dir dest) = 3"
| "steps_left c (Unlocking dest r) = 2"
| "steps_left c Collecting = 1"
| "steps_left c (Finished r) = 0"

lemma length_key_dir: "length (key_dir c k) \<le> length (data_dir c) + 2"
  by (cases k) simp

lemma steps_left_call:
  assumes "alphabet_ok (cfg s)" "steps_left (cfg s) p > 0"
  shows "steps_left (cfg s) (fst (write_call k buf p s)) < steps_left (cfg s) p"
proof (cases p)
  case Checking
  obtain r s' where w: "write_names k s = (r, s')" by fastforce
  show ?thesis
  proof (cases r)
    case (Ok dp)
    have "at_cfg (cfg s) (\<lambda>_. True) s" by (simp add: at_cfg_def)
    from hoare_ok [OF hoare_write_names [OF assms(1)] this, of k dp s'] w Ok
    have "snd dp = key_dir (cfg s) k" by (auto simp: names_def split: prod.splits)
    then show ?thesis using Checking w Ok length_key_dir [of "cfg s" k]
      by (cases dp) (simp add: call_fst)
  qed (simp_all add: Checking call_fst w)
next
  case (Making dest made rest)
  then show ?thesis by (cases rest) (simp_all add: call_fst del: create_dirs.simps split: outcome.splits)
qed (use assms(2) in \<open>simp_all add: call_fst split: outcome.splits\<close>)

definition total_left :: "config \<Rightarrow> write_thread list \<Rightarrow> nat" where
  "total_left c ts = sum_list (map (\<lambda>t. steps_left c (phase t)) ts)"

definition can_run :: "write_thread list \<Rightarrow> nat \<Rightarrow> bool" where
  "can_run ts i \<longleftrightarrow> i < length ts \<and> \<not> blocked ts (phase (ts ! i)) \<and> \<not> (\<exists>r. phase (ts ! i) = Finished r)"

lemma steps_left_pos: "(0 < steps_left c p) = (\<not> (\<exists>r. p = Finished r))"
  by (cases p) simp_all

lemma total_left_update:
  assumes "i < length ts" "steps_left c p < steps_left c (phase (ts ! i))"
  shows "total_left c (ts[i := (ts ! i)\<lparr>phase := p\<rparr>]) < total_left c ts"
  using assms
proof (induction ts arbitrary: i)
  case (Cons t ts)
  then show ?case by (cases i) (simp_all add: total_left_def)
qed simp

text \<open>A step of a thread that can run is progress; any other step changes nothing.\<close>

lemma thread_step_progress:
  assumes "alphabet_ok (cfg s)" "can_run ts i"
  shows "total_left (cfg s) (snd (thread_step (s, ts) i)) < total_left (cfg s) ts"
proof -
  have "steps_left (cfg s) (fst (write_call (tkey (ts ! i)) (tbuf (ts ! i)) (phase (ts ! i)) s))
      < steps_left (cfg s) (phase (ts ! i))"
    using assms by (intro steps_left_call) (simp_all add: can_run_def steps_left_pos)
  with total_left_update [of i ts "cfg s"] assms(2) show ?thesis
    by (auto simp: can_run_def Let_def split: prod.splits)
qed

lemma thread_step_idle:
  assumes "\<not> can_run ts i"
  shows "thread_step (s, ts) i = (s, ts)"
proof (cases "i < length ts \<and> (\<exists>r. phase (ts ! i) = Finished r)")
  case True
  then have "write_call (tkey (ts ! i)) (tbuf (ts ! i)) (phase (ts ! i)) s = (phase (ts ! i), s)" by auto
  then show ?thesis by (simp add: Let_def)
qed (use assms in \<open>auto simp: can_run_def\<close>)

text \<open>No deadlock: who waits for a lock waits for a thread that can run.\<close>

lemma someone_can_run:
  assumes "t \<in> set ts" "\<not> (\<exists>r. phase t = Finished r)"
  obtains i where "can_run ts i"
proof -
  obtain j where j: "j < length ts" "ts ! j = t" using assms(1) by (auto simp: in_set_conv_nth)
  show thesis
  proof (cases "blocked ts (phase t)")
    case True
    then obtain dest tmp where "phase t = Waiting dest tmp" by (cases "phase t") auto
    with True obtain i where "i < length ts" "holds_lock (phase (ts ! i)) = Some dest"
      by (auto simp: list_ex_iff in_set_conv_nth)
    then have "can_run ts i" by (cases "phase (ts ! i)") (simp_all add: can_run_def)
    then show thesis by (rule that)
  qed (use j assms(2) that [of j] in \<open>simp add: can_run_def\<close>)
qed

lemma step_cfg:
  assumes "threads_inv c n0 g st"
  shows "cfg (fst st) = c" "alphabet_ok (cfg (fst st))"
  using assms by (auto simp: threads_inv_def calls_inv_def)

lemma can_run_or_finished:
  assumes "0 < total_left c ts"
  shows "\<exists>i<length ts. can_run ts i"
proof -
  have "\<not> (\<forall>t\<in>set ts. steps_left c (phase t) = 0)"
  proof
    assume "\<forall>t\<in>set ts. steps_left c (phase t) = 0"
    then have "total_left c ts = 0" by (simp add: total_left_def)
    with assms show False by simp
  qed
  then obtain t where "t \<in> set ts" "\<not> (\<exists>r. phase t = Finished r)" using steps_left_pos by (metis gr0I)
  then obtain i where "can_run ts i" by (rule someone_can_run)
  then show ?thesis by (auto simp: can_run_def)
qed

interpretation fair_writers: fair_system thread_step "threads_inv c n0 g"
  "\<lambda>st. total_left c (snd st)" "\<lambda>st. can_run (snd st)" "\<lambda>st. {..<length (snd st)}" for c n0 g
proof
  fix st :: "kvstore \<times> write_thread list" and i
  obtain s ts where st: "st = (s, ts)" by (cases st)
  show "\<not> can_run (snd st) i \<Longrightarrow> thread_step st i = st" using thread_step_idle [of ts i s] st by simp
  show "{..<length (snd (thread_step st i))} = {..<length (snd st)}"
    using arg_cong [OF thread_step_calls [of st i], of length] by simp
  assume inv: "threads_inv c n0 g st"
  note c = step_cfg [OF inv, unfolded st fst_conv]
  show "can_run (snd st) i \<Longrightarrow> total_left c (snd (thread_step st i)) < total_left c (snd st)"
    using thread_step_progress [OF c(2), of ts i] unfolding c(1) st by simp
  show "0 < total_left c (snd st) \<Longrightarrow> \<exists>i\<in>{..<length (snd st)}. can_run (snd st) i"
    using can_run_or_finished [of c "snd st"] by auto
qed

section \<open>Properties\<close>

text \<open>
  However the steps of any number of writes interleave, with any faults, every key holds at
  every moment its old value or the whole value of one of the writes to it; and once a write to it
  has returned \<open>Ok\<close>, never the old value only.
\<close>

theorem concurrent_writes_whole:
  assumes "store_inv s" "length calls < 2 ^ 64"
  shows "case run_threads s calls sched of (s', ts) \<Rightarrow>
     (kv_get s' k = kv_get s k \<or> (\<exists>v. (k, v) \<in> set calls \<and> kv_get s' k = Some v)) \<and>
     (\<forall>i<length calls. fst (calls ! i) = k \<and> phase (ts ! i) = Finished (Ok ()) \<longrightarrow>
        (\<exists>v. (k, v) \<in> set calls \<and> kv_get s' k = Some v))"
proof (cases "valid_key (cfg s) k")
  case True
  have "(\<exists>v. (k, v) \<in> set calls \<and> kv_get (fst (run_threads s calls sched)) k = Some v)"
    if "i < length calls" "fst (calls ! i) = k" "phase (snd (run_threads s calls sched) ! i) = Finished (Ok ())" for i
    using run_threads_contents(2) [OF assms True that(1,2), of sched] that(3) by simp
  with run_threads_contents(1) [OF assms True, of sched] show ?thesis
    by (simp only: case_prod_unfold) blast
next
  case False
  note inv = run_threads_inv [OF assms, of sched]
  have c: "cfg (fst (run_threads s calls sched)) = cfg s" by (rule step_cfg(1) [OF inv])
  have no: "phase (snd (run_threads s calls sched) ! i) \<noteq> Finished (Ok ())"
    if "i < length calls" "fst (calls ! i) = k" for i
  proof
    assume f: "phase (snd (run_threads s calls sched) ! i) = Finished (Ok ())"
    let ?ts = "snd (run_threads s calls sched)"
    have "tkey (?ts ! i) = k" using thread_key(2) [OF that(1)] that(2) by simp
    moreover have "call_inv (cfg s) (tkey (?ts ! i)) (tbuf (?ts ! i)) (phase (?ts ! i)) (dsk (fst (run_threads s calls sched)))"
      using inv thread_key(1) [OF that(1)] by (simp add: threads_inv_def calls_inv_def)
    ultimately show False using f False by simp
  qed
  then show ?thesis using False c by (auto simp: kv_get_def case_prod_unfold)
qed

text \<open>Two writes to one key and one to another, a step of each in turn.\<close>

definition sample_calls :: "(kv_key \<times> bytes) list" where
  "sample_calls = [(manager_key, [1, 1]), (manager_key, [2, 2]), (monitor_key, [7])]"

lemma sample_run:
  "map (kv_get (fst (run_threads (sample_store []) sample_calls (concat (replicate 16 [0, 1, 2])))))
     [manager_key, monitor_key] = [Some [2, 2], Some [7]]"
  by code_simp

theorem concurrent_writes_whole_witness:
  "store_inv (sample_store []) \<and> length sample_calls < 2 ^ 64 \<and>
   map (kv_get (fst (run_threads (sample_store []) sample_calls (concat (replicate 16 [0, 1, 2])))))
     [manager_key, monitor_key] = [Some [2, 2], Some [7]] \<and>
   (case run_threads (sample_store []) sample_calls (concat (replicate 16 [0, 1, 2])) of (s', ts) \<Rightarrow>
     kv_get s' manager_key = kv_get (sample_store []) manager_key \<or>
     (\<exists>v. (manager_key, v) \<in> set sample_calls \<and> kv_get s' manager_key = Some v))"
proof (intro conjI)
  show l: "length sample_calls < 2 ^ 64" by (simp add: sample_calls_def)
  show "case run_threads (sample_store []) sample_calls (concat (replicate 16 [0, 1, 2])) of (s', ts) \<Rightarrow>
     kv_get s' manager_key = kv_get (sample_store []) manager_key \<or>
     (\<exists>v. (manager_key, v) \<in> set sample_calls \<and> kv_get s' manager_key = Some v)"
    using concurrent_writes_whole [OF sample_store_inv l, where sched = "concat (replicate 16 [0, 1, 2])" and k = manager_key]
    by (simp only: case_prod_unfold)
qed (rule sample_store_inv, rule sample_run)

text \<open>
  Writers never wait for each other in a circle: with any faults, every call has ended after
  enough rounds in which every thread was scheduled at least once, in any order.
\<close>

theorem concurrent_writes_finish:
  assumes "store_inv s" "length calls < 2 ^ 64"
    and "\<forall>r\<in>set rounds. {..<length calls} \<subseteq> set r"
    and "length calls * (length (data_dir (cfg s)) + 15) \<le> length rounds"
  shows "list_all (\<lambda>t. case phase t of Finished r \<Rightarrow> True | _ \<Rightarrow> False)
    (snd (run_threads s calls (concat rounds)))"
proof -
  have "total_left (cfg s) (map start_call calls) = length calls * (length (data_dir (cfg s)) + 15)"
    by (simp add: total_left_def start_call_def comp_def sum_list_triv)
  then have "total_left (cfg s) (snd (run_threads s calls (concat rounds))) = 0"
    unfolding run_threads_def
    using fair_writers.rounds_finish [OF threads_inv_start [OF assms(1,2)]] assms(3,4) by simp
  then have "\<exists>r. phase t = Finished r" if "t \<in> set (snd (run_threads s calls (concat rounds)))" for t
    using that steps_left_pos [of "cfg s" "phase t"] by (auto simp: total_left_def)
  then show ?thesis by (fastforce simp: list_all_iff)
qed

theorem concurrent_writes_finish_witness:
  "list_all (\<lambda>t. case phase t of Finished r \<Rightarrow> True | _ \<Rightarrow> False)
    (snd (run_threads (sample_store []) sample_calls (concat (replicate 48 [2, 0, 1]))))"
proof (rule concurrent_writes_finish)
  show "\<forall>r\<in>set (replicate 48 [2, 0, 1]). {..<length sample_calls} \<subseteq> set r"
    by (auto simp: sample_calls_def)
qed (simp_all add: sample_store_inv, simp_all add: sample_calls_def sample_defs)

end
