(* ===== verification/Two_Stores.thy ===== *)
theory Two_Stores imports Store_Threads begin

text \<open>
  Two stores on one directory. \<open>main.rs\<close> makes one \<open>FilesystemStore\<close> for the event
  handler and a second one, on the same directory, for the background processor and the command
  loop. Each has its own counter of temporary files and its own locks, and both write the file of
  the outbound payments: the command loop does so outside the mutex of the table when an offer is
  paid. So two calls of \<open>write\<close> for one key, in two stores, can meet on one temporary file.
\<close>

section \<open>Calls in stores of their own\<close>

text \<open>Every caller has its own store and call; the disk is shared.\<close>

fun own_store_step ::
  "disk \<times> (kvstore \<times> write_thread) list \<Rightarrow> nat \<Rightarrow> disk \<times> (kvstore \<times> write_thread) list" where
  "own_store_step (d, cs) i =
     (if i < length cs
      then case cs ! i of
             (s, t) \<Rightarrow>
               (case write_call (tkey t) (tbuf t) (phase t) (s\<lparr>dsk := d\<rparr>) of
                  (p, s') \<Rightarrow> (dsk s', cs[i := (s', t\<lparr>phase := p\<rparr>)]))
      else (d, cs))"

lemma run_alone:
  assumes "i < length cs" "cs ! i = (s, t)" "alone (tkey t) (tbuf t) n (phase t, s\<lparr>dsk := d\<rparr>) = (p, s')"
  shows "run_steps own_store_step (d, cs) (replicate n i) =
    (if n = 0 then (d, cs) else (dsk s', cs[i := (s', t\<lparr>phase := p\<rparr>)]))"
  using assms
proof (induction n arbitrary: d cs s t)
  case (Suc n)
  obtain q s1 where w: "write_call (tkey t) (tbuf t) (phase t) (s\<lparr>dsk := d\<rparr>) = (q, s1)" by fastforce
  let ?cs = "cs[i := (s1, t\<lparr>phase := q\<rparr>)]"
  have "run_steps own_store_step (dsk s1, ?cs) (replicate n i) =
    (if n = 0 then (dsk s1, ?cs) else (dsk s', ?cs[i := (s', (t\<lparr>phase := q\<rparr>)\<lparr>phase := p\<rparr>)]))"
  proof (rule Suc.IH)
    have "s1\<lparr>dsk := dsk s1\<rparr> = s1" by (cases s1) simp
    then show "alone (tkey (t\<lparr>phase := q\<rparr>)) (tbuf (t\<lparr>phase := q\<rparr>)) n
        (phase (t\<lparr>phase := q\<rparr>), s1\<lparr>dsk := dsk s1\<rparr>) = (p, s')"
      using Suc.prems(3) w by simp
  qed (use Suc.prems in simp_all)
  then show ?case using Suc.prems w by (cases n) simp_all
qed simp

lemma alone_add: "alone k buf (m + n) ps = alone k buf n (alone k buf m ps)"
proof (induction m arbitrary: ps)
  case (Suc m)
  then show ?case by (cases ps; cases "write_call k buf (fst ps) (snd ps)") simp
qed simp

text \<open>Up to its temporary file, a call whose directory is there changes nothing.\<close>

definition dir_there :: "fs \<Rightarrow> path \<Rightarrow> bool" where
  "dir_there f p \<longleftrightarrow> (\<forall>n \<le> length p. lookup f (take n p) = Some Dir)"

lemma alone_making:
  assumes "dir_there (cur (dsk s)) (made @ rest)"
  shows "alone k buf (length rest + 1) (Making dest made rest, s) = (Naming dest, s)"
  using assms
proof (induction rest arbitrary: made)
  case (Cons e es)
  have "take (Suc (length made)) (made @ e # es) = made @ [e]" by simp
  with Cons.prems have e: "lookup (cur (dsk s)) (made @ [e]) = Some Dir"
    unfolding dir_there_def by (metis length_append length_Cons add_Suc_right le_add1 not_less_eq_eq plus_nat.simps(2))
  have "write_call k buf (Making dest made (e # es)) s = (Making dest (made @ [e]) es, s)"
    by (simp add: call_def on_disk_def e)
  then show ?case using Cons.IH [of "made @ [e]"] Cons.prems by simp
qed simp

lemma alone_to_name:
  assumes "alphabet_ok (cfg s)" "valid_key (cfg s) k" "dir_there (cur (dsk s)) (key_dir (cfg s) k)"
  shows "alone k buf (length (key_dir (cfg s) k) + 2) (Checking, s) = (Naming (key_path (cfg s) k), s)"
proof -
  obtain prim sec key where k: "k = (prim, sec, key)" by (cases k)
  have "write_call k buf Checking s = (Making (key_path (cfg s) k) [] (key_dir (cfg s) k), s)"
    using assms(2) dest_file_path_key [OF assms(1), of prim sec key]
    by (simp add: k call_def bind_st_def check_st_def dest_st_def parent_st_def path_parent_def
        return_st_def valid_key.simps del: key_dir.simps)
  then show ?thesis using alone_making [of s "[]" "key_dir (cfg s) k" k buf] assms(3)
    by (simp add: numeral_2_eq_2)
qed

section \<open>Two calls on one temporary file\<close>

text \<open>No fault, the directory is there, and neither name is a directory.\<close>

definition clear_way :: "config \<Rightarrow> kv_key \<Rightarrow> u64 \<Rightarrow> disk \<Rightarrow> bool" where
  "clear_way c k n d \<longleftrightarrow> faults d = [] \<and> fs_wf (cur d) \<and> dir_there (cur d) (key_dir c k) \<and>
     lookup (cur d) (key_path c k) \<noteq> Some Dir \<and> lookup (cur d) (tmp_name c k n) \<noteq> Some Dir"

lemma dir_there_parent: "dir_there f p \<Longrightarrow> lookup f p = Some Dir"
  unfolding dir_there_def by (metis order_refl take_all)

text \<open>The first call has written and synced its temporary file.\<close>

lemma alone_writes_tmp:
  assumes "alphabet_ok (cfg s)" "valid_key (cfg s) k" "clear_way (cfg s) k (tmp_file_counter s) (dsk s)"
  defines "dest \<equiv> key_path (cfg s) k" and "tmp \<equiv> tmp_name (cfg s) k (tmp_file_counter s)"
  shows "\<exists>s1 i. alone k buf 4 (Naming dest, s) = (Cloning dest tmp, s1) \<and> cfg s1 = cfg s \<and>
      faults (dsk s1) = [] \<and> fs_wf (cur (dsk s1)) \<and> holds_tmp tmp i buf (dsk s1) \<and>
      (\<forall>q. q \<noteq> tmp \<longrightarrow> lookup (cur (dsk s1)) q = lookup (cur (dsk s)) q)"
proof -
  have d: "dotless dest" using key_path_dotless [OF assms(1,2)] by (simp add: dest_def)
  have t: "tmp \<noteq> []" "butlast tmp = key_dir (cfg s) k"
    using is_tmp_of_facts [OF d, of tmp] by (auto simp: dest_def tmp_def tmp_name_def is_tmp_of_def)
  have w: "faults (dsk s) = []" "fs_wf (cur (dsk s))" "lookup (cur (dsk s)) (butlast tmp) = Some Dir"
    using assms(3) dir_there_parent by (simp_all add: clear_way_def t(2))
  have "lookup (cur (dsk s)) tmp \<noteq> Some Dir" using assms(3) by (simp add: clear_way_def tmp_def)
  note w = w this
  have "\<exists>i f. fs_create tmp (cur (dsk s)) = (Ok i, f)"
  proof (cases "lookup (cur (dsk s)) tmp")
    case (Some nd)
    then show ?thesis using w(3,4) by (cases nd) (simp_all add: fs_create_def parent_dir_def)
  qed (use w(3) in \<open>simp add: fs_create_def parent_dir_def new_file_def Let_def\<close>)
  then obtain i f where c: "fs_create tmp (cur (dsk s)) = (Ok i, f)" by blast
  note facts = fs_create_Ok [OF w(2) c]
  show ?thesis
    using w(1) c facts(1,3,4,5)
    by (auto simp: eval_nat_numeral call_def tmp_path_st_def Let_def on_disk_def sys_no_fault
        sys_write_no_fault fs_sync_def fs_simps holds_tmp_def tmp_def tmp_name_def dest_def fs_wf_put_data
        fs_wf_cong [of "put_data i buf f\<lparr>unsynced := u\<rparr>" f for u])
qed

text \<open>The second call truncates the file of the first.\<close>

lemma alone_truncates_tmp:
  assumes "faults (dsk s) = []" "lookup (cur (dsk s)) (key_dir (cfg s) k) = Some Dir"
    "alphabet_ok (cfg s)" "valid_key (cfg s) k"
  defines "dest \<equiv> key_path (cfg s) k" and "tmp \<equiv> tmp_name (cfg s) k (tmp_file_counter s)"
  assumes "lookup (cur (dsk s)) tmp = Some (File i)"
  shows "\<exists>s1. alone k buf 2 (Naming dest, s) = (Writing dest tmp i, s1) \<and> faults (dsk s1) = [] \<and>
      data_of (cur (dsk s1)) i = [] \<and> (\<forall>q. lookup (cur (dsk s1)) q = lookup (cur (dsk s)) q)"
proof -
  have d: "dotless dest" using key_path_dotless [OF assms(3,4)] by (simp add: dest_def)
  have "butlast tmp = key_dir (cfg s) k"
    using is_tmp_of_facts [OF d, of tmp] by (auto simp: dest_def tmp_def tmp_name_def is_tmp_of_def)
  then have "fs_create tmp (cur (dsk s)) = (Ok i, put_data i [] (cur (dsk s)))"
    using assms(2,7) by (simp add: fs_create_def parent_dir_def)
  then show ?thesis using assms(1)
    by (auto simp: eval_nat_numeral call_def tmp_path_st_def Let_def on_disk_def sys_no_fault fs_simps
        tmp_def tmp_name_def dest_def)
qed

text \<open>The first call puts the file in place and returns \<open>Ok\<close>.\<close>

lemma alone_publishes:
  assumes "faults (dsk s) = []" "lookup (cur (dsk s)) tmp = Some (File i)" "dest \<noteq> []" "tmp \<noteq> []"
    "tmp \<noteq> dest" "butlast dest \<noteq> tmp" "lookup (cur (dsk s)) (butlast dest) = Some Dir"
    "lookup (cur (dsk s)) dest \<noteq> Some Dir"
  shows "\<exists>s1. alone k buf 7 (Cloning dest tmp, s) = (Finished (Ok ()), s1) \<and> faults (dsk s1) = [] \<and>
      lookup (cur (dsk s1)) dest = Some (File i) \<and> lookup (cur (dsk s1)) tmp = None \<and>
      data_of (cur (dsk s1)) i = data_of (cur (dsk s)) i"
proof -
  have "fs_rename tmp dest (cur (dsk s)) = (Ok (), put_ent dest (File i) (drop_ent tmp (cur (dsk s))))"
    using assms by (simp add: fs_rename_def parent_dir_def)
  then show ?thesis using assms
    by (auto simp: eval_nat_numeral call_def on_disk_def sys_no_fault fs_open_def fs_sync_dir_def
        fs_simps gc_st_def)
qed

text \<open>The second writes into the file in place, and its rename fails.\<close>

lemma alone_loses_tmp:
  assumes "faults (dsk s) = []" "lookup (cur (dsk s)) tmp = None" "lookup (cur (dsk s)) dest = Some (File i)"
    "data_of (cur (dsk s)) i = []"
  shows "\<exists>s1. alone k buf 6 (Writing dest tmp i, s) = (Finished (Err NotFound), s1) \<and>
      content_at (cur (dsk s1)) dest = Some buf"
  using assms
  by (auto simp: eval_nat_numeral call_def on_disk_def sys_no_fault sys_write_no_fault fs_sync_def
      fs_rename_def fs_simps content_at_def)

text \<open>The calls of two stores for one key, and the schedule in which they meet.\<close>

definition two_calls :: "kvstore \<Rightarrow> kvstore \<Rightarrow> kv_key \<Rightarrow> bytes \<Rightarrow> bytes \<Rightarrow> (kvstore \<times> write_thread) list" where
  "two_calls s1 s2 k a b = [(s1, start_call (k, a)), (s2, start_call (k, b))]"

definition meeting :: "config \<Rightarrow> kv_key \<Rightarrow> nat list" where
  "meeting c k = replicate (length (key_dir c k) + 6) 0 @ replicate (length (key_dir c k) + 4) 1 @ replicate 7 0"

lemma meeting_run:
  assumes c: "alphabet_ok c" "valid_key c k" "cfg s1 = c" "cfg s2 = c"
    and n: "tmp_file_counter s1 = n" "tmp_file_counter s2 = n" and way: "clear_way c k n d"
  obtains d' s1' s2' i where
    "run_steps own_store_step (d, two_calls s1 s2 k a b) (meeting c k) =
      (d', [(s1', \<lparr>tkey = k, tbuf = a, phase = Finished (Ok ())\<rparr>),
            (s2', \<lparr>tkey = k, tbuf = b, phase = Writing (key_path c k) (tmp_name c k n) i\<rparr>)])"
    "faults d' = []" "lookup (cur d') (key_path c k) = Some (File i)"
    "lookup (cur d') (tmp_name c k n) = None" "data_of (cur d') i = []"
proof -
  let ?m = "length (key_dir c k) + 2" and ?dest = "key_path c k" and ?tmp = "tmp_name c k n"
  have dl: "dotless ?dest" by (rule key_path_dotless [OF c(1,2)])
  have tmp: "?tmp \<noteq> []" "?tmp \<noteq> ?dest" "butlast ?tmp = key_dir c k" "\<not> dotless ?tmp"
    using is_tmp_of_facts [OF dl, of ?tmp] by (auto simp: tmp_name_def is_tmp_of_def)
  have short: "take j (key_dir c k) \<noteq> ?tmp" for j
  proof
    assume "take j (key_dir c k) = ?tmp"
    then have "length ?tmp \<le> length (butlast ?tmp)" by (metis tmp(3) length_take min.cobounded1)
    moreover have "0 < length ?tmp" using tmp(1) by simp
    ultimately show False unfolding length_butlast by linarith
  qed
  let ?s1 = "s1\<lparr>dsk := d\<rparr>"
  have there: "dir_there (cur d) (key_dir c k)" using way by (simp add: clear_way_def)
  have cf1: "cfg ?s1 = c" using c by simp
  have "alone k a ?m (Checking, ?s1) = (Naming ?dest, ?s1)"
    by (rule alone_to_name [of ?s1 k a, unfolded cf1]) (use c there in simp_all)
  then have "alone k a (?m + 4) (Checking, ?s1) = alone k a 4 (Naming ?dest, ?s1)"
    by (simp only: alone_add [of k a ?m 4])
  moreover obtain t1 i where t1: "alone k a 4 (Naming ?dest, ?s1) = (Cloning ?dest ?tmp, t1)"
      "faults (dsk t1) = []" "fs_wf (cur (dsk t1))" "holds_tmp ?tmp i a (dsk t1)"
      "\<forall>q. q \<noteq> ?tmp \<longrightarrow> lookup (cur (dsk t1)) q = lookup (cur d) q"
    using alone_writes_tmp [of ?s1 k a] c n way by auto
  ultimately have r1: "run_steps own_store_step (d, two_calls s1 s2 k a b) (replicate (?m + 4) 0) =
      (dsk t1, [(t1, \<lparr>tkey = k, tbuf = a, phase = Cloning ?dest ?tmp\<rparr>), (s2, start_call (k, b))])"
    by (subst run_alone [where s = s1 and t = "start_call (k, a)"])
      (simp_all add: two_calls_def start_call_def)
  let ?s2 = "s2\<lparr>dsk := dsk t1\<rparr>"
  have there2: "dir_there (cur (dsk t1)) (key_dir c k)" using there t1(5) short by (simp add: dir_there_def)
  have cf2: "cfg ?s2 = c" using c by simp
  have "alone k b ?m (Checking, ?s2) = (Naming ?dest, ?s2)"
    by (rule alone_to_name [of ?s2 k b, unfolded cf2]) (use c there2 in simp_all)
  then have "alone k b (?m + 2) (Checking, ?s2) = alone k b 2 (Naming ?dest, ?s2)"
    by (simp only: alone_add [of k b ?m 2])
  moreover obtain t2 where t2: "alone k b 2 (Naming ?dest, ?s2) = (Writing ?dest ?tmp i, t2)"
      "faults (dsk t2) = []" "data_of (cur (dsk t2)) i = []"
      "\<forall>q. lookup (cur (dsk t2)) q = lookup (cur (dsk t1)) q"
    using alone_truncates_tmp [of ?s2 k i b] c n t1(2,4) dir_there_parent [OF there2]
    by (auto simp: holds_tmp_def)
  ultimately have r2: "run_steps own_store_step
      (dsk t1, [(t1, \<lparr>tkey = k, tbuf = a, phase = Cloning ?dest ?tmp\<rparr>), (s2, start_call (k, b))]) (replicate (?m + 2) 1) =
      (dsk t2, [(t1, \<lparr>tkey = k, tbuf = a, phase = Cloning ?dest ?tmp\<rparr>),
                (t2, \<lparr>tkey = k, tbuf = b, phase = Writing ?dest ?tmp i\<rparr>)])"
    by (subst run_alone [where s = s2 and t = "start_call (k, b)"]) (simp_all add: start_call_def)
  let ?s3 = "t1\<lparr>dsk := dsk t2\<rparr>"
  have look: "lookup (cur (dsk t2)) q = lookup (cur d) q" if "q \<noteq> ?tmp" for q using t1(5) t2(4) that by simp
  have "key_dir c k \<noteq> ?tmp" using short [of "length (key_dir c k)"] by simp
  then have pre: "lookup (cur (dsk ?s3)) (butlast ?dest) = Some Dir" "lookup (cur (dsk ?s3)) ?dest \<noteq> Some Dir"
    "lookup (cur (dsk ?s3)) ?tmp = Some (File i)" "butlast ?dest \<noteq> ?tmp"
    using look tmp(2) dir_there_parent [OF there] way t1(4) t2(4) by (simp_all add: clear_way_def holds_tmp_def)
  obtain t3 where t3: "alone k a 7 (Cloning ?dest ?tmp, ?s3) = (Finished (Ok ()), t3)" "faults (dsk t3) = []"
      "lookup (cur (dsk t3)) ?dest = Some (File i)" "lookup (cur (dsk t3)) ?tmp = None"
      "data_of (cur (dsk t3)) i = []"
    using alone_publishes [of ?s3 ?tmp i ?dest k a] t2(2,3) tmp(1,2) pre by auto
  then have r3: "run_steps own_store_step
      (dsk t2, [(t1, \<lparr>tkey = k, tbuf = a, phase = Cloning ?dest ?tmp\<rparr>),
                (t2, \<lparr>tkey = k, tbuf = b, phase = Writing ?dest ?tmp i\<rparr>)]) (replicate 7 0) =
      (dsk t3, [(t3, \<lparr>tkey = k, tbuf = a, phase = Finished (Ok ())\<rparr>),
                (t2, \<lparr>tkey = k, tbuf = b, phase = Writing ?dest ?tmp i\<rparr>)])"
    by (subst run_alone [where s = t1 and t = "\<lparr>tkey = k, tbuf = a, phase = Cloning ?dest ?tmp\<rparr>"]) simp_all
  have len: "length (key_dir c k) + 6 = ?m + 4" "length (key_dir c k) + 4 = ?m + 2" by simp_all
  show thesis
    by (rule that [of "dsk t3" t3 t2 i])
      (simp_all only: meeting_def len run_steps_append r1 r2 r3 t3)
qed

section \<open>Properties\<close>

text \<open>
  C12. Two stores on one directory break the promise of one: when their counters agree, there is a
  schedule without any fault in which the first write returns \<open>Ok\<close> and its file is empty, neither
  the old value nor a new one; and the second write fails although nothing went wrong.
\<close>

theorem two_stores_lose_value:
  assumes "alphabet_ok c" "valid_key c k" "cfg s1 = c" "cfg s2 = c"
    and "tmp_file_counter s1 = n" "tmp_file_counter s2 = n" "clear_way c k n d"
  shows "case run_steps own_store_step (d, two_calls s1 s2 k a b) (meeting c k) of (d', cs) \<Rightarrow>
    phase (snd (cs ! 0)) = Finished (Ok ()) \<and> content_at (cur d') (key_path c k) = Some [] \<and>
    (case run_steps own_store_step (d', cs) (replicate 6 1) of (d'', cs') \<Rightarrow>
       phase (snd (cs' ! 1)) = Finished (Err NotFound))"
proof -
  obtain d' s1' s2' i where m: "run_steps own_store_step (d, two_calls s1 s2 k a b) (meeting c k) =
      (d', [(s1', \<lparr>tkey = k, tbuf = a, phase = Finished (Ok ())\<rparr>),
            (s2', \<lparr>tkey = k, tbuf = b, phase = Writing (key_path c k) (tmp_name c k n) i\<rparr>)])"
    "faults d' = []" "lookup (cur d') (key_path c k) = Some (File i)"
    "lookup (cur d') (tmp_name c k n) = None" "data_of (cur d') i = []"
    by (rule meeting_run [OF assms])
  obtain t where "alone k b 6 (Writing (key_path c k) (tmp_name c k n) i, s2'\<lparr>dsk := d'\<rparr>) = (Finished (Err NotFound), t)"
    using alone_loses_tmp [of "s2'\<lparr>dsk := d'\<rparr>" "tmp_name c k n" "key_path c k" i k b] m(2-5) by auto
  then have "run_steps own_store_step (d', [(s1', \<lparr>tkey = k, tbuf = a, phase = Finished (Ok ())\<rparr>),
            (s2', \<lparr>tkey = k, tbuf = b, phase = Writing (key_path c k) (tmp_name c k n) i\<rparr>)]) (replicate 6 1) =
      (dsk t, [(s1', \<lparr>tkey = k, tbuf = a, phase = Finished (Ok ())\<rparr>),
            (t, \<lparr>tkey = k, tbuf = b, phase = Finished (Err NotFound)\<rparr>)])"
    by (subst run_alone [where s = s2' and t = "\<lparr>tkey = k, tbuf = b, phase = Writing (key_path c k) (tmp_name c k n) i\<rparr>"])
      simp_all
  with m show ?thesis by (simp add: content_at_def)
qed

text \<open>The file of the outbound payments holds a table when the two stores are made.\<close>

definition outbound_key :: kv_key where
  "outbound_key = ([], [], ''outbound_payments'')"

definition kept_disk :: disk where
  "kept_disk = dsk (snd (kv_put outbound_key [9] (sample_store [])))"

lemma kept_disk_reads:
  "lookup (cur kept_disk) [''data''] = Some Dir"
  "content_at (cur kept_disk) (key_path sample_cfg outbound_key) = Some [9]"
  "lookup (cur kept_disk) (key_path sample_cfg outbound_key) \<noteq> Some Dir"
  "lookup (cur kept_disk) (tmp_name sample_cfg outbound_key 0) \<noteq> Some Dir"
  "faults kept_disk = []"
  by code_simp+

lemma kept_disk_wf: "fs_wf (cur kept_disk)"
proof -
  obtain r s' where p: "kv_put outbound_key [9] (sample_store []) = (r, s')" by fastforce
  from fs_kv.put_cases [OF sample_store_inv p] p show ?thesis
    by (simp add: kept_disk_def store_inv_def)
qed

theorem two_stores_lose_value_witness:
  "content_at (cur kept_disk) (key_path sample_cfg outbound_key) = Some [9] \<and>
   (case run_steps own_store_step
      (kept_disk, two_calls (store_new sample_cfg kept_disk) (store_new sample_cfg kept_disk) outbound_key [1] [2])
      (meeting sample_cfg outbound_key) of (d', cs) \<Rightarrow>
    phase (snd (cs ! 0)) = Finished (Ok ()) \<and>
    content_at (cur d') (key_path sample_cfg outbound_key) = Some [] \<and>
    (case run_steps own_store_step (d', cs) (replicate 6 1) of (d'', cs') \<Rightarrow>
       phase (snd (cs' ! 1)) = Finished (Err NotFound)))"
proof (intro conjI two_stores_lose_value)
  show "alphabet_ok sample_cfg" "valid_key sample_cfg outbound_key"
    by (simp_all add: alphabet_ok_def sample_cfg_def outbound_key_def valid_key_iff is_valid_kvstore_str_def)
  have "key_dir sample_cfg outbound_key = [''data'']" by (simp add: sample_cfg_def outbound_key_def)
  then show "clear_way sample_cfg outbound_key 0 kept_disk"
    using kept_disk_reads kept_disk_wf by (auto simp: clear_way_def dir_there_def le_Suc_eq)
qed (simp_all add: store_new_def kept_disk_reads)

end
