(* ===== verification/Store_Access.thy ===== *)
theory Store_Access imports Store_Threads begin

text \<open>
  Reads and removals beside the writes of \<open>Store_Threads\<close>: \<open>read\<close> and \<open>remove\<close> of
  \<open>filesystem_store.rs\<close> cut at the same places, with the lock of a file as the read-write lock
  it is. \<open>remove\<close> looks for the file before it takes the lock. Here is one call: that it is
  the method when nothing interrupts it, what it knows at each step, what it leaves alone.
\<close>

section \<open>One read or removal, cut into its steps\<close>

datatype access = Fetch | Delete bool

text \<open>What the call returns: the bytes of a read, nothing for a removal.\<close>

type_synonym access_result = "(io_error, bytes option) outcome"

datatype access_phase =
  Entering
| Testing path
| Taking path
| Awaiting path
| Opening_file path
| Reading_file path
| Unlinking path
| Opening_dir path
| Syncing_parent path
| Dropping path access_result
| Tidying "bytes option"
| Returned access_result

fun access_names :: "kv_key \<Rightarrow> path store_op" where
  "access_names (prim, sec, key) = bind_st (check_st prim sec (Some key)) (\<lambda>_. dest_st prim sec key)"

fun access_call :: "kv_key \<Rightarrow> access \<Rightarrow> access_phase \<Rightarrow> kvstore \<Rightarrow> access_phase \<times> kvstore" where
  "access_call k a Entering s =
     call (access_names k) (case a of Fetch \<Rightarrow> Taking | Delete _ \<Rightarrow> Testing) Returned s"
| "access_call k a (Testing dest) s =
     call (on_disk (path_is_file dest)) (\<lambda>found. if found then Taking dest else Returned (Ok None)) Returned s"
| "access_call k a (Taking dest) s = (Awaiting dest, acquire dest s)"
| "access_call k a (Awaiting dest) s =
     (case a of Fetch \<Rightarrow> Opening_file dest | Delete _ \<Rightarrow> Unlinking dest, s)"
| "access_call k a (Opening_file dest) s =
     call (on_disk (sys (fs_open dest))) (\<lambda>_. Reading_file dest) (Dropping dest) s"
| "access_call k a (Reading_file dest) s =
     call (on_disk (sys (fs_read dest))) (\<lambda>b. Dropping dest (Ok (Some b))) (Dropping dest) s"
| "access_call k a (Unlinking dest) s =
     call (on_disk (sys (fs_unlink dest)))
       (\<lambda>_. if a = Delete True then Dropping dest (Ok None) else Opening_dir dest) (Dropping dest) s"
| "access_call k a (Opening_dir dest) s =
     call (on_disk (sys (fs_open (butlast dest)))) (\<lambda>_. Syncing_parent dest) (Dropping dest) s"
| "access_call k a (Syncing_parent dest) s =
     call (on_disk (sys (fs_sync_dir (butlast dest)))) (\<lambda>_. Dropping dest (Ok None)) (Dropping dest) s"
| "access_call k a (Dropping dest r) s =
     (case r of Ok b \<Rightarrow> Tidying b | _ \<Rightarrow> Returned r, release dest s)"
| "access_call k a (Tidying b) s = call gc_st (\<lambda>_. Returned (Ok b)) Returned s"
| "access_call k a (Returned r) s = (Returned r, s)"

fun access_alone :: "kv_key \<Rightarrow> access \<Rightarrow> nat \<Rightarrow> access_phase \<times> kvstore \<Rightarrow> access_phase \<times> kvstore" where
  "access_alone k a 0 ps = ps"
| "access_alone k a (Suc n) (p, s) = access_alone k a n (access_call k a p s)"

lemma access_alone_returned [simp]: "access_alone k a n (Returned r, s) = (Returned r, s)"
  by (induction n) auto

text \<open>Uninterrupted, these are \<open>read\<close> and \<open>remove\<close>.\<close>

lemma uninterrupted_read:
  "access_alone (prim, sec, key) Fetch (7 + n) (Entering, s) =
     (Returned (map_outcome id Some (fst (kv_read prim sec key s))), snd (kv_read prim sec key s))"
proof -
  have "7 + n = Suc (Suc (Suc (Suc (Suc (Suc (Suc n))))))" by simp
  then show ?thesis unfolding kv_read_def
    by (simp only:) (simp add: call_def check_st_def dest_st_def bind_st_def with_lock_def gc_st_def
        return_st_def split: outcome.splits prod.splits)
qed

lemma uninterrupted_remove:
  assumes "alphabet_ok (cfg s)"
  shows "access_alone (prim, sec, key) (Delete lzy) (9 + n) (Entering, s) =
     (Returned (map_outcome id (\<lambda>_. None) (fst (kv_remove prim sec key lzy s))),
      snd (kv_remove prim sec key lzy s))"
proof (cases "valid_key (cfg s) (prim, sec, key)")
  case True
  have d: "dest_file_path s prim sec key \<noteq> []" using dest_file_path_key [OF assms True] by simp
  have n: "9 + n = Suc (Suc (Suc (Suc (Suc (Suc (Suc (Suc (Suc n))))))))" by simp
  show ?thesis unfolding kv_remove_def n
    using d by (simp add: call_def check_st_def dest_st_def bind_st_def with_lock_def gc_st_def return_st_def
        parent_st_def path_parent_def split: outcome.splits prod.splits)
next
  case False
  have n: "9 + n = Suc (Suc (Suc (Suc (Suc (Suc (Suc (Suc (Suc n))))))))" by simp
  show ?thesis unfolding kv_remove_def n using False
    by (simp add: valid_key.simps call_def check_st_def bind_st_def split: outcome.splits)
qed

section \<open>What an access knows, and what it leaves alone\<close>

text \<open>\<open>V\<close> holds the values a read of the key may return.\<close>

fun access_inv :: "config \<Rightarrow> bytes option set \<Rightarrow> kv_key \<Rightarrow> access \<Rightarrow> access_phase \<Rightarrow> bool" where
  "access_inv c V k a Entering \<longleftrightarrow> True"
| "access_inv c V k a (Testing dest) \<longleftrightarrow> names c k dest \<and> a \<noteq> Fetch"
| "access_inv c V k a (Taking dest) \<longleftrightarrow> names c k dest"
| "access_inv c V k a (Awaiting dest) \<longleftrightarrow> names c k dest"
| "access_inv c V k a (Opening_file dest) \<longleftrightarrow> names c k dest \<and> a = Fetch"
| "access_inv c V k a (Reading_file dest) \<longleftrightarrow> names c k dest \<and> a = Fetch"
| "access_inv c V k a (Unlinking dest) \<longleftrightarrow> names c k dest \<and> a \<noteq> Fetch"
| "access_inv c V k a (Opening_dir dest) \<longleftrightarrow> names c k dest \<and> a \<noteq> Fetch"
| "access_inv c V k a (Syncing_parent dest) \<longleftrightarrow> names c k dest \<and> a \<noteq> Fetch"
| "access_inv c V k a (Dropping dest r) \<longleftrightarrow>
     names c k dest \<and> (a = Fetch \<longrightarrow> (\<forall>b. r = Ok b \<longrightarrow> b \<noteq> None \<and> b \<in> V))"
| "access_inv c V k a (Tidying b) \<longleftrightarrow> valid_key c k \<and> (a = Fetch \<longrightarrow> b \<noteq> None \<and> b \<in> V)"
| "access_inv c V k a (Returned r) \<longleftrightarrow>
     (a = Fetch \<longrightarrow> (\<forall>b. r = Ok b \<longrightarrow> valid_key c k \<and> b \<noteq> None \<and> b \<in> V))"

lemma hoare_access_names:
  assumes "alphabet_ok c"
  shows "hoare (at_cfg c P) (access_names k) (\<lambda>dest s. at_cfg c P s \<and> names c k dest) (at_cfg c P)"
proof -
  obtain prim sec key where k: "k = (prim, sec, key)" by (cases k)
  have "hoare (at_cfg c P) (bind_st (check_st prim sec (Some key)) (\<lambda>_. dest_st prim sec key))
    (\<lambda>dest s. at_cfg c P s \<and> names c k dest) (at_cfg c P)"
    by (rule hoare_bind [OF hoare_check], rule hoare_weaken [OF hoare_dest [OF assms]])
      (auto simp: names_def k)
  then show ?thesis by (simp add: k)
qed

text \<open>A removal has done its work: it found no file, or has taken the name away.\<close>

fun gone :: "access_phase \<Rightarrow> bool" where
  "gone (Opening_dir dest) = True"
| "gone (Syncing_parent dest) = True"
| "gone (Dropping dest r) = is_ok r"
| "gone (Tidying b) = True"
| "gone (Returned r) = is_ok r"
| "gone _ = False"

text \<open>The step is the test for the file, and it fails: the removal takes the file for absent.\<close>

fun misses :: "access_phase \<Rightarrow> kvstore \<Rightarrow> bool" where
  "misses (Testing dest) s \<longleftrightarrow> next_fault (dsk s) \<noteq> None"
| "misses _ s \<longleftrightarrow> False"

text \<open>
  A step keeps the contents of every key, except that a removal takes away its own; a value that
  a read takes is the contents at that moment. \<open>m\<close> says that the step misses the file.
\<close>

definition access_step_ok ::
  "config \<Rightarrow> bytes option set \<Rightarrow> kv_key \<Rightarrow> access \<Rightarrow> (path \<Rightarrow> bytes option) \<Rightarrow>
   access_phase \<Rightarrow> bool \<Rightarrow> access_phase \<Rightarrow> kvstore \<Rightarrow> bool" where
  "access_step_ok c V k a g p m p' s' \<longleftrightarrow>
     access_inv c (V \<union> {g (key_path c k)}) k a p' \<and>
     (at_cfg c (keeps g) s' \<and> (a \<noteq> Fetch \<and> gone p' \<and> \<not> gone p \<and> \<not> m \<longrightarrow> valid_key c k \<and> g (key_path c k) = None) \<or>
      a \<noteq> Fetch \<and> valid_key c k \<and> at_cfg c (keeps (g(key_path c k := None))) s' \<and> gone p' \<and> \<not> gone p \<and> \<not> m)"

lemma access_inv_mono: "access_inv c V k a p \<Longrightarrow> V \<subseteq> W \<Longrightarrow> access_inv c W k a p"
  by (cases p) auto

lemma access_inv_invalid: "\<not> valid_key c k \<Longrightarrow> access_inv c V k a p = access_inv c W k a p"
  by (cases p) (auto simp: names_def)

lemma access_call_own:
  assumes "alphabet_ok c" "at_cfg c (keeps g) s" "access_inv c V k a p"
    and w: "access_call k a p s = (p', s')"
  shows "access_step_ok c V k a g p (misses p s) p' s'"
proof (cases p)
  case Entering
  with w have "call (access_names k) (case a of Fetch \<Rightarrow> Taking | Delete _ \<Rightarrow> Testing) Returned s = (p', s')"
    by simp
  then show ?thesis
    by (rule call_cases [OF _ hoare_access_names [OF assms(1)] assms(2)])
      (auto simp: access_step_ok_def is_ok_iff split: access.splits)
next
  case (Testing dest)
  with assms(3) have n: "names c k dest" by simp
  define m where "m = misses p s"
  have pre: "at_cfg c (\<lambda>d. keeps g d \<and> (next_fault d = None) = (\<not> m)) s"
    using assms(2) Testing by (simp add: at_cfg_def m_def del: not_None_eq)
  from w Testing have "call (on_disk (path_is_file dest))
      (\<lambda>found. if found then Taking dest else Returned (Ok None)) Returned s = (p', s')" by simp
  then have "access_step_ok c V k a g p m p' s'"
    by (rule call_cases [OF _ hoare_on_disk [OF hoare_path_is_file [OF names_facts(1) [OF assms(1) n],
          where R = "\<lambda>_. False"]] pre])
      (use n assms(3) Testing in \<open>auto simp: access_step_ok_def names_def at_cfg_def\<close>)
  then show ?thesis by (simp only: m_def)
next
  case (Opening_file dest)
  with w have "call (on_disk (sys (fs_open dest))) (\<lambda>_. Reading_file dest) (Dropping dest) s = (p', s')" by simp
  then show ?thesis
    by (rule call_cases [OF _ hoare_disk_ops(2) assms(2)])
      (use assms(3) Opening_file in \<open>auto simp: access_step_ok_def is_ok_iff\<close>)
next
  case (Reading_file dest)
  with assms(3) have n: "names c k dest" "a = Fetch" by simp_all
  from w Reading_file
  have "call (on_disk (sys (fs_read dest))) (\<lambda>b. Dropping dest (Ok (Some b))) (Dropping dest) s = (p', s')" by simp
  then show ?thesis
    by (rule call_cases [OF _ hoare_on_disk [OF hoare_fs_read [OF names_facts(1) [OF assms(1) n(1)]]] assms(2)])
      (use n in \<open>auto simp: access_step_ok_def is_ok_iff at_cfg_conj names_def\<close>)
next
  case (Unlinking dest)
  with assms(3) have n: "names c k dest" "a \<noteq> Fetch" by simp_all
  from w Unlinking have "call (on_disk (sys (fs_unlink dest)))
      (\<lambda>_. if a = Delete True then Dropping dest (Ok None) else Opening_dir dest) (Dropping dest) s = (p', s')"
    by simp
  then show ?thesis
    by (rule call_cases [OF _ hoare_on_disk [OF hoare_fs_unlink [OF names_facts(1) [OF assms(1) n(1)]]] assms(2)])
      (use n Unlinking in \<open>auto simp: access_step_ok_def names_def\<close>)
next
  case (Opening_dir dest)
  with w have "call (on_disk (sys (fs_open (butlast dest)))) (\<lambda>_. Syncing_parent dest) (Dropping dest) s = (p', s')"
    by simp
  then show ?thesis
    by (rule call_cases [OF _ hoare_disk_ops(2) assms(2)])
      (use assms(3) Opening_dir in \<open>auto simp: access_step_ok_def\<close>)
next
  case (Syncing_parent dest)
  with w have "call (on_disk (sys (fs_sync_dir (butlast dest)))) (\<lambda>_. Dropping dest (Ok None)) (Dropping dest) s = (p', s')"
    by simp
  then show ?thesis
    by (rule call_cases [OF _ hoare_disk_ops(3) assms(2)])
      (use assms(3) Syncing_parent in \<open>auto simp: access_step_ok_def\<close>)
next
  case (Tidying b)
  with w have "call gc_st (\<lambda>_. Returned (Ok b)) Returned s = (p', s')" by simp
  then show ?thesis
    by (rule call_cases [OF _ hoare_gc assms(2), where R = "at_cfg c (keeps g)"])
      (use assms(3) Tidying in \<open>auto simp: access_step_ok_def is_ok_iff\<close>)
next
  case (Dropping dest r)
  with w assms(2,3) show ?thesis by (auto simp: access_step_ok_def names_def split: outcome.splits)
qed (use w assms(2,3) in \<open>auto simp: access_step_ok_def split: access.splits if_splits intro: access_inv_mono\<close>)

lemma path_is_file_snd: "snd (path_is_file p d) = snd (sys (fs_stat p) d)"
  by (simp add: path_is_file_def split: prod.splits outcome.splits node.splits)

lemma access_names_pure [simp]: "snd (access_names k s) = s"
  by (cases k) (auto simp: bind_st_def check_st_def dest_st_def split: outcome.splits)

lemma access_call_leaves:
  assumes "alphabet_ok c" "access_inv c V k a p" "holds_tmp q i b (dsk s)" "\<not> dotless q"
  shows "holds_tmp q i b (dsk (snd (access_call k a p s)))"
proof -
  have same: "holds_tmp q i b (snd (sys m (dsk s)))"
    if "\<And>f. lookup (snd (m f)) q = lookup f q \<and> data_of (snd (m f)) i = data_of f i" for m :: "'x syscall"
    by (rule sys_leaves [OF assms(3)]) (use that in \<open>metis snd_conv\<close>)
  show ?thesis
  proof (cases p)
    case (Testing dest)
    have "holds_tmp q i b (snd (sys (fs_stat dest) (dsk s)))"
      by (intro same) (simp add: fs_stat_def split: option.splits)
    then show ?thesis using Testing by (simp add: call_snd on_disk_snd path_is_file_snd)
  next
    case (Unlinking dest)
    then have n: "names c k dest" using assms(2) by simp
    have "q \<noteq> dest" "dest \<noteq> []" using names_facts [OF assms(1) n] assms(4) by auto
    then have "holds_tmp q i b (snd (sys (fs_unlink dest) (dsk s)))"
      by (intro same) (simp add: fs_unlink_def fs_simps split: option.splits node.splits)
    then show ?thesis using Unlinking by (simp add: call_snd on_disk_snd)
  next
    case (Syncing_parent dest)
    have "holds_tmp q i b (snd (sys (fs_sync_dir (butlast dest)) (dsk s)))"
      by (intro same) (simp add: fs_sync_dir_def fs_simps)
    then show ?thesis using Syncing_parent by (simp add: call_snd on_disk_snd)
  next
    case (Opening_file dest)
    have "holds_tmp q i b (snd (sys (fs_open dest) (dsk s)))"
      by (intro same) (simp add: fs_open_def split: option.splits)
    then show ?thesis using Opening_file by (simp add: call_snd on_disk_snd)
  next
    case (Opening_dir dest)
    have "holds_tmp q i b (snd (sys (fs_open (butlast dest)) (dsk s)))"
      by (intro same) (simp add: fs_open_def split: option.splits)
    then show ?thesis using Opening_dir by (simp add: call_snd on_disk_snd)
  next
    case (Reading_file dest)
    have "holds_tmp q i b (snd (sys (fs_read dest) (dsk s)))"
      by (intro same) (simp add: fs_read_def split: option.splits node.splits)
    then show ?thesis using Reading_file by (simp add: call_snd on_disk_snd)
  qed (use assms(3) in \<open>simp_all add: call_snd gc_st_def\<close>)
qed

lemma access_call_counter: "tmp_file_counter (snd (access_call k a p s)) = tmp_file_counter s"
  by (cases p) (simp_all add: call_snd gc_st_def)

end
