(* ===== verification/Store_Shared.thy ===== *)
theory Store_Shared imports Store_Access begin

text \<open>
  One store under any number of writes, reads and removals at once, in any interleaving of their
  steps and with any faults. Readers share the lock of a file; a writer or a removal has it alone.
\<close>

section \<open>Writers, readers and removals in one store\<close>

record access_thread =
  akey :: kv_key
  akind :: access
  aphase :: access_phase

datatype turn = Write_turn nat | Access_turn nat

fun access_lock :: "access_phase \<Rightarrow> path option" where
  "access_lock (Opening_file dest) = Some dest"
| "access_lock (Reading_file dest) = Some dest"
| "access_lock (Unlinking dest) = Some dest"
| "access_lock (Opening_dir dest) = Some dest"
| "access_lock (Syncing_parent dest) = Some dest"
| "access_lock (Dropping dest r) = Some dest"
| "access_lock _ = None"

text \<open>The write lock waits for everybody, the read lock for writers and removals.\<close>

fun kept_out :: "access_thread list \<Rightarrow> write_phase \<Rightarrow> bool" where
  "kept_out us (Waiting dest tmp) \<longleftrightarrow> list_ex (\<lambda>u. access_lock (aphase u) = Some dest) us"
| "kept_out us _ \<longleftrightarrow> False"

fun access_blocked :: "write_thread list \<Rightarrow> access_thread list \<Rightarrow> access \<Rightarrow> access_phase \<Rightarrow> bool" where
  "access_blocked ts us a (Awaiting dest) \<longleftrightarrow>
     list_ex (\<lambda>t. holds_lock (phase t) = Some dest) ts \<or>
     list_ex (\<lambda>u. access_lock (aphase u) = Some dest \<and> (a \<noteq> Fetch \<or> akind u \<noteq> Fetch)) us"
| "access_blocked ts us a _ \<longleftrightarrow> False"

type_synonym shared_store = "kvstore \<times> write_thread list \<times> access_thread list"

fun store_step :: "shared_store \<Rightarrow> turn \<Rightarrow> shared_store" where
  "store_step (s, ts, us) (Write_turn i) =
     (if i < length ts \<and> kept_out us (phase (ts ! i)) then (s, ts, us)
      else case thread_step (s, ts) i of (s', ts') \<Rightarrow> (s', ts', us))"
| "store_step (s, ts, us) (Access_turn i) =
     (if i < length us \<and> \<not> access_blocked ts us (akind (us ! i)) (aphase (us ! i))
      then let u = us ! i in
           case access_call (akey u) (akind u) (aphase u) s of
             (p, s') \<Rightarrow> (s', ts, us[i := u\<lparr>aphase := p\<rparr>])
      else (s, ts, us))"

definition start_access :: "kv_key \<times> access \<Rightarrow> access_thread" where
  "start_access ka = \<lparr>akey = fst ka, akind = snd ka, aphase = Entering\<rparr>"

definition run_store :: "kvstore \<Rightarrow> (kv_key \<times> bytes) list \<Rightarrow> (kv_key \<times> access) list \<Rightarrow> turn list \<Rightarrow> shared_store" where
  "run_store s calls accs sched =
     run_steps store_step (s, map start_call calls, map start_access accs) sched"

section \<open>The invariant\<close>

definition removed :: "config \<Rightarrow> access_thread list \<Rightarrow> path \<Rightarrow> bool" where
  "removed c us p \<longleftrightarrow> (\<exists>u\<in>set us. akind u \<noteq> Fetch \<and> valid_key c (akey u) \<and> key_path c (akey u) = p)"

text \<open>What a file may hold: its old value, a value that is written to it, nothing if it is removed.\<close>

definition possible ::
  "config \<Rightarrow> (path \<Rightarrow> bytes option) \<Rightarrow> write_thread list \<Rightarrow> access_thread list \<Rightarrow> path \<Rightarrow> bytes option set" where
  "possible c g ts us p =
     {g p} \<union> {r. offered c ts p r} \<union> (if removed c us p then {None} else {})"

definition shared_inv :: "config \<Rightarrow> u64 \<Rightarrow> (path \<Rightarrow> bytes option) \<Rightarrow> shared_store \<Rightarrow> bool" where
  "shared_inv c n0 g st \<longleftrightarrow> (case st of (s, ts, us) \<Rightarrow>
     alphabet_ok c \<and> length ts < 2 ^ 64 \<and> calls_inv c s ts \<and> tmps_inv c n0 s ts \<and>
     (\<forall>p. dotless p \<longrightarrow> content_at (cur (dsk s)) p \<in> possible c g ts us p) \<and>
     (\<forall>u\<in>set us. access_inv c (possible c g ts us (key_path c (akey u))) (akey u) (akind u) (aphase u)))"

lemma removed_update [simp]: "removed c (us[i := (us ! i)\<lparr>aphase := p\<rparr>]) q = removed c us q"
  unfolding removed_def by (rule bex_update) simp

lemma possible_update [simp]:
  "possible c g (ts[i := (ts ! i)\<lparr>phase := p\<rparr>]) us = possible c g ts us"
  "possible c g ts (us[i := (us ! i)\<lparr>aphase := p'\<rparr>]) = possible c g ts us"
  by (simp_all add: fun_eq_iff possible_def)

lemma all_accesses_update:
  assumes "i < length us" "Q u'" "\<And>j. j < length us \<Longrightarrow> j \<noteq> i \<Longrightarrow> Q (us ! j)"
  shows "\<forall>u\<in>set (us[i := u']). Q u"
  using assms by (auto simp: all_set_conv_all_nth nth_list_update)

lemma write_call_contents:
  assumes "alphabet_ok c" "calls_inv c s ts" "i < length ts"
    and w: "write_call (tkey (ts ! i)) (tbuf (ts ! i)) (phase (ts ! i)) s = (p, s')" and q: "dotless q"
  shows "content_at (cur (dsk s')) q = content_at (cur (dsk s)) q \<or>
    offered c ts q (content_at (cur (dsk s')) q)"
proof -
  let ?t = "ts ! i"
  have wf: "fs_wf (cur (dsk s))" "cfg s = c" "call_inv c (tkey ?t) (tbuf ?t) (phase ?t) (dsk s)"
    using assms(2,3) by (simp_all add: calls_inv_def)
  have "step_ok c (tkey ?t) (tbuf ?t) (content_at (cur (dsk s))) (phase ?t) p s'"
    using write_call_own [OF assms(1) _ wf(3) w] keeps_self [OF wf(1)] wf(2) by simp
  then consider "content_at (cur (dsk s')) q = content_at (cur (dsk s)) q"
    | "content_at (cur (dsk s')) q = ((content_at (cur (dsk s)))(key_path c (tkey ?t) \<mapsto> tbuf ?t)) q"
      "valid_key c (tkey ?t)"
    using q unfolding step_ok_def at_cfg_def keeps_def by blast
  then show ?thesis
  proof cases
    case 2
    have "offered c ts (key_path c (tkey ?t)) (Some (tbuf ?t))"
      unfolding offered_def using 2(2) assms(3) by (intro bexI [of _ ?t]) simp_all
    with 2(1) show ?thesis by (cases "q = key_path c (tkey ?t)") simp_all
  qed simp
qed

lemma calls_inv_same:
  assumes "alphabet_ok c" "calls_inv c s ts" "cfg s' = c" "fs_wf (cur (dsk s'))"
    and "\<And>q i b. \<not> dotless q \<Longrightarrow> holds_tmp q i b (dsk s) \<Longrightarrow> holds_tmp q i b (dsk s')"
  shows "calls_inv c s' ts"
  unfolding calls_inv_def
proof (intro conjI ballI)
  fix t assume "t \<in> set ts"
  then have inv: "call_inv c (tkey t) (tbuf t) (phase t) (dsk s)" using assms(2) by (simp add: calls_inv_def)
  show "call_inv c (tkey t) (tbuf t) (phase t) (dsk s')"
    by (rule call_inv_other [OF inv]) (rule assms(5) [OF call_inv_tmp [OF assms(1) inv]])
qed (use assms in simp_all)

lemma tmps_inv_same: "tmp_file_counter s' = tmp_file_counter s \<Longrightarrow> tmps_inv c n0 s' ts = tmps_inv c n0 s ts"
  by (simp add: tmps_inv_def)

lemma write_turn_keeps:
  assumes "shared_inv c n0 g (s, ts, us)"
  shows "shared_inv c n0 g (store_step (s, ts, us) (Write_turn i))"
proof (cases "i < length ts \<and> \<not> blocked ts (phase (ts ! i)) \<and> \<not> kept_out us (phase (ts ! i))")
  case True
  then have i: "i < length ts" by simp
  obtain p s' where w: "write_call (tkey (ts ! i)) (tbuf (ts ! i)) (phase (ts ! i)) s = (p, s')" by fastforce
  have inv: "alphabet_ok c" "length ts < 2 ^ 64" "calls_inv c s ts" "tmps_inv c n0 s ts"
    "\<And>q. dotless q \<Longrightarrow> content_at (cur (dsk s)) q \<in> possible c g ts us q"
    using assms by (simp_all add: shared_inv_def)
  have "content_at (cur (dsk s')) q \<in> possible c g ts us q" if "dotless q" for q
    using write_call_contents [OF inv(1,3) i w that] inv(5) [OF that] by (auto simp: possible_def)
  with calls_inv_step [OF inv(1,3,4) i w] tmps_inv_step [OF inv(1,3,4) i inv(2) w] inv(1,2) assms True w
  show ?thesis by (simp add: shared_inv_def)
next
  case False
  then have "store_step (s, ts, us) (Write_turn i) = (s, ts, us)" by auto
  with assms show ?thesis by simp
qed

lemma access_turn_keeps:
  assumes "shared_inv c n0 g (s, ts, us)"
  shows "shared_inv c n0 g (store_step (s, ts, us) (Access_turn i))"
proof (cases "i < length us \<and> \<not> access_blocked ts us (akind (us ! i)) (aphase (us ! i))")
  case True
  then have i: "i < length us" by simp
  let ?u = "us ! i" and ?h = "content_at (cur (dsk s))"
  let ?V = "possible c g ts us (key_path c (akey (us ! i)))"
  obtain p s' where w: "access_call (akey ?u) (akind ?u) (aphase ?u) s = (p, s')" by fastforce
  have inv: "alphabet_ok c" "length ts < 2 ^ 64" "calls_inv c s ts" "tmps_inv c n0 s ts"
    "\<And>q. dotless q \<Longrightarrow> ?h q \<in> possible c g ts us q"
    "\<And>u. u \<in> set us \<Longrightarrow> access_inv c (possible c g ts us (key_path c (akey u))) (akey u) (akind u) (aphase u)"
    using assms by (simp_all add: shared_inv_def)
  have u: "access_inv c ?V (akey ?u) (akind ?u) (aphase ?u)" using inv(6) i by simp
  have wf: "fs_wf (cur (dsk s))" "cfg s = c" using inv(3) by (simp_all add: calls_inv_def)
  have own: "access_step_ok c ?V (akey ?u) (akind ?u) ?h (aphase ?u) (misses (aphase ?u) s) p s'"
    using access_call_own [OF inv(1) _ u w] keeps_self [OF wf(1)] wf(2) by simp
  have wf': "cfg s' = c" "fs_wf (cur (dsk s'))" using own by (auto simp: access_step_ok_def at_cfg_def keeps_def)
  have contents: "content_at (cur (dsk s')) q \<in> possible c g ts us q" if q: "dotless q" for q
  proof -
    consider "content_at (cur (dsk s')) q = ?h q"
      | "content_at (cur (dsk s')) q = (?h(key_path c (akey ?u) := None)) q" "akind ?u \<noteq> Fetch" "valid_key c (akey ?u)"
      using own q unfolding access_step_ok_def at_cfg_def keeps_def by blast
    then have "content_at (cur (dsk s')) q = ?h q \<or> content_at (cur (dsk s')) q = None \<and> removed c us q"
    proof cases
      case 2
      have "removed c us (key_path c (akey ?u))"
        unfolding removed_def using 2(2,3) i by (intro bexI [of _ ?u]) simp_all
      with 2(1) show ?thesis by (cases "q = key_path c (akey ?u)") simp_all
    qed simp
    then show ?thesis using inv(5) [OF q] by (auto simp: possible_def)
  qed
  have mine: "access_inv c ?V (akey ?u) (akind ?u) p"
  proof (cases "valid_key c (akey ?u)")
    case True
    from inv(5) [OF key_path_dotless [OF inv(1) this]] have "?V \<union> {?h (key_path c (akey ?u))} = ?V" by auto
    with own show ?thesis unfolding access_step_ok_def by (simp only:)
  next
    case False
    with own access_inv_invalid [OF False] show ?thesis unfolding access_step_ok_def by metis
  qed
  have "calls_inv c s' ts"
    by (rule calls_inv_same [OF inv(1,3) wf']) (use access_call_leaves [OF inv(1) u] w in \<open>metis snd_conv\<close>)
  moreover have "tmps_inv c n0 s' ts"
    using inv(4) tmps_inv_same [of s' s] access_call_counter [of "akey ?u" "akind ?u" "aphase ?u" s] w by simp
  moreover have "\<forall>v\<in>set (us[i := ?u\<lparr>aphase := p\<rparr>]).
      access_inv c (possible c g ts us (key_path c (akey v))) (akey v) (akind v) (aphase v)"
    by (rule all_accesses_update [OF i]) (use mine inv(6) in simp_all)
  ultimately show ?thesis using True w inv(1,2) contents by (simp add: shared_inv_def)
next
  case False
  then show ?thesis using assms by auto
qed

lemma store_step_keeps:
  assumes "shared_inv c n0 g st"
  shows "shared_inv c n0 g (store_step st e)"
proof -
  obtain s ts us where "st = (s, ts, us)" by (cases st)
  with assms write_turn_keeps access_turn_keeps show ?thesis by (cases e) metis+
qed

lemma shared_inv_start:
  assumes "store_inv s" "length calls < 2 ^ 64"
  shows "shared_inv (cfg s) (tmp_file_counter s) (content_at (cur (dsk s)))
    (s, map start_call calls, map start_access accs)"
  using threads_inv_start [OF assms]
  by (auto simp: shared_inv_def threads_inv_def possible_def start_access_def)

section \<open>Every call ends\<close>

fun access_left :: "access_phase \<Rightarrow> nat" where
  "access_left Entering = 10"
| "access_left (Testing dest) = 9"
| "access_left (Taking dest) = 8"
| "access_left (Awaiting dest) = 7"
| "access_left (Opening_file dest) = 6"
| "access_left (Reading_file dest) = 5"
| "access_left (Unlinking dest) = 6"
| "access_left (Opening_dir dest) = 5"
| "access_left (Syncing_parent dest) = 4"
| "access_left (Dropping dest r) = 2"
| "access_left (Tidying b) = 1"
| "access_left (Returned r) = 0"

lemma access_left_call:
  "0 < access_left p \<Longrightarrow> access_left (fst (access_call k a p s)) < access_left p"
  by (cases p) (simp_all add: call_fst split: outcome.splits access.splits)

lemma access_left_pos: "(0 < access_left p) = (\<not> (\<exists>r. p = Returned r))"
  by (cases p) simp_all

fun turn_runs :: "shared_store \<Rightarrow> turn \<Rightarrow> bool" where
  "turn_runs (s, ts, us) (Write_turn i) \<longleftrightarrow> can_run ts i \<and> \<not> kept_out us (phase (ts ! i))"
| "turn_runs (s, ts, us) (Access_turn i) \<longleftrightarrow> i < length us \<and>
     \<not> access_blocked ts us (akind (us ! i)) (aphase (us ! i)) \<and> \<not> (\<exists>r. aphase (us ! i) = Returned r)"

fun shared_left :: "config \<Rightarrow> shared_store \<Rightarrow> nat" where
  "shared_left c (s, ts, us) = total_left c ts + sum_list (map (\<lambda>u. access_left (aphase u)) us)"

fun turns :: "shared_store \<Rightarrow> turn set" where
  "turns (s, ts, us) = Write_turn ` {..<length ts} \<union> Access_turn ` {..<length us}"

lemma access_left_update:
  assumes "i < length us" "access_left p < access_left (aphase (us ! i))"
  shows "sum_list (map (\<lambda>u. access_left (aphase u)) (us[i := (us ! i)\<lparr>aphase := p\<rparr>])) <
    sum_list (map (\<lambda>u. access_left (aphase u)) us)"
  using assms
proof (induction us arbitrary: i)
  case (Cons u us)
  then show ?case by (cases i) simp_all
qed simp

lemma turn_progress:
  assumes "shared_inv c n0 g (s, ts, us)" "turn_runs (s, ts, us) e"
  shows "shared_left c (store_step (s, ts, us) e) < shared_left c (s, ts, us)"
proof (cases e)
  case (Write_turn i)
  have c: "cfg s = c" "alphabet_ok (cfg s)" using assms(1) by (auto simp: shared_inv_def calls_inv_def)
  have run: "can_run ts i" "\<not> kept_out us (phase (ts ! i))" using assms(2) Write_turn by simp_all
  obtain s' ts' where t: "thread_step (s, ts) i = (s', ts')" by fastforce
  from thread_step_progress [OF c(2) run(1)] have "total_left c ts' < total_left c ts" by (simp only: t c snd_conv)
  then show ?thesis using Write_turn run(2) by (simp only: store_step.simps t) simp
next
  case (Access_turn i)
  with assms(2) have run: "i < length us" "\<not> access_blocked ts us (akind (us ! i)) (aphase (us ! i))"
      "0 < access_left (aphase (us ! i))" by (simp_all add: access_left_pos)
  obtain p s' where w: "access_call (akey (us ! i)) (akind (us ! i)) (aphase (us ! i)) s = (p, s')" by fastforce
  from access_left_call [OF run(3), of "akey (us ! i)" "akind (us ! i)" s] w
  have "access_left p < access_left (aphase (us ! i))" by simp
  from access_left_update [OF run(1) this] show ?thesis using Access_turn run(1,2) w by simp
qed

lemma turn_idle:
  assumes "\<not> turn_runs (s, ts, us) e"
  shows "store_step (s, ts, us) e = (s, ts, us)"
proof (cases e)
  case (Write_turn i)
  show ?thesis
  proof (cases "can_run ts i")
    case True
    then have "i < length ts" "kept_out us (phase (ts ! i))" using assms Write_turn by (simp_all add: can_run_def)
    then show ?thesis using Write_turn by simp
  next
    case False
    from thread_step_idle [OF False, of s] show ?thesis unfolding Write_turn store_step.simps by (simp only:) simp
  qed
next
  case (Access_turn i)
  show ?thesis
  proof (cases "i < length us \<and> (\<exists>r. aphase (us ! i) = Returned r)")
    case True
    then have "access_call (akey (us ! i)) (akind (us ! i)) (aphase (us ! i)) s = (aphase (us ! i), s)" by auto
    then show ?thesis using Access_turn by (simp add: Let_def)
  qed (use assms Access_turn in auto)
qed

text \<open>Whoever holds a lock can run.\<close>

lemma writer_holds_runs:
  "i < length ts \<Longrightarrow> holds_lock (phase (ts ! i)) = Some dest \<Longrightarrow> turn_runs (s, ts, us) (Write_turn i)"
  by (cases "phase (ts ! i)") (simp_all add: can_run_def)

lemma access_holds_runs:
  "i < length us \<Longrightarrow> access_lock (aphase (us ! i)) = Some dest \<Longrightarrow> turn_runs (s, ts, us) (Access_turn i)"
  by (cases "aphase (us ! i)") simp_all

lemma some_turn_runs:
  assumes "0 < shared_left c (s, ts, us)"
  shows "\<exists>e\<in>turns (s, ts, us). turn_runs (s, ts, us) e"
proof (cases "0 < total_left c ts")
  case True
  then obtain i where i: "i < length ts" "can_run ts i" using can_run_or_finished by blast
  show ?thesis
  proof (cases "kept_out us (phase (ts ! i))")
    case True
    then obtain dest tmp where "phase (ts ! i) = Waiting dest tmp" by (cases "phase (ts ! i)") auto
    with True obtain j where j: "j < length us" "access_lock (aphase (us ! j)) = Some dest"
      by (auto simp: list_ex_iff in_set_conv_nth)
    then show ?thesis using access_holds_runs [OF j] by (intro bexI [of _ "Access_turn j"]) auto
  next
    case False
    with i show ?thesis by (intro bexI [of _ "Write_turn i"]) auto
  qed
next
  case False
  then have "0 < sum_list (map (\<lambda>u. access_left (aphase u)) us)" using assms by simp
  then obtain u where "u \<in> set us" "0 < access_left (aphase u)"
    by (metis (no_types, lifting) gr0I less_nat_zero_code sum_list_eq_0_iff in_set_conv_nth length_map nth_map nth_mem)
  then obtain i where i: "i < length us" "\<not> (\<exists>r. aphase (us ! i) = Returned r)"
    by (auto simp: in_set_conv_nth access_left_pos)
  show ?thesis
  proof (cases "access_blocked ts us (akind (us ! i)) (aphase (us ! i))")
    case True
    then obtain dest where a: "aphase (us ! i) = Awaiting dest" by (cases "aphase (us ! i)") auto
    with True consider j where "j < length ts" "holds_lock (phase (ts ! j)) = Some dest"
      | j where "j < length us" "access_lock (aphase (us ! j)) = Some dest"
      by (auto simp: list_ex_iff in_set_conv_nth)
    then show ?thesis
    proof cases
      case (1 j)
      then show ?thesis using writer_holds_runs [OF 1] by (intro bexI [of _ "Write_turn j"]) auto
    next
      case (2 j)
      then show ?thesis using access_holds_runs [OF 2] by (intro bexI [of _ "Access_turn j"]) auto
    qed
  next
    case False
    with i show ?thesis by (intro bexI [of _ "Access_turn i"]) auto
  qed
qed

lemma map_fields_update:
  assumes "\<And>t. F (f t) = F t"
  shows "map F (ts[i := f (ts ! i)]) = map F ts"
proof (induction ts arbitrary: i)
  case (Cons t ts)
  then show ?case using assms by (cases i) simp_all
qed simp

lemma store_step_same:
  assumes "store_step (s, ts, us) e = (s', ts', us')"
  shows "map (\<lambda>t. (tkey t, tbuf t)) ts' = map (\<lambda>t. (tkey t, tbuf t)) ts \<and>
    map (\<lambda>u. (akey u, akind u)) us' = map (\<lambda>u. (akey u, akind u)) us"
proof (cases e)
  case (Write_turn i)
  with assms show ?thesis using thread_step_calls [of "(s, ts)" i]
    by (auto simp del: thread_step.simps split: if_splits prod.splits)
next
  case (Access_turn i)
  have "map (\<lambda>u. (akey u, akind u)) (us[i := (us ! i)\<lparr>aphase := p\<rparr>]) = map (\<lambda>u. (akey u, akind u)) us" for p
    by (rule map_fields_update) simp
  with assms Access_turn show ?thesis by (auto simp: Let_def split: if_splits prod.splits)
qed

interpretation fair_store: fair_system store_step "shared_inv c n0 g" "shared_left c" turn_runs turns for c n0 g
proof
  fix st :: shared_store and e
  obtain s ts us where st: "st = (s, ts, us)" by (cases st)
  show "shared_inv c n0 g st \<Longrightarrow> shared_inv c n0 g (store_step st e)" by (rule store_step_keeps)
  show "shared_inv c n0 g st \<Longrightarrow> turn_runs st e \<Longrightarrow> shared_left c (store_step st e) < shared_left c st"
    using turn_progress by (simp only: st)
  show "\<not> turn_runs st e \<Longrightarrow> store_step st e = st" using turn_idle by (simp only: st)
  show "0 < shared_left c st \<Longrightarrow> \<exists>e\<in>turns st. turn_runs st e" using some_turn_runs by (simp only: st)
  obtain s' ts' us' where r: "store_step (s, ts, us) e = (s', ts', us')" by (cases "store_step (s, ts, us) e")
  from store_step_same [OF r] have "length ts' = length ts" "length us' = length us"
    using map_eq_imp_length_eq by blast+
  then show "turns (store_step st e) = turns st" by (simp add: st r)
qed

section \<open>Properties\<close>

lemma run_store_same:
  assumes "run_steps store_step (s, ts, us) es = (s', ts', us')"
  shows "map (\<lambda>t. (tkey t, tbuf t)) ts' = map (\<lambda>t. (tkey t, tbuf t)) ts \<and>
    map (\<lambda>u. (akey u, akind u)) us' = map (\<lambda>u. (akey u, akind u)) us"
  using assms
proof (induction es arbitrary: s ts us)
  case (Cons e es)
  obtain s1 ts1 us1 where e: "store_step (s, ts, us) e = (s1, ts1, us1)" by (cases "store_step (s, ts, us) e")
  from Cons.IH [of s1 ts1 us1] Cons.prems store_step_same [OF e] show ?case by (simp add: e)
qed simp

text \<open>What a run of the store has kept: the calls and the invariant.\<close>

lemma run_store_facts:
  assumes "store_inv s" "length calls < 2 ^ 64" "run_store s calls accs sched = (s', ts, us)"
  shows "map (\<lambda>t. (tkey t, tbuf t)) ts = calls" "map (\<lambda>u. (akey u, akind u)) us = accs"
    "shared_inv (cfg s) (tmp_file_counter s) (content_at (cur (dsk s))) (s', ts, us)"
proof -
  from run_store_same [OF assms(3) [unfolded run_store_def]]
  show "map (\<lambda>t. (tkey t, tbuf t)) ts = calls" "map (\<lambda>u. (akey u, akind u)) us = accs"
    by (simp_all add: start_call_def start_access_def comp_def)
  from fair_store.run_keeps [OF shared_inv_start [OF assms(1,2)], of accs sched] assms(3)
  show "shared_inv (cfg s) (tmp_file_counter s) (content_at (cur (dsk s))) (s', ts, us)"
    by (simp add: run_store_def)
qed

lemma removed_access:
  assumes "map (\<lambda>u. (akey u, akind u)) us = accs" "valid_key c k" "removed c us (key_path c k)"
  shows "\<exists>l. (k, Delete l) \<in> set accs"
proof -
  from assms(3) obtain u where u: "u \<in> set us" "akind u \<noteq> Fetch" "valid_key c (akey u)" "key_path c (akey u) = key_path c k"
    by (auto simp: removed_def simp del: split_paired_Ex)
  have "akey u = k" by (rule key_path_inj [OF u(3) assms(2) u(4)])
  moreover have "(akey u, akind u) \<in> set accs" using u(1) by (simp add: assms(1) [symmetric])
  ultimately show ?thesis using u(2) by (cases "akind u") auto
qed

lemma possible_values:
  assumes "map (\<lambda>t. (tkey t, tbuf t)) ts = calls" "map (\<lambda>u. (akey u, akind u)) us = accs" "valid_key c k"
    "r \<in> possible c g ts us (key_path c k)"
  shows "r = g (key_path c k) \<or> (\<exists>v. (k, v) \<in> set calls \<and> r = Some v) \<or>
    r = None \<and> (\<exists>l. (k, Delete l) \<in> set accs)"
  using assms(4) offered_call [OF assms(1,3)] removed_access [OF assms(2,3)]
  by (auto simp: possible_def split: if_splits)

text \<open>
  Reads and removals among the writes, interleaved at their system calls with any faults: every
  key holds its old value, the whole value of one of the writes, or nothing if it is being removed;
  and a read that returned \<open>Ok\<close> has returned the old value or the whole value of a write.
\<close>

theorem concurrent_reads_whole:
  assumes "store_inv s" "length calls < 2 ^ 64"
  shows "case run_store s calls accs sched of (s', ts, us) \<Rightarrow>
    (kv_get s' k = kv_get s k \<or> (\<exists>v. (k, v) \<in> set calls \<and> kv_get s' k = Some v) \<or>
     kv_get s' k = None \<and> (\<exists>l. (k, Delete l) \<in> set accs)) \<and>
    (\<forall>u\<in>set us. \<forall>b. akind u = Fetch \<and> aphase u = Returned (Ok b) \<longrightarrow>
       (\<exists>v. b = Some v \<and> (kv_get s (akey u) = Some v \<or> (akey u, v) \<in> set calls)))"
proof -
  obtain s' ts us where r: "run_store s calls accs sched = (s', ts, us)" by (cases "run_store s calls accs sched")
  note facts = run_store_facts [OF assms r]
  let ?c = "cfg s" and ?g = "content_at (cur (dsk s))"
  have c: "alphabet_ok ?c" "cfg s' = ?c" using facts(3) by (simp_all add: shared_inv_def calls_inv_def)
  have get: "kv_get s k = ?g (key_path ?c k)" "kv_get s' k = content_at (cur (dsk s')) (key_path ?c k)"
    if "valid_key ?c k" for k using that c(2) by (simp_all add: kv_get_def)
  have "kv_get s' k = kv_get s k \<or> (\<exists>v. (k, v) \<in> set calls \<and> kv_get s' k = Some v) \<or>
     kv_get s' k = None \<and> (\<exists>l. (k, Delete l) \<in> set accs)"
  proof (cases "valid_key ?c k")
    case True
    have "content_at (cur (dsk s')) (key_path ?c k) \<in> possible ?c ?g ts us (key_path ?c k)"
      using facts(3) key_path_dotless [OF c(1) True] by (simp add: shared_inv_def)
    from possible_values [OF facts(1,2) True this] get [OF True] show ?thesis by (simp only:)
  qed (simp add: kv_get_def c(2))
  moreover have "\<exists>v. b = Some v \<and> (kv_get s (akey u) = Some v \<or> (akey u, v) \<in> set calls)"
    if u: "u \<in> set us" "akind u = Fetch" "aphase u = Returned (Ok b)" for u b
  proof -
    have "access_inv ?c (possible ?c ?g ts us (key_path ?c (akey u))) (akey u) (akind u) (aphase u)"
      using facts(3) u(1) by (simp add: shared_inv_def)
    then have v: "valid_key ?c (akey u)" "b \<noteq> None" "b \<in> possible ?c ?g ts us (key_path ?c (akey u))"
      using u(2,3) by simp_all
    from possible_values [OF facts(1,2) v(1,3)] v(2) get(1) [OF v(1)] show ?thesis by auto
  qed
  ultimately show ?thesis by (simp only: r prod.case) blast
qed

text \<open>Two writes, a read and a removal of one key that holds a value.\<close>

definition written_store :: kvstore where
  "written_store = snd (kv_put manager_key [9] (sample_store []))"

definition sample_turns :: "turn list" where
  "sample_turns = [Write_turn 0, Access_turn 0, Write_turn 1, Access_turn 1]"

definition sample_accesses :: "(kv_key \<times> access) list" where
  "sample_accesses = [(manager_key, Fetch), (manager_key, Delete False)]"

lemma sample_store_run:
  "case run_store written_store (take 2 sample_calls) sample_accesses (concat (replicate 16 sample_turns)) of (s', ts, us) \<Rightarrow>
     kv_get s' manager_key = Some [2, 2] \<and> map aphase us = [Returned (Ok (Some [9])), Returned (Ok None)]"
  by code_simp

lemma written_store_inv: "store_inv written_store"
proof -
  obtain r s' where p: "kv_put manager_key [9] (sample_store []) = (r, s')" by fastforce
  from fs_kv.put_cases [OF sample_store_inv p] p show ?thesis by (simp add: written_store_def)
qed

theorem concurrent_reads_whole_witness:
  "(case run_store written_store (take 2 sample_calls) sample_accesses (concat (replicate 16 sample_turns)) of (s', ts, us) \<Rightarrow>
     kv_get s' manager_key = Some [2, 2] \<and> map aphase us = [Returned (Ok (Some [9])), Returned (Ok None)]) \<and>
   (case run_store written_store (take 2 sample_calls) sample_accesses (concat (replicate 16 sample_turns)) of (s', ts, us) \<Rightarrow>
     kv_get s' manager_key = kv_get written_store manager_key \<or>
     (\<exists>v. (manager_key, v) \<in> set (take 2 sample_calls) \<and> kv_get s' manager_key = Some v) \<or>
     kv_get s' manager_key = None \<and> (\<exists>l. (manager_key, Delete l) \<in> set sample_accesses))"
proof (rule conjI, rule sample_store_run)
  have l: "length (take 2 sample_calls) < 2 ^ 64" by (simp add: sample_calls_def)
  show "case run_store written_store (take 2 sample_calls) sample_accesses (concat (replicate 16 sample_turns)) of (s', ts, us) \<Rightarrow>
     kv_get s' manager_key = kv_get written_store manager_key \<or>
     (\<exists>v. (manager_key, v) \<in> set (take 2 sample_calls) \<and> kv_get s' manager_key = Some v) \<or>
     kv_get s' manager_key = None \<and> (\<exists>l. (manager_key, Delete l) \<in> set sample_accesses)"
    using concurrent_reads_whole [OF written_store_inv l, where accs = sample_accesses and k = manager_key
        and sched = "concat (replicate 16 sample_turns)"]
    by (simp only: case_prod_unfold)
qed

text \<open>
  C19. Writes, reads and removals never wait for each other in a circle: with any faults, every call
  has ended after enough rounds in which each was scheduled at least once, in any order.
\<close>

theorem concurrent_calls_finish:
  assumes "store_inv s" "length calls < 2 ^ 64"
    and "\<forall>r\<in>set rounds. Write_turn ` {..<length calls} \<union> Access_turn ` {..<length accs} \<subseteq> set r"
    and "length calls * (length (data_dir (cfg s)) + 15) + length accs * 10 \<le> length rounds"
  shows "case run_store s calls accs (concat rounds) of (s', ts, us) \<Rightarrow>
    list_all (\<lambda>t. case phase t of Finished r \<Rightarrow> True | _ \<Rightarrow> False) ts \<and>
    list_all (\<lambda>u. case aphase u of Returned r \<Rightarrow> True | _ \<Rightarrow> False) us"
proof -
  let ?st = "(s, map start_call calls, map start_access accs)"
  obtain s' ts us where r: "run_store s calls accs (concat rounds) = (s', ts, us)"
    by (cases "run_store s calls accs (concat rounds)")
  have "shared_left (cfg s) ?st = length calls * (length (data_dir (cfg s)) + 15) + length accs * 10"
    by (simp add: total_left_def start_call_def start_access_def comp_def sum_list_triv)
  then have "shared_left (cfg s) (run_steps store_step ?st (concat rounds)) = 0"
    using assms(3,4) by (intro fair_store.rounds_finish [OF shared_inv_start [OF assms(1,2)]]) simp_all
  then have z: "total_left (cfg s) ts = 0" "sum_list (map (\<lambda>u. access_left (aphase u)) us) = 0"
    using r by (simp_all add: run_store_def)
  have "\<exists>q. phase t = Finished q" if "t \<in> set ts" for t
    using that z(1) steps_left_pos [of "cfg s" "phase t"] by (auto simp: total_left_def)
  moreover have "\<exists>q. aphase u = Returned q" if "u \<in> set us" for u
    using that z(2) access_left_pos [of "aphase u"] by auto
  ultimately show ?thesis by (fastforce simp: r list_all_iff)
qed

theorem concurrent_calls_finish_witness:
  "case run_store written_store (take 2 sample_calls) sample_accesses (concat (replicate 52 sample_turns)) of (s', ts, us) \<Rightarrow>
    list_all (\<lambda>t. case phase t of Finished r \<Rightarrow> True | _ \<Rightarrow> False) ts \<and>
    list_all (\<lambda>u. case aphase u of Returned r \<Rightarrow> True | _ \<Rightarrow> False) us"
proof (rule concurrent_calls_finish [OF written_store_inv])
  have "length (data_dir (cfg written_store)) = 1" by code_simp
  then show "length (take 2 sample_calls) * (length (data_dir (cfg written_store)) + 15) + length sample_accesses * 10
      \<le> length (replicate 52 sample_turns)"
    by (simp add: sample_calls_def sample_accesses_def sample_cfg_def)
qed (auto simp: sample_calls_def sample_accesses_def sample_turns_def lessThan_Suc)

text \<open>
  The test for the file comes before the lock: of two removals of one key that meet, one returns an
  error, although \<open>remove\<close> of an absent key is meant to return \<open>Ok\<close>.
\<close>

lemma removals_collide:
  "case run_store written_store [] [(manager_key, Delete False), (manager_key, Delete False)]
      (concat (replicate 12 [Access_turn 0, Access_turn 1])) of (s', ts, us) \<Rightarrow>
     map aphase us = [Returned (Ok None), Returned (Err NotFound)] \<and> kv_get s' manager_key = None"
  by code_simp

end
