(* ===== verification/Store_Order.thy ===== *)
theory Store_Order imports Store_Shared begin

text \<open>
  Concurrent calls of one store are linearizable: every run is explained by an order in which the
  calls took effect one after the other on a map. A write takes effect at its rename, a removal when
  it finds no file or takes the name away, a read at the moment it reads the file. A removal whose
  test for the file fails takes the file for absent, returns \<open>Ok\<close> and has no effect.
\<close>

section \<open>Effects\<close>

text \<open>The change of the map the store stands for that a step makes, with the call that makes it.\<close>

type_synonym store_effect = "turn \<times> kv_key \<times> bytes option"

fun effect :: "shared_store \<Rightarrow> turn \<Rightarrow> store_effect list" where
  "effect (s, ts, us) (Write_turn i) =
     (case store_step (s, ts, us) (Write_turn i) of
        (s', ts', us') \<Rightarrow>
          if i < length ts \<and> \<not> renamed (phase (ts ! i)) \<and> renamed (phase (ts' ! i))
          then [(Write_turn i, tkey (ts ! i), Some (tbuf (ts ! i)))] else [])"
| "effect (s, ts, us) (Access_turn i) =
     (case store_step (s, ts, us) (Access_turn i) of
        (s', ts', us') \<Rightarrow>
          if i < length us \<and> akind (us ! i) \<noteq> Fetch \<and> \<not> gone (aphase (us ! i)) \<and> gone (aphase (us' ! i)) \<and>
             \<not> misses (aphase (us ! i)) s
          then [(Access_turn i, akey (us ! i), None)] else [])"

fun effects :: "shared_store \<Rightarrow> turn list \<Rightarrow> store_effect list" where
  "effects st [] = []"
| "effects st (e # es) = effect st e @ effects (store_step st e) es"

text \<open>The removal \<open>i\<close> missed its file in the run: its test failed.\<close>

fun missed :: "shared_store \<Rightarrow> turn list \<Rightarrow> nat \<Rightarrow> bool" where
  "missed (s, ts, us) [] i \<longleftrightarrow> False"
| "missed (s, ts, us) (e # es) i \<longleftrightarrow>
     e = Access_turn i \<and> i < length us \<and> misses (aphase (us ! i)) s \<or> missed (store_step (s, ts, us) e) es i"

text \<open>The map after these changes, one after the other.\<close>

definition in_order :: "store_effect list \<Rightarrow> (kv_key \<Rightarrow> bytes option) \<Rightarrow> kv_key \<Rightarrow> bytes option" where
  "in_order ops m = foldl (\<lambda>m (e, k, r). m(k := r)) m ops"

lemma in_order_simps [simp]:
  "in_order [] m = m" "in_order ((e, k, r) # ops) m = in_order ops (m(k := r))"
  "in_order (xs @ ys) m = in_order ys (in_order xs m)"
  by (simp_all add: in_order_def)

section \<open>Every step is its effect\<close>

lemma shared_store_inv: "shared_inv c n0 g (s, ts, us) \<Longrightarrow> store_inv s \<and> cfg s = c"
  by (simp add: shared_inv_def calls_inv_def store_inv_def)

lemma write_effect:
  assumes inv: "shared_inv c n0 g (s, ts, us)"
  shows "kv_get (fst (store_step (s, ts, us) (Write_turn i))) = in_order (effect (s, ts, us) (Write_turn i)) (kv_get s)"
proof (cases "i < length ts \<and> \<not> blocked ts (phase (ts ! i)) \<and> \<not> kept_out us (phase (ts ! i))")
  case True
  let ?t = "ts ! i"
  obtain p s' where w: "write_call (tkey ?t) (tbuf ?t) (phase ?t) s = (p, s')" by fastforce
  have st: "store_step (s, ts, us) (Write_turn i) = (s', ts[i := ?t\<lparr>phase := p\<rparr>], us)"
    using True w by (simp add: Let_def)
  note k = shared_store_inv [OF inv]
  have ci: "call_inv c (tkey ?t) (tbuf ?t) (phase ?t) (dsk s)" "fs_wf (cur (dsk s))" "alphabet_ok c"
    using inv True by (simp_all add: shared_inv_def calls_inv_def)
  have "step_ok c (tkey ?t) (tbuf ?t) (content_at (cur (dsk s))) (phase ?t) p s'"
    using write_call_own [OF ci(3) _ ci(1) w] keeps_self [OF ci(2)] k by simp
  then consider
      "at_cfg (cfg s) (keeps (content_at (cur (dsk s)))) s'" "renamed p \<longrightarrow> renamed (phase ?t)"
    | "at_cfg (cfg s) (keeps ((content_at (cur (dsk s)))(key_path (cfg s) (tkey ?t) := Some (tbuf ?t)))) s'"
      "valid_key (cfg s) (tkey ?t)" "renamed p" "\<not> renamed (phase ?t)"
    using k unfolding step_ok_def by blast
  then show ?thesis
  proof cases
    case 1
    then show ?thesis using kv_get_same [of s s'] k True st by (auto simp del: store_step.simps)
  next
    case 2
    then show ?thesis using kv_get_upd [of s "tkey ?t" "Some (tbuf ?t)" s'] k True st
      by (simp del: store_step.simps)
  qed
next
  case False
  then have st: "store_step (s, ts, us) (Write_turn i) = (s, ts, us)" by auto
  then have "effect (s, ts, us) (Write_turn i) = []" by (simp del: store_step.simps)
  with st show ?thesis by (simp del: store_step.simps effect.simps)
qed

lemma access_effect:
  assumes inv: "shared_inv c n0 g (s, ts, us)"
  shows "kv_get (fst (store_step (s, ts, us) (Access_turn i))) = in_order (effect (s, ts, us) (Access_turn i)) (kv_get s)"
proof (cases "i < length us \<and> \<not> access_blocked ts us (akind (us ! i)) (aphase (us ! i))")
  case True
  let ?u = "us ! i" and ?h = "content_at (cur (dsk s))"
  obtain p s' where w: "access_call (akey ?u) (akind ?u) (aphase ?u) s = (p, s')" by fastforce
  have st: "store_step (s, ts, us) (Access_turn i) = (s', ts, us[i := ?u\<lparr>aphase := p\<rparr>])"
    using True w by (simp add: Let_def)
  note k = shared_store_inv [OF inv]
  let ?V = "possible c g ts us (key_path c (akey ?u))"
  have ai: "access_inv c ?V (akey ?u) (akind ?u) (aphase ?u)" "fs_wf (cur (dsk s))" "alphabet_ok c"
    using inv True by (simp_all add: shared_inv_def calls_inv_def)
  have "access_step_ok c ?V (akey ?u) (akind ?u) ?h (aphase ?u) (misses (aphase ?u) s) p s'"
    using access_call_own [OF ai(3) _ ai(1) w] keeps_self [OF ai(2)] k by simp
  then consider
      (same) "at_cfg (cfg s) (keeps ?h) s'" "akind ?u \<noteq> Fetch \<and> gone p \<and> \<not> gone (aphase ?u) \<and> \<not> misses (aphase ?u) s \<longrightarrow>
        valid_key (cfg s) (akey ?u) \<and> ?h (key_path (cfg s) (akey ?u)) = None"
    | (gone) "at_cfg (cfg s) (keeps (?h(key_path (cfg s) (akey ?u) := None))) s'"
      "valid_key (cfg s) (akey ?u)" "akind ?u \<noteq> Fetch" "gone p" "\<not> gone (aphase ?u)" "\<not> misses (aphase ?u) s"
    using k unfolding access_step_ok_def by blast
  then show ?thesis
  proof cases
    case same
    then have eq: "kv_get s' = kv_get s" using kv_get_same [of s s'] k by simp
    show ?thesis
    proof (cases "akind ?u \<noteq> Fetch \<and> gone p \<and> \<not> gone (aphase ?u) \<and> \<not> misses (aphase ?u) s")
      case True
      then have "kv_get s (akey ?u) = None" using same(2) by (simp add: kv_get_def)
      then have "(kv_get s)(akey ?u := None) = kv_get s" by (simp add: fun_upd_idem_iff)
      then show ?thesis using eq st \<open>i < length us \<and> _\<close> True by (simp del: store_step.simps)
    next
      case False
      then show ?thesis using eq st \<open>i < length us \<and> _\<close> by (auto simp del: store_step.simps)
    qed
  next
    case gone
    then show ?thesis using kv_get_upd [of s "akey ?u" None s'] k True st by (simp del: store_step.simps)
  qed
next
  case False
  then have st: "store_step (s, ts, us) (Access_turn i) = (s, ts, us)" by auto
  then have "effect (s, ts, us) (Access_turn i) = []" by (simp del: store_step.simps)
  with st show ?thesis by (simp del: store_step.simps effect.simps)
qed

lemma step_is_effect:
  assumes "shared_inv c n0 g st"
  shows "kv_get (fst (store_step st e)) = in_order (effect st e) (kv_get (fst st))"
proof -
  obtain s ts us where st: "st = (s, ts, us)" by (cases st)
  show ?thesis
  proof (cases e)
    case (Write_turn i)
    then show ?thesis using write_effect [OF assms [unfolded st], of i] by (simp only: st fst_conv)
  next
    case (Access_turn i)
    then show ?thesis using access_effect [OF assms [unfolded st], of i] by (simp only: st fst_conv)
  qed
qed

lemma run_is_effects:
  assumes "shared_inv c n0 g st"
  shows "kv_get (fst (run_steps store_step st es)) = in_order (effects st es) (kv_get (fst st))"
  using assms
proof (induction es arbitrary: st)
  case (Cons e es)
  show ?case using Cons.IH [OF store_step_keeps [OF Cons.prems]] step_is_effect [OF Cons.prems, of e]
    by simp
qed simp

section \<open>Every call takes effect once, before it returns\<close>

fun turn_left :: "config \<Rightarrow> shared_store \<Rightarrow> turn \<Rightarrow> nat" where
  "turn_left c (s, ts, us) (Write_turn i) = (if i < length ts then steps_left c (phase (ts ! i)) else 0)"
| "turn_left c (s, ts, us) (Access_turn i) = (if i < length us then access_left (aphase (us ! i)) else 0)"

text \<open>What is left of a call when it has taken effect.\<close>

fun effect_left :: "turn \<Rightarrow> nat" where
  "effect_left (Write_turn i) = 4"
| "effect_left (Access_turn i) = 5"

lemma steps_left_mono:
  "alphabet_ok (cfg s) \<Longrightarrow> steps_left (cfg s) (fst (write_call k buf p s)) \<le> steps_left (cfg s) p"
  using steps_left_call [of s p k buf] steps_left_pos [of "cfg s" p]
  by (cases "0 < steps_left (cfg s) p") auto

lemma access_left_mono: "access_left (fst (access_call k a p s)) \<le> access_left p"
  using access_left_call [of p k a s] access_left_pos [of p] by (cases "0 < access_left p") auto

lemma rename_step:
  assumes "write_call k buf p s = (p', s')" "\<not> renamed p" "renamed p'"
  shows "steps_left c p = 5 \<and> steps_left c p' = 4"
  using assms
proof (cases p)
  case (Making dest made rest)
  then show ?thesis using assms
    by (cases rest) (auto simp: call_def is_ok_iff simp del: create_dirs.simps split: prod.splits outcome.splits)
qed (auto simp: call_def is_ok_iff split: prod.splits outcome.splits)

lemma gone_step:
  assumes "access_call k a p s = (p', s')" "\<not> gone p" "gone p'" "access_inv c V k a p" "a \<noteq> Fetch"
  shows "6 \<le> access_left p \<and> access_left p' \<le> 5"
  using assms
  by (cases p) (auto simp: call_def is_ok_iff split: prod.splits outcome.splits access.splits if_splits)

lemma turn_left_step:
  assumes "shared_inv c n0 g st"
  shows "turn_left c (store_step st e) e' \<le> turn_left c st e'"
proof -
  obtain s ts us where st: "st = (s, ts, us)" by (cases st)
  have c: "cfg s = c" "alphabet_ok (cfg s)" using assms by (auto simp: st shared_inv_def calls_inv_def)
  show ?thesis
  proof (cases "turn_runs st e")
    case False
    then have "store_step st e = st" using turn_idle [OF False [unfolded st]] by (simp only: st)
    then show ?thesis by (simp only: order_refl)
  next
    case True
    show ?thesis
    proof (cases e)
      case (Write_turn i)
      obtain p s' where w: "write_call (tkey (ts ! i)) (tbuf (ts ! i)) (phase (ts ! i)) s = (p, s')" by fastforce
      have "steps_left c p \<le> steps_left c (phase (ts ! i))"
        using steps_left_mono [OF c(2), of "tkey (ts ! i)" "tbuf (ts ! i)" "phase (ts ! i)"] w c(1) by simp
      moreover have "i < length ts" "store_step st e = (s', ts[i := (ts ! i)\<lparr>phase := p\<rparr>], us)"
        using True Write_turn w by (simp_all add: st can_run_def Let_def)
      ultimately show ?thesis by (cases e') (auto simp: st nth_list_update)
    next
      case (Access_turn i)
      obtain p s' where w: "access_call (akey (us ! i)) (akind (us ! i)) (aphase (us ! i)) s = (p, s')" by fastforce
      have "access_left p \<le> access_left (aphase (us ! i))"
        using access_left_mono [of "akey (us ! i)" "akind (us ! i)" "aphase (us ! i)" s] w by simp
      moreover have "i < length us" "store_step st e = (s', ts, us[i := (us ! i)\<lparr>aphase := p\<rparr>])"
        using True Access_turn w by (simp_all add: st Let_def)
      ultimately show ?thesis by (cases e') (auto simp: st nth_list_update)
    qed
  qed
qed

lemma effect_once:
  assumes "shared_inv c n0 g st" "x \<in> set (effect st e)"
  shows "fst x = e" "effect_left e < turn_left c st e" "turn_left c (store_step st e) e \<le> effect_left e"
proof -
  obtain s ts us where st: "st = (s, ts, us)" by (cases st)
  have "fst x = e \<and> effect_left e < turn_left c st e \<and> turn_left c (store_step st e) e \<le> effect_left e"
  proof (cases e)
    case (Write_turn i)
    obtain p s' where w: "write_call (tkey (ts ! i)) (tbuf (ts ! i)) (phase (ts ! i)) s = (p, s')" by fastforce
    have run: "turn_runs st e"
    proof (rule ccontr)
      assume "\<not> turn_runs st e"
      then have "store_step (s, ts, us) e = (s, ts, us)" using turn_idle by (simp only: st)
      then show False using assms(2) Write_turn by (simp add: st del: store_step.simps)
    qed
    then have s: "store_step (s, ts, us) e = (s', ts[i := (ts ! i)\<lparr>phase := p\<rparr>], us)" "i < length ts"
      using Write_turn w by (simp_all add: st can_run_def Let_def)
    then have "\<not> renamed (phase (ts ! i))" "renamed p" "fst x = e"
      using assms(2) Write_turn by (auto simp: st simp del: store_step.simps split: if_splits)
    with rename_step [OF w this(1,2), of c] s show ?thesis using Write_turn by (simp add: st del: store_step.simps)
  next
    case (Access_turn i)
    obtain p s' where w: "access_call (akey (us ! i)) (akind (us ! i)) (aphase (us ! i)) s = (p, s')" by fastforce
    have run: "turn_runs st e"
    proof (rule ccontr)
      assume "\<not> turn_runs st e"
      then have "store_step (s, ts, us) e = (s, ts, us)" using turn_idle by (simp only: st)
      then show False using assms(2) Access_turn by (auto simp: st simp del: store_step.simps)
    qed
    then have s: "store_step (s, ts, us) e = (s', ts, us[i := (us ! i)\<lparr>aphase := p\<rparr>])" "i < length us"
      using Access_turn w by (simp_all add: st Let_def)
    then have "\<not> gone (aphase (us ! i))" "gone p" "akind (us ! i) \<noteq> Fetch" "fst x = e"
      using assms(2) Access_turn by (auto simp: st simp del: store_step.simps split: if_splits)
    moreover have "access_inv c (possible c g ts us (key_path c (akey (us ! i)))) (akey (us ! i)) (akind (us ! i)) (aphase (us ! i))"
      using assms(1) s(2) by (simp add: st shared_inv_def)
    ultimately show ?thesis using gone_step [OF w] s Access_turn
      by (force simp: st simp del: store_step.simps)
  qed
  then show "fst x = e" "effect_left e < turn_left c st e" "turn_left c (store_step st e) e \<le> effect_left e"
    by simp_all
qed

lemma effects_pending:
  "shared_inv c n0 g st \<Longrightarrow> x \<in> set (effects st es) \<Longrightarrow> effect_left (fst x) < turn_left c st (fst x)"
proof (induction es arbitrary: st)
  case (Cons e es)
  show ?case
  proof (cases "x \<in> set (effect st e)")
    case True
    then show ?thesis using effect_once [OF Cons.prems(1)] by simp
  next
    case False
    then have "x \<in> set (effects (store_step st e) es)" using Cons.prems(2) by simp
    from Cons.IH [OF store_step_keeps [OF Cons.prems(1)] this] turn_left_step [OF Cons.prems(1), of e "fst x"]
    show ?thesis by simp
  qed
qed simp

lemma effect_length: "length (effect st e) \<le> 1"
proof -
  obtain s ts us where "st = (s, ts, us)" by (cases st)
  then show ?thesis by (cases e) (auto simp del: store_step.simps split: prod.splits)
qed

lemma effects_distinct: "shared_inv c n0 g st \<Longrightarrow> distinct (map fst (effects st es))"
proof (induction es arbitrary: st)
  case (Cons e es)
  note inv = store_step_keeps [OF Cons.prems, of e]
  have fresh: "e \<notin> fst ` set (effects (store_step st e) es)" if x: "x \<in> set (effect st e)" for x
  proof
    assume "e \<in> fst ` set (effects (store_step st e) es)"
    then obtain y where "y \<in> set (effects (store_step st e) es)" "fst y = e" by auto
    from effects_pending [OF inv this(1)] this(2) effect_once(3) [OF Cons.prems x] show False by simp
  qed
  have "distinct (map fst (effect st e))" using effect_length [of st e] by (cases "effect st e") auto
  moreover have "set (map fst (effect st e)) \<inter> set (map fst (effects (store_step st e) es)) = {}"
  proof (rule ccontr)
    assume "\<not> ?thesis"
    then obtain z where z: "z \<in> fst ` set (effect st e)" "z \<in> fst ` set (effects (store_step st e) es)" by auto
    then obtain x where x: "x \<in> set (effect st e)" "z = fst x" by blast
    with effect_once(1) [OF Cons.prems x(1)] z(2) fresh [OF x(1)] show False by simp
  qed
  ultimately show ?case using Cons.IH [OF inv] by (simp only: effects.simps map_append distinct_append)
qed simp

text \<open>A call that has got past its effect has had it.\<close>

lemma write_had_effect:
  assumes "store_step (s, ts, us) e = (s1, ts1, us1)" "i < length ts" "renamed (phase (ts1 ! i))"
  shows "renamed (phase (ts ! i)) \<or> (Write_turn i, tkey (ts ! i), Some (tbuf (ts ! i))) \<in> set (effect (s, ts, us) e)"
proof (cases "e = Write_turn i")
  case True
  then show ?thesis using assms by (simp del: store_step.simps)
next
  case False
  have "ts1 ! i = ts ! i"
  proof (cases e)
    case (Write_turn j)
    with False have "j \<noteq> i" by simp
    then show ?thesis using assms(1) Write_turn by (auto simp: Let_def split: if_splits prod.splits)
  next
    case (Access_turn j)
    then show ?thesis using assms(1) by (auto simp: Let_def split: if_splits prod.splits)
  qed
  then show ?thesis using assms(3) by simp
qed

lemma access_stays:
  assumes "store_step (s, ts, us) e = (s1, ts1, us1)" "e \<noteq> Access_turn i"
  shows "us1 ! i = us ! i"
proof (cases e)
  case (Access_turn j)
  with assms(2) have "j \<noteq> i" by simp
  then show ?thesis using assms(1) Access_turn by (auto simp: Let_def split: if_splits prod.splits)
qed (use assms in \<open>auto simp del: thread_step.simps split: if_splits prod.splits\<close>)

lemma removal_had_effect:
  assumes "store_step (s, ts, us) e = (s1, ts1, us1)" "i < length us" "akind (us ! i) \<noteq> Fetch" "gone (aphase (us1 ! i))"
  shows "gone (aphase (us ! i)) \<or> (Access_turn i, akey (us ! i), None) \<in> set (effect (s, ts, us) e) \<or>
    e = Access_turn i \<and> misses (aphase (us ! i)) s"
proof (cases "e = Access_turn i")
  case True
  then show ?thesis using assms by (auto simp del: store_step.simps)
next
  case False
  then show ?thesis using access_stays [OF assms(1) False] assms(4) by simp
qed

text \<open>The value a read has got, from the moment it has it.\<close>

fun got :: "access_phase \<Rightarrow> bytes option option" where
  "got (Dropping dest r) = (case r of Ok b \<Rightarrow> Some b | _ \<Rightarrow> None)"
| "got (Tidying b) = Some b"
| "got (Returned r) = (case r of Ok b \<Rightarrow> Some b | _ \<Rightarrow> None)"
| "got _ = None"

lemma got_step:
  assumes "access_call k Fetch p s = (p', s')" "got p' = Some b" "access_inv c V k Fetch p"
  shows "got p = Some b \<or> (\<exists>dest. p = Reading_file dest \<and> p' = Dropping dest (Ok b))"
  using assms
  by (cases p) (auto simp: call_def split: prod.splits outcome.splits)

lemma read_had_value:
  assumes inv: "shared_inv c n0 g (s, ts, us)" and st: "store_step (s, ts, us) e = (s1, ts1, us1)"
    and u: "i < length us" "akind (us ! i) = Fetch" "got (aphase (us1 ! i)) = Some b"
  shows "got (aphase (us ! i)) = Some b \<or> b \<noteq> None \<and> kv_get s (akey (us ! i)) = b"
proof (cases "e = Access_turn i \<and> turn_runs (s, ts, us) e")
  case True
  let ?u = "us ! i" and ?h = "content_at (cur (dsk s))"
  obtain p s' where w: "access_call (akey ?u) Fetch (aphase ?u) s = (p, s')" by fastforce
  have p: "aphase (us1 ! i) = p" using True w st u by (auto simp: Let_def)
  have all: "\<forall>u\<in>set us. access_inv c (possible c g ts us (key_path c (akey u))) (akey u) (akind u) (aphase u)"
    "fs_wf (cur (dsk s))" "alphabet_ok c" "cfg s = c"
    using inv by (simp_all add: shared_inv_def calls_inv_def)
  have "access_inv c (possible c g ts us (key_path c (akey ?u))) (akey ?u) Fetch (aphase ?u)"
    using bspec [OF all(1) nth_mem [OF u(1)]] u(2) by simp
  note ai = this all(2-4)
  from got_step [OF w _ ai(1), of b] u(3) p
  consider "got (aphase ?u) = Some b" | dest where "aphase ?u = Reading_file dest" "p = Dropping dest (Ok b)" by auto
  then show ?thesis
  proof cases
    case (2 dest)
    have n: "names c (akey ?u) dest" using ai(1) 2(1) by simp
    have "access_step_ok c {} (akey ?u) Fetch ?h (aphase ?u) (misses (aphase ?u) s) p s'"
      by (rule access_call_own [OF ai(3) _ _ w]) (use keeps_self [OF ai(2)] ai(4) n 2(1) in simp_all)
    then have "b \<noteq> None" "b = ?h (key_path c (akey ?u))" unfolding access_step_ok_def 2(2) access_inv.simps by blast+
    then show ?thesis using n ai(4) by (simp add: kv_get_def names_def)
  qed simp
next
  case False
  have "us1 ! i = us ! i"
  proof (cases "e = Access_turn i")
    case True
    with False have "\<not> turn_runs (s, ts, us) e" by simp
    from turn_idle [OF this] st show ?thesis by (simp only: prod.inject)
  qed (rule access_stays [OF st])
  with u(3) show ?thesis by simp
qed

section \<open>Whole runs\<close>

lemma run_length:
  assumes "run_steps store_step (s, ts, us) es = (s', ts', us')"
  shows "length ts' = length ts" "length us' = length us"
    "i < length ts \<Longrightarrow> tkey (ts' ! i) = tkey (ts ! i) \<and> tbuf (ts' ! i) = tbuf (ts ! i)"
    "i < length us \<Longrightarrow> akey (us' ! i) = akey (us ! i) \<and> akind (us' ! i) = akind (us ! i)"
proof -
  have m: "map (\<lambda>t. (tkey t, tbuf t)) ts' = map (\<lambda>t. (tkey t, tbuf t)) ts"
    "map (\<lambda>u. (akey u, akind u)) us' = map (\<lambda>u. (akey u, akind u)) us"
    using run_store_same [OF assms] by simp_all
  show l: "length ts' = length ts" "length us' = length us" using m map_eq_imp_length_eq by blast+
  show "tkey (ts' ! i) = tkey (ts ! i) \<and> tbuf (ts' ! i) = tbuf (ts ! i)" if "i < length ts"
    using arg_cong [OF m(1), of "\<lambda>xs. xs ! i"] that l by simp
  show "akey (us' ! i) = akey (us ! i) \<and> akind (us' ! i) = akind (us ! i)" if "i < length us"
    using arg_cong [OF m(2), of "\<lambda>xs. xs ! i"] that l by simp
qed

lemma run_writes_had_effect:
  assumes "run_steps store_step (s, ts, us) es = (s', ts', us')" "i < length ts" "renamed (phase (ts' ! i))"
  shows "renamed (phase (ts ! i)) \<or>
    (Write_turn i, tkey (ts ! i), Some (tbuf (ts ! i))) \<in> set (effects (s, ts, us) es)"
  using assms
proof (induction es arbitrary: s ts us)
  case (Cons e es)
  obtain s1 ts1 us1 where e: "store_step (s, ts, us) e = (s1, ts1, us1)" by (cases "store_step (s, ts, us) e")
  have k: "run_steps store_step (s, ts, us) [e] = (s1, ts1, us1)" by (simp only: run_steps.simps e)
  note len = run_length [OF k]
  have run: "run_steps store_step (s1, ts1, us1) es = (s', ts', us')"
    using Cons.prems(1) by (simp only: run_steps.simps e)
  have i: "i < length ts1" using Cons.prems(2) len(1) by simp
  have eff: "effects (s, ts, us) (e # es) = effect (s, ts, us) e @ effects (s1, ts1, us1) es"
    by (simp only: effects.simps e)
  from Cons.IH [OF run i Cons.prems(3)] write_had_effect [OF e Cons.prems(2)] len(3) [OF Cons.prems(2)]
  show ?case unfolding eff by (auto simp del: effect.simps)
qed simp

lemma run_removals_had_effect:
  assumes "run_steps store_step (s, ts, us) es = (s', ts', us')" "i < length us" "akind (us ! i) \<noteq> Fetch"
    "gone (aphase (us' ! i))"
  shows "gone (aphase (us ! i)) \<or> (Access_turn i, akey (us ! i), None) \<in> set (effects (s, ts, us) es) \<or>
    missed (s, ts, us) es i"
  using assms
proof (induction es arbitrary: s ts us)
  case (Cons e es)
  obtain s1 ts1 us1 where e: "store_step (s, ts, us) e = (s1, ts1, us1)" by (cases "store_step (s, ts, us) e")
  have k: "run_steps store_step (s, ts, us) [e] = (s1, ts1, us1)" by (simp only: run_steps.simps e)
  note len = run_length [OF k]
  have run: "run_steps store_step (s1, ts1, us1) es = (s', ts', us')"
    using Cons.prems(1) by (simp only: run_steps.simps e)
  have i: "i < length us1" "akind (us1 ! i) \<noteq> Fetch" using Cons.prems(2,3) len(2) len(4) [OF Cons.prems(2)] by simp_all
  have eff: "effects (s, ts, us) (e # es) = effect (s, ts, us) e @ effects (s1, ts1, us1) es"
    by (simp only: effects.simps e)
  have "missed (s, ts, us) (e # es) i \<longleftrightarrow> e = Access_turn i \<and> misses (aphase (us ! i)) s \<or> missed (s1, ts1, us1) es i"
    using Cons.prems(2) by (simp only: missed.simps e simp_thms)
  with Cons.IH [OF run i Cons.prems(4)] removal_had_effect [OF e Cons.prems(2,3)] len(4) [OF Cons.prems(2)]
  show ?case unfolding eff by (auto simp del: effect.simps missed.simps)
qed simp

lemma run_reads_had_value:
  assumes "shared_inv c n0 g (s, ts, us)" "run_steps store_step (s, ts, us) es = (s', ts', us')"
    "i < length us" "akind (us ! i) = Fetch" "got (aphase (us' ! i)) = Some b"
  shows "got (aphase (us ! i)) = Some b \<or>
    b \<noteq> None \<and> (\<exists>n\<le>length es. kv_get (fst (run_steps store_step (s, ts, us) (take n es))) (akey (us ! i)) = b)"
  using assms
proof (induction es arbitrary: s ts us)
  case (Cons e es)
  obtain s1 ts1 us1 where e: "store_step (s, ts, us) e = (s1, ts1, us1)" by (cases "store_step (s, ts, us) e")
  have k: "run_steps store_step (s, ts, us) [e] = (s1, ts1, us1)" by (simp only: run_steps.simps e)
  note len = run_length [OF k]
  have run: "run_steps store_step (s1, ts1, us1) es = (s', ts', us')"
    using Cons.prems(2) by (simp only: run_steps.simps e)
  have i: "i < length us1" "akind (us1 ! i) = Fetch" "akey (us1 ! i) = akey (us ! i)"
    using Cons.prems(3,4) len(2) len(4) [OF Cons.prems(3)] by simp_all
  have inv: "shared_inv c n0 g (s1, ts1, us1)" using store_step_keeps [OF Cons.prems(1), of e] by (simp only: e)
  from Cons.IH [OF inv run i(1,2) Cons.prems(5)]
  consider (later) n where "b \<noteq> None" "n \<le> length es"
      "kv_get (fst (run_steps store_step (s1, ts1, us1) (take n es))) (akey (us ! i)) = b"
    | (now) "got (aphase (us1 ! i)) = Some b" using i(3) by auto
  then show ?case
  proof cases
    case later
    have "run_steps store_step (s, ts, us) (take (Suc n) (e # es)) = run_steps store_step (s1, ts1, us1) (take n es)"
      by (simp only: take_Suc_Cons run_steps.simps e)
    with later show ?thesis by (intro disjI2 conjI exI [of _ "Suc n"]) simp_all
  next
    case now
    from read_had_value [OF Cons.prems(1) e Cons.prems(3,4) now] show ?thesis
      by (elim disjE) (auto intro!: exI [of _ 0])
  qed
qed simp

section \<open>Properties\<close>

definition start_store :: "kvstore \<Rightarrow> (kv_key \<times> bytes) list \<Rightarrow> (kv_key \<times> access) list \<Rightarrow> shared_store" where
  "start_store s calls accs = (s, map start_call calls, map start_access accs)"

text \<open>
  C2. Concurrent writes, reads and removals of one store are linearizable, with any faults: the
  contents are those of a map to which the calls have been applied one after the other, each at most
  once; a write that returned \<open>Ok\<close> is among them, and so is a removal, unless its test for the
  file failed, which makes it return \<open>Ok\<close> without having done anything; and a read that returned
  \<open>Ok\<close> has returned what the map held for its key at some moment of the run.
\<close>

theorem store_linearizable:
  assumes "store_inv s" "length calls < 2 ^ 64"
  shows "case run_store s calls accs sched of (s', ts, us) \<Rightarrow>
    kv_get s' = in_order (effects (start_store s calls accs) sched) (kv_get s) \<and>
    distinct (map fst (effects (start_store s calls accs) sched)) \<and>
    (\<forall>i<length calls. phase (ts ! i) = Finished (Ok ()) \<longrightarrow>
       (Write_turn i, fst (calls ! i), Some (snd (calls ! i))) \<in> set (effects (start_store s calls accs) sched)) \<and>
    (\<forall>i<length accs. snd (accs ! i) \<noteq> Fetch \<and> aphase (us ! i) = Returned (Ok None) \<longrightarrow>
       (Access_turn i, fst (accs ! i), None) \<in> set (effects (start_store s calls accs) sched) \<or>
       missed (start_store s calls accs) sched i) \<and>
    (\<forall>i<length accs. \<forall>b. snd (accs ! i) = Fetch \<and> aphase (us ! i) = Returned (Ok b) \<longrightarrow>
       b \<noteq> None \<and> (\<exists>n\<le>length sched. in_order (effects (start_store s calls accs) (take n sched)) (kv_get s) (fst (accs ! i)) = b))"
proof -
  let ?start = "start_store s calls accs"
  obtain s' ts us where r: "run_store s calls accs sched = (s', ts, us)" by (cases "run_store s calls accs sched")
  then have run: "run_steps store_step ?start sched = (s', ts, us)" by (simp add: run_store_def start_store_def)
  note inv = shared_inv_start [OF assms(1,2), of accs, folded start_store_def]
  have "kv_get s' = in_order (effects ?start sched) (kv_get s)"
    using run_is_effects [OF inv, of sched] run by (simp add: start_store_def)
  moreover have "distinct (map fst (effects ?start sched))" by (rule effects_distinct [OF inv])
  moreover have "(Write_turn i, fst (calls ! i), Some (snd (calls ! i))) \<in> set (effects ?start sched)"
    if "i < length calls" "phase (ts ! i) = Finished (Ok ())" for i
    using run_writes_had_effect [OF run [unfolded start_store_def], of i] that by (simp add: start_store_def start_call_def)
  moreover have "(Access_turn i, fst (accs ! i), None) \<in> set (effects ?start sched) \<or> missed ?start sched i"
    if "i < length accs" "snd (accs ! i) \<noteq> Fetch" "aphase (us ! i) = Returned (Ok None)" for i
    using run_removals_had_effect [OF run [unfolded start_store_def], of i] that
    by (simp add: start_store_def start_access_def)
  moreover have "b \<noteq> None \<and> (\<exists>n\<le>length sched. in_order (effects ?start (take n sched)) (kv_get s) (fst (accs ! i)) = b)"
    if "i < length accs" "snd (accs ! i) = Fetch" "aphase (us ! i) = Returned (Ok b)" for i b
    using run_reads_had_value [OF inv [unfolded start_store_def] run [unfolded start_store_def], of i b] that
      run_is_effects [OF inv, unfolded start_store_def]
    by (auto simp: start_store_def start_access_def)
  ultimately show ?thesis by (simp only: r prod.case) blast
qed

text \<open>In the sample run the read and the removal meet the first value, then come the two writes.\<close>

lemma sample_effects:
  "effects (start_store written_store (take 2 sample_calls) sample_accesses)
     (concat (replicate 16 sample_turns)) =
   [(Access_turn 1, manager_key, None), (Write_turn 0, manager_key, Some [1, 1]), (Write_turn 1, manager_key, Some [2, 2])]"
  by code_simp

theorem store_linearizable_witness:
  "case run_store written_store (take 2 sample_calls) sample_accesses (concat (replicate 16 sample_turns)) of
     (s', ts, us) \<Rightarrow> kv_get s' =
       in_order [(Access_turn 1, manager_key, None), (Write_turn 0, manager_key, Some [1, 1]),
         (Write_turn 1, manager_key, Some [2, 2])] (kv_get written_store)"
proof -
  have l: "length (take 2 sample_calls) < 2 ^ 64" by (simp add: sample_calls_def)
  show ?thesis
    using store_linearizable [OF written_store_inv l, of sample_accesses "concat (replicate 16 sample_turns)"]
    unfolding sample_effects by (simp only: case_prod_unfold)
qed

end
