(* ===== verification/Tasks.thy ===== *)
theory Tasks imports Cli_Display Node_Start "HOL-Library.Multiset" begin

text \<open>
  The tasks that \<open>start_ldk\<close> of \<open>src/src/main.rs\<close> spawns and leaves running: the
  listener for inbound connections, the connections it hands over, the polling of the chain, the sync
  of the wallet, the reconnection to channel peers and the node announcements; and the connections that
  the tasks of \<open>ConnectionNeeded\<close> events and the commands open beside them. They share the stop flag,
  which these connections do not read, and the process: a panic in any of them aborts it. What the network, the chain and the wallet
  answer is in the events; the steps of the tasks interleave in the order of the events.
\<close>

section \<open>State\<close>

datatype listener_state = Unbound | Listening | Left

text \<open>
  \<open>spawned\<close> are accepted connections whose own task has not run yet, \<open>inbound\<close> those given
  to \<open>setup_inbound\<close>, \<open>outbound\<close> the attempts of the reconnection task in their order,
  \<open>asked\<close> those of \<open>connect_peer_if_necessary\<close>, which the tasks of \<open>ConnectionNeeded\<close>
  events and the commands \<open>connectpeer\<close> and \<open>openchannel\<close> call.
\<close>

record ('w, 'c) tasks =
  synced_wallet :: "'w wallet"
  data_disk :: disk
  terminal :: string
  listening :: listener_state
  spawned :: "'c list"
  inbound :: "'c list"
  connected :: "bytes list"
  outbound :: "(bytes \<times> string) list"
  asked :: "(bytes \<times> string) list"
  reconnecting :: bool
  announcements :: "(bytes \<times> bytes \<times> string list) list"
  stop_listen_connect :: bool
  aborted :: "string option"

text \<open>What the tasks take from the start: the arguments, the peer file, the parser and the printer.\<close>

record tasks_env =
  node_args :: ldk_user_info
  peer_data_path :: path
  parse_peer :: "string \<Rightarrow> (peer_error, bytes \<times> string) outcome"
  debug_error :: "peer_error \<Rightarrow> string"

definition abort_node :: "string \<Rightarrow> ('w, 'c) tasks \<Rightarrow> ('w, 'c) tasks" where
  "abort_node m s = s\<lparr>aborted := Some m\<rparr>"

definition task_println :: "string \<Rightarrow> ('w, 'c) tasks \<Rightarrow> ('w, 'c) tasks" where
  "task_println t s = s\<lparr>terminal := terminal s @ t @ [newline]\<rparr>"

definition unwrap_message :: string where
  "unwrap_message = ''called `Result::unwrap()` on an `Err` value''"

section \<open>The tasks\<close>

text \<open>\<open>TcpListener::bind(..).await.expect(..)\<close>.\<close>

definition bind_listener :: "(string, unit) outcome \<Rightarrow> ('w, 'c) tasks \<Rightarrow> ('w, 'c) tasks" where
  "bind_listener r s =
     (if listening s \<noteq> Unbound then s
      else case expect_res ''Failed to bind to listen port - is something else already listening on it?'' r of
        Ok _ \<Rightarrow> s\<lparr>listening := Listening\<rparr>
      | Panic m \<Rightarrow> abort_node m s
      | Err _ \<Rightarrow> s)"

text \<open>
  One iteration of the listener: an error of \<open>accept\<close> is unwrapped; then the flag is read, and only
  an unset flag lets the connection have a task of its own.
\<close>

definition accept_connection :: "(string, 'c) outcome \<Rightarrow> ('w, 'c) tasks \<Rightarrow> ('w, 'c) tasks" where
  "accept_connection r s =
     (if listening s \<noteq> Listening then s
      else case r of
        Ok tcp_stream \<Rightarrow>
          if stop_listen_connect s then s\<lparr>listening := Left\<rparr> else s\<lparr>spawned := spawned s @ [tcp_stream]\<rparr>
      | _ \<Rightarrow> abort_node unwrap_message s)"

text \<open>The task of a connection: \<open>setup_inbound(.., tcp_stream.into_std().unwrap())\<close>.\<close>

definition inbound_task :: "'c \<Rightarrow> (string, unit) outcome \<Rightarrow> ('w, 'c) tasks \<Rightarrow> ('w, 'c) tasks" where
  "inbound_task tcp_stream into_std s =
     (if tcp_stream \<notin> set (spawned s) then s
      else let s' = s\<lparr>spawned := remove1 tcp_stream (spawned s)\<rparr> in
        case into_std of
          Ok _ \<Rightarrow> s'\<lparr>inbound := inbound s @ [tcp_stream]\<rparr>
        | _ \<Rightarrow> abort_node unwrap_message s')"

text \<open>\<open>spv_client.poll_best_tip().await.unwrap()\<close>.\<close>

definition poll_best_tip :: "(string, unit) outcome \<Rightarrow> ('w, 'c) tasks \<Rightarrow> ('w, 'c) tasks" where
  "poll_best_tip r s = (case r of Ok _ \<Rightarrow> s | _ \<Rightarrow> abort_node unwrap_message s)"

definition wallet_tick :: "('w, 'u) bdk \<Rightarrow> ('w, 'c) tasks \<Rightarrow> ('w, 'c) tasks" where
  "wallet_tick lib s =
     (case sync_wallet lib (synced_wallet s) of
        (r, w) \<Rightarrow>
          (let s' = s\<lparr>synced_wallet := w\<rparr> in
           case r of
             Ok _ \<Rightarrow> s'
           | Err e \<Rightarrow> task_println (''Failed to sync wallet: '' @ e) s'
           | Panic m \<Rightarrow> abort_node m s'))"

text \<open>
  One tick of the reconnection task. The flag is read before each peer; \<open>raised\<close> says before how many
  of the reads the end of \<open>start_ldk\<close> sets it, when it does so during this tick.
\<close>

definition flag_reads :: "bool \<Rightarrow> nat option \<Rightarrow> nat \<Rightarrow> bool list" where
  "flag_reads flag raised n =
     (if flag then replicate n True
      else case raised of None \<Rightarrow> [] | Some k \<Rightarrow> replicate k False @ replicate n True)"

definition reconnect_tick ::
  "tasks_env \<Rightarrow> (bytes \<Rightarrow> string \<Rightarrow> bool) \<Rightarrow> bytes list \<Rightarrow> nat option \<Rightarrow> ('w, 'c) tasks \<Rightarrow> ('w, 'c) tasks" where
  "reconnect_tick env connect chans raised s =
     (if \<not> reconnecting s then s
      else case read_channel_peer_data (parse_peer env) (peer_data_path env) (data_disk s) of
        (r, d) \<Rightarrow>
          (let s' = s\<lparr>data_disk := d\<rparr> in
           case r of
             Ok info \<Rightarrow>
               (case reconnect_pass connect info (flag_reads (stop_listen_connect s) raised (length chans)) chans (connected s) of
                  (attempts, ps, stopped) \<Rightarrow>
                    s'\<lparr>outbound := outbound s @ attempts, connected := ps, reconnecting := \<not> stopped,
                       stop_listen_connect := stop_listen_connect s \<or> raised \<noteq> None\<rparr>)
           | Err e \<Rightarrow> task_println (''ERROR: errored reading channel peer info from disk: '' @ debug_error env e) s'
           | Panic m \<Rightarrow> abort_node m s'))"

text \<open>
  One call of \<open>connect_peer_if_necessary\<close>, by a task of a \<open>ConnectionNeeded\<close> event or by a
  command; \<open>accepted\<close> is the outcome of \<open>do_connect_peer\<close>. Nothing on the way reads the flag.
\<close>

definition connect_call :: "bytes \<Rightarrow> string \<Rightarrow> bool \<Rightarrow> ('w, 'c) tasks \<Rightarrow> ('w, 'c) tasks" where
  "connect_call pubkey peer_addr accepted s =
     (if pubkey \<in> set (connected s) then s
      else let s' = s\<lparr>asked := asked s @ [(pubkey, peer_addr)]\<rparr> in
           if accepted then s'\<lparr>connected := pubkey # connected s\<rparr>
           else task_println ''ERROR: failed to connect to peer'' s')"

text \<open>The announcement, once there is a public channel; the colour of the node is black.\<close>

definition announce_tick :: "tasks_env \<Rightarrow> chan_info list \<Rightarrow> ('w, 'c) tasks \<Rightarrow> ('w, 'c) tasks" where
  "announce_tick env chans s =
     (if list_ex is_announced chans
      then s\<lparr>announcements := announcements s @
             [([0, 0, 0], ldk_announced_node_name (node_args env), ldk_announced_listen_addr (node_args env))]\<rparr>
      else s)"

text \<open>\<open>stop_listen_connect.store(true)\<close> and \<open>disconnect_all_peers\<close>, as \<open>start_ldk\<close> ends.\<close>

definition raise_stop :: "('w, 'c) tasks \<Rightarrow> ('w, 'c) tasks" where
  "raise_stop s = s\<lparr>stop_listen_connect := True, connected := []\<rparr>"

section \<open>Steps\<close>

datatype ('w, 'u, 'c) task_event =
    Bound "(string, unit) outcome"
  | Accepted "(string, 'c) outcome"
  | Inbound 'c "(string, unit) outcome"
  | Polled_tip "(string, unit) outcome"
  | Wallet_tick "('w, 'u) bdk"
  | Reconnect_tick "bytes \<Rightarrow> string \<Rightarrow> bool" "bytes list" "nat option"
  | Connect_call bytes string bool
  | Announce_tick "chan_info list"
  | Stop

fun enabled_task :: "tasks_env \<Rightarrow> ('w, 'c) tasks \<Rightarrow> ('w, 'u, 'c) task_event \<Rightarrow> ('w, 'c) tasks" where
  "enabled_task env s (Bound r) = bind_listener r s"
| "enabled_task env s (Accepted r) = accept_connection r s"
| "enabled_task env s (Inbound c r) = inbound_task c r s"
| "enabled_task env s (Polled_tip r) = poll_best_tip r s"
| "enabled_task env s (Wallet_tick lib) = wallet_tick lib s"
| "enabled_task env s (Reconnect_tick connect chans raised) = reconnect_tick env connect chans raised s"
| "enabled_task env s (Connect_call pubkey peer_addr accepted) = connect_call pubkey peer_addr accepted s"
| "enabled_task env s (Announce_tick chans) = announce_tick env chans s"
| "enabled_task env s Stop = raise_stop s"

definition task_step :: "tasks_env \<Rightarrow> ('w, 'c) tasks \<Rightarrow> ('w, 'u, 'c) task_event \<Rightarrow> ('w, 'c) tasks" where
  "task_step env s e = (if aborted s = None then enabled_task env s e else s)"

abbreviation run_tasks :: "tasks_env \<Rightarrow> ('w, 'c) tasks \<Rightarrow> ('w, 'u, 'c) task_event list \<Rightarrow> ('w, 'c) tasks" where
  "run_tasks env \<equiv> run_steps (task_step env)"

section \<open>After the stop\<close>

text \<open>What the tasks may still do once the flag is set, against the state \<open>s0\<close> at that time.\<close>

definition stopped_since :: "('w, 'c) tasks \<Rightarrow> ('w, 'c) tasks \<Rightarrow> bool" where
  "stopped_since s0 s \<longleftrightarrow>
     stop_listen_connect s \<and> outbound s = outbound s0 \<and>
     mset (inbound s) + mset (spawned s) \<subseteq># mset (inbound s0) + mset (spawned s0)"

lemma reconnect_pass_stopped:
  "length chans \<le> n \<Longrightarrow> fst (reconnect_pass connect info (replicate n True) chans ps) = [] \<and>
     fst (snd (reconnect_pass connect info (replicate n True) chans ps)) = ps"
  by (induction connect info "replicate n True" chans ps arbitrary: n rule: reconnect_pass.induct) auto

lemma task_fields [simp]:
  "aborted (abort_node m s) = Some m" "aborted (task_println t s) = aborted s"
  "stopped_since s0 (abort_node m s) = stopped_since s0 s" "stopped_since s0 (task_println t s) = stopped_since s0 s"
  "stopped_since s0 (s\<lparr>data_disk := d\<rparr>) = stopped_since s0 s"
  "announcements (abort_node m s) = announcements s" "announcements (task_println t s) = announcements s"
  "data_disk (abort_node m s) = data_disk s" "data_disk (task_println t s) = data_disk s"
  by (simp_all add: abort_node_def task_println_def stopped_since_def)

lemma stopped_reconnect:
  assumes "stopped_since s0 s"
  shows "stopped_since s0 (reconnect_tick env connect chans raised s)"
proof -
  let ?pass = "\<lambda>info. reconnect_pass connect info (replicate (length chans) True) chans (connected s)"
  have "?pass info = (attempts, ps, stopped) \<Longrightarrow> attempts = []" for info attempts ps stopped
    using reconnect_pass_stopped [of chans "length chans" connect info "connected s"] by simp
  with assms show ?thesis
    by (auto simp: reconnect_tick_def flag_reads_def Let_def stopped_since_def abort_node_def task_println_def
        split: outcome.splits prod.splits)
qed

lemma mset_remove1_member: "c \<in> set cs \<Longrightarrow> mset cs = add_mset c (mset (remove1 c cs))"
  by simp

lemma stopped_inbound:
  assumes st: "stopped_since s0 s"
  shows "stopped_since s0 (inbound_task c r s)"
proof (cases "c \<in> set (spawned s)")
  case True
  note m = mset_remove1_member [OF True]
  have "mset (inbound s) + mset (remove1 c (spawned s)) \<subseteq># mset (inbound s) + mset (spawned s)"
    unfolding m by simp
  moreover have "mset (inbound s) + mset (spawned s) \<subseteq># mset (inbound s0) + mset (spawned s0)"
    using st by (simp add: stopped_since_def)
  ultimately have l: "mset (inbound s) + mset (remove1 c (spawned s)) \<subseteq># mset (inbound s0) + mset (spawned s0)"
    by (rule subset_mset.order_trans)
  have "mset (inbound s @ [c]) + mset (remove1 c (spawned s)) \<subseteq># mset (inbound s0) + mset (spawned s0)"
    using st unfolding stopped_since_def m by simp
  with l st show ?thesis
    by (cases r) (simp_all add: inbound_task_def True Let_def stopped_since_def abort_node_def)
qed (simp add: inbound_task_def st)

lemma stopped_other:
  "stopped_since s0 s \<Longrightarrow> stopped_since s0 (wallet_tick lib s)"
  "stopped_since s0 s \<Longrightarrow> stopped_since s0 (bind_listener q s)"
  "stopped_since s0 s \<Longrightarrow> stopped_since s0 (accept_connection r s)"
  "stopped_since s0 s \<Longrightarrow> stopped_since s0 (poll_best_tip p s)"
  "stopped_since s0 s \<Longrightarrow> stopped_since s0 (announce_tick env chans s)"
  "stopped_since s0 s \<Longrightarrow> stopped_since s0 (raise_stop s)"
  "stopped_since s0 s \<Longrightarrow> stopped_since s0 (connect_call k a ok s)"
  by (auto simp: connect_call_def wallet_tick_def bind_listener_def accept_connection_def poll_best_tip_def announce_tick_def
      raise_stop_def Let_def stopped_since_def abort_node_def task_println_def split: prod.splits outcome.splits)

interpretation stopping: invariant_system "task_step env" "stopped_since s0" for env s0
proof
  fix s :: "('a, 'b) tasks" and e :: "('a, 'c, 'b) task_event"
  assume "stopped_since s0 s"
  then show "stopped_since s0 (task_step env s e)"
    by (cases e) (simp_all add: task_step_def stopped_reconnect stopped_inbound stopped_other)
qed

section \<open>What ends the node\<close>

text \<open>
  Answers with which a task goes on: errors of the wallet's sync included, as long as the libraries do
  not panic themselves.
\<close>

fun tolerated :: "('w, 'u, 'c) task_event \<Rightarrow> bool" where
  "tolerated (Bound r) = is_ok r"
| "tolerated (Accepted r) = is_ok r"
| "tolerated (Inbound c r) = is_ok r"
| "tolerated (Polled_tip r) = is_ok r"
| "tolerated (Wallet_tick lib) =
     (\<forall>w u d. \<not> is_panic (client_sync lib w) \<and> \<not> is_panic (apply_update lib u w) \<and> \<not> is_panic (persist lib w d))"
| "tolerated _ = True"

text \<open>
  The peer file can be read, or is missing, and its lines are UTF-8; whether they parse does not matter.
\<close>

definition peer_file_readable :: "tasks_env \<Rightarrow> disk \<Rightarrow> bool" where
  "peer_file_readable env d \<longleftrightarrow>
     faults d = [] \<and> lookup (cur d) (peer_data_path env) \<noteq> Some Dir \<and>
     list_all (\<lambda>l. valid_utf8 (as_bytes l)) (peer_lines d (peer_data_path env)) \<and> (\<forall>l. \<not> is_panic (parse_peer env l))"

lemma insert_peers_no_panic:
  "(\<And>l. \<not> is_panic (parse l)) \<Longrightarrow> list_all (\<lambda>l. valid_utf8 (as_bytes l)) ls \<Longrightarrow> \<not> is_panic (insert_peers parse m ls)"
proof (induction parse m ls rule: insert_peers.induct)
  case (2 parse m l ls)
  show ?case
  proof (cases "parse l")
    case (Panic x)
    with "2.prems"(1) [of l] show ?thesis by simp
  qed (use 2 in \<open>auto split: prod.splits\<close>)
qed simp

lemma readable_read:
  assumes "peer_file_readable env d" "read_channel_peer_data (parse_peer env) (peer_data_path env) d = (r, d')"
  shows "\<not> is_panic r \<and> peer_file_readable env d'"
proof -
  let ?p = "peer_data_path env"
  have d: "faults d = []" "lookup (cur d) ?p \<noteq> Some Dir" "list_all (\<lambda>l. valid_utf8 (as_bytes l)) (peer_lines d ?p)"
    "\<And>l. \<not> is_panic (parse_peer env l)"
    using assms(1) by (simp_all add: peer_file_readable_def)
  have "\<not> is_panic r"
    using read_channel_peer_data_lines [OF d(1,2), of "parse_peer env"] insert_peers_no_panic [OF d(4,3), where m = "[]"] assms(2)
    by simp
  moreover have "faults d' = [] \<and> cur d' = cur d"
    using assms(2) d(1,2)
    by (auto simp: read_channel_peer_data_def path_exists_def fs_stat_def sys_no_fault fs_open_def fs_read_def
        split: option.splits node.splits)
  ultimately show ?thesis using d by (simp add: peer_file_readable_def peer_lines_def)
qed

lemma sync_wallet_no_panic: "tolerated (Wallet_tick lib :: ('w, 'u, 'c) task_event) \<Longrightarrow> \<not> is_panic (fst (sync_wallet lib w))"
  by (auto simp: sync_wallet_def apply_and_persist_def bind_st_def lift_st_def split: outcome.splits prod.splits)
    (metis is_panic.simps(1))+

lemma tolerated_step:
  fixes s :: "('w, 'c) tasks" and e :: "('w, 'u, 'c) task_event"
  assumes "aborted s = None" "peer_file_readable env (data_disk s)" "tolerated e"
  shows "aborted (task_step env s e) = None \<and> peer_file_readable env (data_disk (task_step env s e))"
proof (cases e)
  case (Wallet_tick lib)
  with sync_wallet_no_panic [of lib "synced_wallet s"] assms show ?thesis
    by (auto simp: task_step_def wallet_tick_def Let_def split: prod.splits outcome.splits)
next
  case (Reconnect_tick connect chans raised)
  with assms show ?thesis
    by (auto simp: task_step_def reconnect_tick_def Let_def dest: readable_read split: prod.splits outcome.splits)
qed (use assms in \<open>auto simp: task_step_def bind_listener_def accept_connection_def inbound_task_def poll_best_tip_def
      connect_call_def announce_tick_def raise_stop_def Let_def is_ok_iff split: outcome.splits\<close>)

lemma aborted_stays: "aborted s \<noteq> None \<Longrightarrow> run_tasks env s evs = s"
  by (induction evs) (auto simp: task_step_def)

section \<open>Properties\<close>


definition sample_args :: ldk_user_info where
  "sample_args = \<lparr>bitcoind_rpc_username = ''u'', bitcoind_rpc_password = ''p'', bitcoind_rpc_port = 18443,
     bitcoind_rpc_host = ''h'', ldk_storage_dir_path = ''d'', ldk_peer_listening_port = 9735,
     ldk_announced_listen_addr = [''1.2.3.4:9735''], ldk_announced_node_name = [97], node_network = Regtest\<rparr>"

definition sample_tasks_env :: tasks_env where
  "sample_tasks_env = \<lparr>node_args = sample_args, peer_data_path = [''channel_peer_data''],
     parse_peer = (\<lambda>l. Ok ([1], ''a'')), debug_error = (\<lambda>e. ''parse'')\<rparr>"

definition sample_tasks :: "(nat, nat) tasks" where
  "sample_tasks = \<lparr>synced_wallet = \<lparr>inner = 0, path_to_db = None\<rparr>, data_disk = boot_disk (boot_on empty_tree []),
     terminal = [], listening = Listening, spawned = [], inbound = [], connected = [], outbound = [], asked = [],
     reconnecting = True, announcements = [], stop_listen_connect = False, aborted = None\<rparr>"

definition public_channel :: "bool \<Rightarrow> chan_info" where
  "public_channel b = \<lparr>chan_id = [1], funding_txid = None, counterparty = [2], short_channel_id = None,
     is_channel_ready = True, channel_value_satoshis = 9, outbound_capacity_msat = 0, inbound_capacity_msat = 0,
     is_usable = True, is_announced = b\<rparr>"

text \<open>The flag does not keep a \<open>ConnectionNeeded\<close> task from dialling a peer that is not connected.\<close>

lemma connect_calls_ignore_stop:
  assumes "aborted s = None" "k \<notin> set (connected s)"
  shows "asked (task_step env s (Connect_call k a ok)) = asked s @ [(k, a)]"
    "ok \<Longrightarrow> k \<in> set (connected (task_step env s (Connect_call k a ok)))"
  using assms by (simp_all add: task_step_def connect_call_def task_println_def Let_def)


text \<open>
  C8. Which errors end the node. With a peer file that can be read and whose lines are UTF-8, and as
  long as the answers of the listener and of the chain are not errors, failed syncs of the wallet and
  peer lines that do not parse leave the node running; but one failed poll of the chain, at any time,
  aborts it for good. A peer line that is not UTF-8 aborts it too (\<open>undecodable_peer_line_aborts\<close>).
\<close>

theorem chain_errors_end_node:
  fixes s :: "('w, 'c) tasks" and evs :: "('w, 'u, 'c) task_event list"
  assumes "aborted s = None" "peer_file_readable env (data_disk s)"
  shows "(list_all tolerated evs \<longrightarrow> aborted (run_tasks env s evs) = None) \<and>
    (Polled_tip (Err m) \<in> set evs \<longrightarrow> aborted (run_tasks env s evs) \<noteq> None)"
proof
  show "list_all tolerated evs \<longrightarrow> aborted (run_tasks env s evs) = None"
    using assms by (induction evs arbitrary: s) (auto dest: tolerated_step)
  show "Polled_tip (Err m) \<in> set evs \<longrightarrow> aborted (run_tasks env s evs) \<noteq> None"
  proof
    assume "Polled_tip (Err m) \<in> set evs"
    then obtain xs ys where e: "evs = xs @ Polled_tip (Err m) # ys" by (meson split_list)
    let ?u = "task_step env (run_tasks env s xs) (Polled_tip (Err m) :: ('w, 'u, 'c) task_event)"
    have "aborted ?u \<noteq> None" by (simp add: task_step_def poll_best_tip_def)
    then show "aborted (run_tasks env s evs) \<noteq> None"
      using aborted_stays [of ?u env ys] by (simp add: e run_steps_append)
  qed
qed

theorem chain_errors_end_node_witness:
  "aborted (run_tasks sample_tasks_env sample_tasks
     [Wallet_tick (sample_bdk\<lparr>client_sync := (\<lambda>w. Err ''timeout'')\<rparr>), Accepted (Ok (3 :: nat))]) = None \<and>
   terminal (run_tasks sample_tasks_env sample_tasks
     [Wallet_tick (sample_bdk\<lparr>client_sync := (\<lambda>w. Err ''timeout'')\<rparr>), Accepted (Ok (3 :: nat))]) =
       ''Failed to sync wallet: timeout'' @ [newline] \<and>
   aborted (run_tasks sample_tasks_env sample_tasks
     ([Polled_tip (Err ''timeout''), Polled_tip (Ok ())] :: (nat, nat, nat) task_event list)) \<noteq> None"
proof (intro conjI)
  have p: "aborted sample_tasks = None" "peer_file_readable sample_tasks_env (data_disk sample_tasks)"
    by (simp_all add: sample_tasks_def peer_file_readable_def sample_tasks_env_def boot_on_def empty_tree_def lookup_def
        peer_lines_def content_at_def)
  let ?evs = "[Wallet_tick (sample_bdk\<lparr>client_sync := (\<lambda>w. Err ''timeout'')\<rparr>), Accepted (Ok (3 :: nat))]"
  have "list_all tolerated ?evs" by (simp add: sample_bdk_def)
  then show "aborted (run_tasks sample_tasks_env sample_tasks ?evs) = None"
    using chain_errors_end_node [OF p, of ?evs] by blast
  show "terminal (run_tasks sample_tasks_env sample_tasks ?evs) = ''Failed to sync wallet: timeout'' @ [newline]"
    by code_simp
  show "aborted (run_tasks sample_tasks_env sample_tasks
     ([Polled_tip (Err ''timeout''), Polled_tip (Ok ())] :: (nat, nat, nat) task_event list)) \<noteq> None"
    using chain_errors_end_node [OF p, of "[Polled_tip (Err ''timeout''), Polled_tip (Ok ())] :: (nat, nat, nat) task_event list"
        "''timeout''"] by simp
qed

text \<open>
  The first line of the peer file that does not parse, or is no text, decides: \<open>line.unwrap()\<close> turns
  one that is not UTF-8 into a panic, and the next tick of the reconnection task ends the node.
\<close>

theorem undecodable_peer_line_aborts:
  assumes "aborted s = None" "reconnecting s" "faults (data_disk s) = []"
    and "peer_lines (data_disk s) (peer_data_path env) = good @ line # others"
    and "insert_peers (parse_peer env) [] good = Ok m" "\<not> valid_utf8 (as_bytes line)"
  shows "aborted (task_step env s (Reconnect_tick connect chans raised)) \<noteq> None"
proof -
  let ?d = "data_disk s" and ?p = "peer_data_path env"
  have "lookup (cur ?d) ?p \<noteq> Some Dir"
    using assms(4) by (auto simp: peer_lines_def content_at_def)
  from read_channel_peer_data_lines [OF assms(3) this, of "parse_peer env"] assms(4-6)
  obtain m d where r: "read_channel_peer_data (parse_peer env) ?p ?d = (Panic m, d)"
    by (cases "read_channel_peer_data (parse_peer env) ?p ?d") (auto simp: insert_peers_append)
  with assms(1,2) show ?thesis by (simp add: task_step_def reconnect_tick_def Let_def)
qed

definition bad_peer_disk :: disk where
  "bad_peer_disk = \<lparr>cur = empty_tree\<lparr>ents := [([''channel_peer_data''], File 0)], contents := [(0, [0x61, 0xFF, 10])],
     next_ino := 1\<rparr>, faults = [], hist = []\<rparr>"

theorem undecodable_peer_line_aborts_witness:
  "aborted (task_step sample_tasks_env (sample_tasks\<lparr>data_disk := bad_peer_disk\<rparr>)
     (Reconnect_tick (\<lambda>k a. True) [] None :: (nat, nat, nat) task_event)) \<noteq> None"
proof (rule undecodable_peer_line_aborts [where good = "[]" and line = "[CHR 0x61, CHR 0xFF]" and others = "[]"])
  show "peer_lines (data_disk (sample_tasks\<lparr>data_disk := bad_peer_disk\<rparr>)) (peer_data_path sample_tasks_env) =
      [] @ [CHR 0x61, CHR 0xFF] # []" "\<not> valid_utf8 (as_bytes [CHR 0x61, CHR 0xFF])"
    "faults (data_disk (sample_tasks\<lparr>data_disk := bad_peer_disk\<rparr>)) = []" by code_simp+
qed (simp_all add: sample_tasks_def)

fun announces :: "('w, 'u, 'c) task_event \<Rightarrow> bool" where
  "announces (Announce_tick chans) = list_ex is_announced chans"
| "announces _ = False"

lemma announcements_step:
  "aborted (task_step env s e) = None \<Longrightarrow>
     announcements (task_step env s e) = announcements s @ (if announces e
       then [([0, 0, 0], ldk_announced_node_name (node_args env), ldk_announced_listen_addr (node_args env))] else [])"
  by (cases e) (auto simp: task_step_def bind_listener_def accept_connection_def inbound_task_def poll_best_tip_def
      wallet_tick_def reconnect_tick_def announce_tick_def raise_stop_def connect_call_def Let_def split: outcome.splits prod.splits)

text \<open>
  Announcements. A run of the tasks that is not aborted announces the node exactly once for each
  tick at which some channel is public, each time under the name and the addresses of the arguments.
\<close>

theorem announcements_exact:
  assumes "aborted (run_tasks env s evs) = None"
  shows "announcements (run_tasks env s evs) = announcements s @ replicate (length (filter announces evs))
    ([0, 0, 0], ldk_announced_node_name (node_args env), ldk_announced_listen_addr (node_args env))"
  using assms
proof (induction evs arbitrary: s)
  case (Cons e evs)
  then have "aborted (run_tasks env (task_step env s e) evs) = None" by simp
  then have "aborted (task_step env s e) = None" by (metis aborted_stays)
  from announcements_step [OF this] Cons show ?case by simp
qed simp

theorem announcements_exact_witness:
  "announcements (run_tasks sample_tasks_env sample_tasks
     ([Announce_tick [public_channel False], Announce_tick [public_channel False, public_channel True]] ::
       (nat, nat, nat) task_event list)) = [([0, 0, 0], [97], [''1.2.3.4:9735''])]"
proof -
  let ?evs = "[Announce_tick [public_channel False], Announce_tick [public_channel False, public_channel True]] ::
       (nat, nat, nat) task_event list"
  have "aborted (run_tasks sample_tasks_env sample_tasks ?evs) = None" by code_simp
  from announcements_exact [OF this] show ?thesis
    by (simp add: sample_tasks_env_def sample_args_def sample_tasks_def public_channel_def)
qed

end
