(* ===== verification/Logger.thy ===== *)
theory Logger imports Kept_Records "HOL-Library.Sublist" begin

text \<open>
  \<open>src/src/logger.rs\<close>: the logger that every component and the library hold. A record is one
  line, appended to \<open>logs/logs.txt\<close> under the data directory. The time, as the clock prints it, is
  an argument; the texts of the record are what its \<open>to_string\<close> gives. The state is the disk that
  the node's stores are on.
\<close>

section \<open>The logger\<close>

record filesystem_logger =
  logger_dir :: string

record log_record =
  level :: string
  module_path :: string
  line :: u32
  log_args :: string

text \<open>\<open>unwrap\<close> of what a call of the system returned.\<close>

definition unwrap_io :: "'a io \<Rightarrow> (disk, unit, 'a) st" where
  "unwrap_io m d = (case m d of (r, d') \<Rightarrow> (unwrap_res r, d'))"

definition logger_new :: "string \<Rightarrow> (disk, unit, filesystem_logger) st" where
  "logger_new dir =
     (let logs_path = dir @ ''/logs'' in
      bind_st (unwrap_io (create_dir_all (components logs_path))) (\<lambda>_.
      return_st \<lparr>logger_dir = logs_path\<rparr>))"

text \<open>The format \<open>{:<5}\<close>: padded with blanks on the right, never cut.\<close>

definition pad_right :: "nat \<Rightarrow> string \<Rightarrow> string" where
  "pad_right n t = t @ replicate (n - length t) CHR '' ''"

definition log_text :: "string \<Rightarrow> log_record \<Rightarrow> string" where
  "log_text now r =
     now @ '' '' @ pad_right 5 (level r) @ '' ['' @ module_path r @ '':'' @ show_nat (unat (line r)) @ ''] '' @
     log_args r @ [newline]"

definition logs_file_path :: "filesystem_logger \<Rightarrow> path" where
  "logs_file_path lg = components (logger_dir lg @ ''/logs.txt'')"

definition log :: "filesystem_logger \<Rightarrow> string \<Rightarrow> log_record \<Rightarrow> (disk, unit, unit) st" where
  "log lg now r =
     bind_st (unwrap_io (sys (fs_open_append (logs_file_path lg)))) (\<lambda>file.
     unwrap_io (sys_write file (as_bytes (log_text now r))))"

section \<open>What one record does\<close>

definition old_text :: "path \<Rightarrow> disk \<Rightarrow> bytes" where
  "old_text p d = (case content_at (cur d) p of None \<Rightarrow> [] | Some b \<Rightarrow> b)"

text \<open>The file has grown by a beginning of the text, and nothing else has changed.\<close>

definition grown :: "path \<Rightarrow> bytes \<Rightarrow> disk \<Rightarrow> disk \<Rightarrow> bool" where
  "grown p buf d d' \<longleftrightarrow>
     keeps_but p (content_at (cur d)) d' \<and>
     (content_at (cur d') p = content_at (cur d) p \<or> (\<exists>n. content_at (cur d') p = Some (old_text p d @ take n buf)))"

lemma write_grows:
  assumes "keeps_but p g d" "has_file p i d" "data_of (cur d) i = old" "sys_write i buf d = (r, d')"
  shows "keeps_but p g d' \<and> (\<exists>n. content_at (cur d') p = Some (old @ take n buf)) \<and>
    (r = Ok () \<longrightarrow> content_at (cur d') p = Some (old @ buf)) \<and> \<not> is_panic r"
proof -
  have k: "keeps_but p g d'" using assms(1,2,4)
    by (auto simp: sys_write_def perform_def fs_write_def keeps_but_put_data split: option.splits)
  obtain n where c: "cur d' = put_data i (old @ take n buf) (cur d)" "r = Ok () \<longrightarrow> n = length buf" "\<not> is_panic r"
  proof (cases "next_fault d")
    case None
    then show ?thesis using assms(3,4) that [of "length buf"] by (auto simp: sys_write_def perform_def fs_write_def)
  next
    case (Some en)
    then show ?thesis using assms(3,4) that [of "snd en"]
      by (auto simp: sys_write_def perform_def fs_write_def split: prod.splits)
  qed
  then have "content_at (cur d') p = Some (old @ take n buf)"
    using assms(2) by (simp add: has_file_def content_at_def fs_simps)
  then show ?thesis using k c by auto
qed

lemma log_effect:
  assumes "fs_wf (cur d)" "log lg now r d = (res, d')"
  shows "grown (logs_file_path lg) (as_bytes (log_text now r)) d d' \<and>
    (res = Ok () \<longrightarrow> content_at (cur d') (logs_file_path lg) =
       Some (old_text (logs_file_path lg) d @ as_bytes (log_text now r))) \<and>
    (res = Ok () \<or> is_panic res)"
proof -
  let ?p = "logs_file_path lg" and ?buf = "as_bytes (log_text now r)"
  have k: "keeps_but ?p (content_at (cur d)) d" using assms(1) by (simp add: keeps_but_def)
  obtain q d1 where o: "sys (fs_open_append ?p) d = (q, d1)" by fastforce
  show ?thesis
  proof (cases q)
    case (Ok i)
    obtain w d2 where w: "sys_write i ?buf d1 = (w, d2)" by fastforce
    have f: "fs_open_append ?p (cur d) = (Ok i, cur d1)"
      using o Ok by (auto simp: sys_def perform_def split: option.splits prod.splits)
    note O = open_append_Ok [OF assms(1) f]
    have "keeps_but ?p (content_at (cur d)) d1" "has_file ?p i d1" "data_of (cur d1) i = old_text ?p d"
      using O by (auto simp: keeps_but_def has_file_def old_text_def content_at_def)
    note W = write_grows [OF this w]
    have "res = unwrap_res w" "d' = d2"
      using assms(2) o w Ok by (auto simp: log_def bind_st_def unwrap_io_def)
    moreover have "grown ?p ?buf d d2" using W by (auto simp only: grown_def)
    ultimately show ?thesis using W by (cases w) auto
  next
    case (Err e)
    then have "cur d1 = cur d" using o open_append_fail [of ?p "cur d"]
      by (auto simp: sys_def perform_def split: option.splits prod.splits)
    then show ?thesis using assms o Err by (auto simp: log_def bind_st_def unwrap_io_def grown_def keeps_but_def)
  next
    case (Panic m)
    then have "cur d1 = cur d" using o open_append_fail [of ?p "cur d"]
      by (auto simp: sys_def perform_def split: option.splits prod.splits)
    then show ?thesis using assms o Panic by (auto simp: log_def bind_st_def unwrap_io_def grown_def keeps_but_def)
  qed
qed

section \<open>Properties\<close>

text \<open>
  C9. The log is only appended to. A record changes no other file of the disk, and of its own file it
  keeps all that was there and adds its line, or after a failure a beginning of it; and any failure is a
  panic: a full disk ends the node at the next record, whatever its level.
\<close>

theorem log_append_only:
  assumes "fs_wf (cur d)" "log lg now r d = (res, d')"
  shows "(\<forall>q. q \<noteq> logs_file_path lg \<longrightarrow> content_at (cur d') q = content_at (cur d) q) \<and>
    prefix (old_text (logs_file_path lg) d) (old_text (logs_file_path lg) d') \<and>
    (if res = Ok () then old_text (logs_file_path lg) d' = old_text (logs_file_path lg) d @ as_bytes (log_text now r)
     else is_panic res)"
  using log_effect [OF assms] by (auto simp: grown_def keeps_but_def old_text_def)

definition sample_logger :: filesystem_logger where
  "sample_logger = \<lparr>logger_dir = ''logs''\<rparr>"

definition sample_record :: log_record where
  "sample_record = \<lparr>level = ''INFO'', module_path = ''m'', line = 7, log_args = ''up''\<rparr>"

definition log_disk :: "(io_error \<times> nat) option list \<Rightarrow> disk" where
  "log_disk fl = \<lparr>cur = \<lparr>ents = [([''logs''], Dir)], durable = [([''logs''], Dir)], pending = [], contents = [],
     unsynced = [], next_ino = 0\<rparr>, faults = fl, hist = []\<rparr>"

theorem log_append_only_witness:
  "(let d = snd (log sample_logger ''12:00'' sample_record (log_disk [])) in
    old_text [''logs'', ''logs.txt''] d = as_bytes (''12:00 INFO  [m:7] up'' @ [newline])) \<and>
   is_panic (fst (log sample_logger ''12:00'' sample_record (log_disk [None, Some (OtherError ''ENOSPC'', 3)])))"
proof -
  have wf: "fs_wf (cur (log_disk fl))" for fl by (auto simp: log_disk_def fs_wf_def lookup_def)
  have p: "logs_file_path sample_logger = [''logs'', ''logs.txt'']" by code_simp
  have ok: "fst (log sample_logger ''12:00'' sample_record (log_disk [])) = Ok ()" by code_simp
  have old: "old_text [''logs'', ''logs.txt''] (log_disk []) = []" by code_simp
  have text_eq: "log_text ''12:00'' sample_record = ''12:00 INFO  [m:7] up'' @ [newline]" by code_simp
  have bad: "fst (log sample_logger ''12:00'' sample_record (log_disk [None, Some (OtherError ''ENOSPC'', 3)])) \<noteq> Ok ()"
    by code_simp
  note L = log_append_only [OF wf surjective_pairing, where lg = sample_logger and now = "''12:00''" and r = sample_record]
  from L [of "[]"] ok old p text_eq L [of "[None, Some (OtherError ''ENOSPC'', 3)]"] bad
  show ?thesis by (simp add: Let_def)
qed

end
