(* ===== verification/Solutions_Client.thy ===== *)
theory Solutions_Client imports Startup Wallet Hex_Utils begin

text \<open>
  \<open>src/src/solutions/bitcoind_client.rs\<close>: the reference client of the workshop, which is also a
  wallet. Unlike \<open>src/src/bitcoind_client.rs\<close> it checks the connection with a first call, submits
  several transactions as one package, and signs through bitcoind. bitcoind answers each call as a
  function of the calls made before; the parsers of \<open>bitcoin\<close> are in \<open>solution_lib\<close>.
\<close>

section \<open>Calls\<close>

text \<open>An \<open>io::Error\<close> has an inner error, whose text it shows, or it stands for an error of the system.\<close>

datatype rpc_error = Inner string | Os_error nat

type_synonym rpc_calls = "(string \<times> json list) list"
type_synonym bitcoind = "rpc_calls \<Rightarrow> string \<Rightarrow> json list \<Rightarrow> (rpc_error, json) outcome"

record solution_state =
  made :: rpc_calls
  logged :: "string list"
  printed :: string

type_synonym 'a solution = "(solution_state, rpc_error, 'a) st"

fun parsed :: "'a converted \<Rightarrow> (rpc_error, 'a) outcome" where
  "parsed (Ok a) = Ok a"
| "parsed (Err (InvalidData m)) = Err (Inner m)"
| "parsed (Panic m) = Panic m"

text \<open>\<open>RpcClient::call_method::<T>\<close>: the request, then the conversion of its answer.\<close>

definition call_method :: "bitcoind \<Rightarrow> (json \<Rightarrow> 'a converted) \<Rightarrow> string \<Rightarrow> json list \<Rightarrow> 'a solution" where
  "call_method d try_into name params s =
     (bind_out (d (made s) name params) (\<lambda>j. parsed (try_into j)), s\<lparr>made := made s @ [(name, params)]\<rparr>)"

definition unwrap_call :: "'a solution \<Rightarrow> 'a solution" where
  "unwrap_call m s = (case m s of (r, s') \<Rightarrow> (unwrap_res r, s'))"

record solution_lib =
  btc :: bitcoin_parsers
  parse_address :: "string \<Rightarrow> string option"
  on_network :: "string \<Rightarrow> string \<Rightarrow> bool"
  script_pubkey :: "string \<Rightarrow> bytes"
  witness_program :: "string \<Rightarrow> (nat \<times> bytes) option"
  valid_x_only :: "bytes \<Rightarrow> bool"
  utxo_v0_p2wpkh :: "bytes \<times> u32 \<Rightarrow> u64 \<Rightarrow> bytes \<Rightarrow> utxo"
  decode_tx :: "bytes \<Rightarrow> bytes option"

section \<open>The constructor\<close>

definition solution_new ::
  "solution_lib \<Rightarrow> bitcoind \<Rightarrow> (string \<Rightarrow> string) \<Rightarrow> (string \<Rightarrow> string \<times> u16 \<Rightarrow> (rpc_error, 'rpc) outcome) \<Rightarrow>
   string \<Rightarrow> u16 \<Rightarrow> string \<Rightarrow> string \<Rightarrow> string \<Rightarrow> 'rpc bitcoind_client solution" where
  "solution_new lib d base64_encode rpc_new hst prt user password net =
     (let http_endpoint = (hst, prt);
          creds = rpc_credentials base64_encode user password
      in bind_st (lift_st (rpc_new creds http_endpoint)) (\<lambda>rpc.
         bind_st (\<lambda>s. case call_method d (try_into_blockchain_info (btc lib)) ''getblockchaininfo'' [] s of
             (Err e, s') \<Rightarrow> (Err (Inner
               ''Failed to make initial call to bitcoind - please check your RPC user/password and access settings''), s')
           | (r, s') \<Rightarrow> (r, s')) (\<lambda>dummy.
         return_st \<lparr>bitcoind_rpc_client = rpc, network = net, host = hst, port = prt,
           rpc_user = user, rpc_password = password, fee_table = initial_fees\<rparr>)))"

section \<open>Polling\<close>

text \<open>One iteration: five requests, each with its fallback, then eight stores.\<close>

definition fee_or :: "u32 \<Rightarrow> fee_response \<Rightarrow> u32" where
  "fee_or dflt resp = (case feerate_sat_per_kw resp of Some feerate \<Rightarrow> max feerate MIN_FEERATE | None \<Rightarrow> dflt)"

definition smart_fee :: "bitcoind \<Rightarrow> u64 \<Rightarrow> string \<Rightarrow> fee_response solution" where
  "smart_fee d conf_target mode =
     unwrap_call (call_method d try_into_fee_response ''estimatesmartfee'' [JNumber (PosInt conf_target), JString mode])"

definition solution_estimates :: "bitcoind \<Rightarrow> estimates solution" where
  "solution_estimates d =
     bind_st (unwrap_call (call_method d try_into_mempool_min_fee_response ''getmempoolinfo'' [])) (\<lambda>mempoolmin.
     bind_st (smart_fee d 144 ''ECONOMICAL'') (\<lambda>background.
     bind_st (smart_fee d 18 ''ECONOMICAL'') (\<lambda>normal.
     bind_st (smart_fee d 6 ''CONSERVATIVE'') (\<lambda>high_prio.
     bind_st (smart_fee d 2 ''CONSERVATIVE'') (\<lambda>very_high_prio.
     return_st \<lparr>mempoolmin_estimate = fee_or MIN_FEERATE mempoolmin, background_estimate = fee_or MIN_FEERATE background,
       normal_estimate = fee_or 2000 normal, high_prio_estimate = fee_or 5000 high_prio,
       very_high_prio_estimate = fee_or 50000 very_high_prio\<rparr>)))))"

definition solution_stores :: "bool \<Rightarrow> estimates \<Rightarrow> fees \<Rightarrow> (unit, unit) outcome \<times> fees" where
  "solution_stores overflow_checks e fees =
     apply_stores fees
       [(MaximumFeeEstimate, Ok (very_high_prio_estimate e)),
        (UrgentOnChainSweep, Ok (high_prio_estimate e)),
        (MinAllowedAnchorChannelRemoteFee, Ok (mempoolmin_estimate e)),
        (MinAllowedNonAnchorChannelRemoteFee, sub_u32 overflow_checks (background_estimate e) 250),
        (AnchorChannelFee, Ok (background_estimate e)),
        (NonAnchorChannelFee, Ok (normal_estimate e)),
        (ChannelCloseMinimum, Ok (background_estimate e)),
        (OutputSpendingFee, Ok (background_estimate e))]"

definition solution_poll_round ::
  "bool \<Rightarrow> bitcoind \<Rightarrow> fees \<Rightarrow> solution_state \<Rightarrow> ((unit, unit) outcome \<times> fees) \<times> solution_state" where
  "solution_poll_round overflow_checks d fees s =
     (case solution_estimates d s of
        (Ok e, s') \<Rightarrow> (solution_stores overflow_checks e fees, s')
      | (Err x, s') \<Rightarrow> ((Panic ''called `Result::unwrap()` on an `Err` value'', fees), s')
      | (Panic m, s') \<Rightarrow> ((Panic m, fees), s'))"

section \<open>Transactions\<close>

definition create_raw_transaction :: "bitcoind \<Rightarrow> (string \<times> f64) list list \<Rightarrow> string solution" where
  "create_raw_transaction d outputs =
     unwrap_call (call_method d try_into_raw_tx ''createrawtransaction''
       [JArray [], JArray (map (\<lambda>o1. JObject (map (\<lambda>(a, v). (a, JNumber (Float v))) o1)) outputs)])"

text \<open>
  \<open>est as f64 / 250.0\<close>: the quotient of two exact doubles, correctly rounded. The quotient is taken
  to at least 54 bits, and a remainder sets one more bit, so that rounding sees it.
\<close>

definition f64_div_nat :: "nat \<Rightarrow> nat \<Rightarrow> f64" where
  "f64_div_nat a b =
     (let q = a * 4611686018427387904 div b; r = a * 4611686018427387904 mod b
      in nearest False (2 * q + (if r = 0 then 0 else 1)) (- 63))"

definition fund_raw_transaction :: "bitcoind \<Rightarrow> fees \<Rightarrow> string \<Rightarrow> funded_tx solution" where
  "fund_raw_transaction d fees raw_tx =
     bind_st (lift_st (case get_est_sat_per_1000_weight fees NonAnchorChannelFee of
         Ok w \<Rightarrow> Ok w | Err e \<Rightarrow> Panic ''unreachable'' | Panic m \<Rightarrow> Panic m)) (\<lambda>est.
     unwrap_call (call_method d try_into_funded_tx ''fundrawtransaction''
       [JString raw_tx, JObject [(''fee_rate'', JNumber (Float (f64_div_nat (unat est) 250))),
                                 (''replaceable'', JBool False)]]))"

definition send_raw_transaction :: "solution_lib \<Rightarrow> bitcoind \<Rightarrow> string \<Rightarrow> unit solution" where
  "send_raw_transaction lib d raw_tx =
     bind_st (unwrap_call (call_method d (\<lambda>j. bind_out (unwrap_opt (as_str j)) (\<lambda>t.
         ok_or (txid_from_str (btc lib) t) (InvalidData ''bad txid''))) ''sendrawtransaction'' [JString raw_tx])) (\<lambda>_.
     return_st ())"

definition sign_raw_transaction_with_wallet :: "bitcoind \<Rightarrow> string \<Rightarrow> signed_tx solution" where
  "sign_raw_transaction_with_wallet d tx_hex =
     unwrap_call (call_method d try_into_signed_tx ''signrawtransactionwithwallet'' [JString tx_hex])"

definition get_new_address :: "solution_lib \<Rightarrow> bitcoind \<Rightarrow> string \<Rightarrow> string solution" where
  "get_new_address lib d net =
     bind_st (unwrap_call (call_method d try_into_new_address ''getnewaddress'' [JString ''LDK output address''])) (\<lambda>addr.
     lift_st (bind_out (unwrap_opt (parse_address lib addr)) (\<lambda>a.
       if on_network lib a net then Ok a else Panic ''called `Result::unwrap()` on an `Err` value'')))"

definition solution_blockchain_info :: "solution_lib \<Rightarrow> bitcoind \<Rightarrow> blockchain_info solution" where
  "solution_blockchain_info lib d =
     unwrap_call (call_method d (try_into_blockchain_info (btc lib)) ''getblockchaininfo'' [])"

definition list_unspent_response :: "solution_lib \<Rightarrow> bitcoind \<Rightarrow> list_unspent_utxo list solution" where
  "list_unspent_response lib d =
     unwrap_call (call_method d (try_into_list_unspent_response (btc lib)) ''listunspent'' [])"

section \<open>Broadcasting\<close>

text \<open>The format \<open>{:?}\<close> of a vector of strings that need no escapes.\<close>

fun debug_strings :: "string list \<Rightarrow> string" where
  "debug_strings [] = []"
| "debug_strings [t] = CHR 0x22 # t @ [CHR 0x22]"
| "debug_strings (t # ts) = CHR 0x22 # t @ [CHR 0x22] @ '', '' @ debug_strings ts"

definition broadcast_call :: "bitcoind \<Rightarrow> string list \<Rightarrow> json solution" where
  "broadcast_call d txn =
     (if length txn = 1
      then call_method d (\<lambda>j. Ok j) ''sendrawtransaction'' [JString (txn ! 0)]
      else call_method d (\<lambda>j. Ok j) ''submitpackage'' [JArray (map JString txn)])"

definition broadcast_warning :: string where
  "broadcast_warning = ''Warning, failed to broadcast a transaction, this is likely okay but may indicate an error: ''"

text \<open>\<open>e.get_ref().unwrap()\<close>: only an error with an inner one has a text.\<close>

fun inner_text :: "rpc_error \<Rightarrow> (rpc_error, string) outcome" where
  "inner_text (Inner t) = Ok t"
| "inner_text (Os_error n) = Panic ''called `Option::unwrap()` on a `None` value''"

definition solution_broadcast :: "bitcoind \<Rightarrow> ('tx \<Rightarrow> string) \<Rightarrow> 'tx list \<Rightarrow> unit solution" where
  "solution_broadcast d serialize_hex txs s =
     (let txn = map serialize_hex txs in
      case broadcast_call d txn s of
        (Ok _, s') \<Rightarrow> (Ok (), s')
      | (Err e, s') \<Rightarrow>
          bind_st (lift_st (inner_text e)) (\<lambda>err_str s. (Ok (),
            s\<lparr>logged := logged s @ [broadcast_warning @ err_str @ [CHR 0x0A] @ ''Transactions: ['' @ debug_strings txn @ '']''],
              printed := printed s @ broadcast_warning @ err_str @ [CHR 0x0A] @ ''> ''\<rparr>)) s'
      | (Panic m, s') \<Rightarrow> (Panic m, s'))"

section \<open>Wallet\<close>

definition get_change_destination_script :: "solution_lib \<Rightarrow> bitcoind \<Rightarrow> string \<Rightarrow> bytes solution" where
  "get_change_destination_script lib d net =
     bind_st (get_new_address lib d net) (\<lambda>a. return_st (script_pubkey lib a))"

text \<open>\<open>WPubkeyHash::from_slice\<close> of 20 bytes does not fail.\<close>

definition offer_unspent :: "solution_lib \<Rightarrow> list_unspent_utxo \<Rightarrow> utxo option" where
  "offer_unspent lib u =
     (case witness_program lib (address u) of
        Some (version, program) \<Rightarrow>
          if version = 0 \<and> length program = 20
          then Some (utxo_v0_p2wpkh lib (txid u, vout u) (amount u) program)
          else if version = 1 \<and> length program = 32
          then (if valid_x_only lib program
                then Some \<lparr>utxo_point = (txid u, vout u), utxo_value = amount u,
                           utxo_script = script_pubkey lib (address u), satisfaction_weight = 1 * 4 + 1 + 1 + 64\<rparr>
                else None)
          else None
      | None \<Rightarrow> None)"

definition solution_confirmed_utxos :: "solution_lib \<Rightarrow> bitcoind \<Rightarrow> utxo list solution" where
  "solution_confirmed_utxos lib d =
     bind_st (list_unspent_response lib d) (\<lambda>utxos. return_st (List.map_filter (offer_unspent lib) utxos))"

text \<open>The unsigned transaction of the package, in its encoding; the error \<open>()\<close> is \<open>Inner []\<close>.\<close>

definition solution_sign_psbt :: "solution_lib \<Rightarrow> bitcoind \<Rightarrow> bytes \<Rightarrow> bytes solution" where
  "solution_sign_psbt lib d unsigned_tx =
     bind_st (sign_raw_transaction_with_wallet d (hex_str unsigned_tx)) (\<lambda>signed_tx.
     bind_st (lift_st (ok_or (to_vec (signed_hex signed_tx)) (Inner []))) (\<lambda>signed_tx_bytes.
     lift_st (ok_or (decode_tx lib signed_tx_bytes) (Inner []))))"

section \<open>Facts\<close>

lemma call_method_made [simp]: "made (snd (call_method d f n ps s)) = made s @ [(n, ps)]"
  by (simp add: call_method_def)

lemma unwrap_call_made [simp]: "made (snd (unwrap_call m s)) = made (snd (m s))"
  by (simp add: unwrap_call_def split: prod.splits)

lemma fst_bind_st: "fst (bind_st m g s) = bind_out (fst (m s)) (\<lambda>a. fst (g a (snd (m s))))"
  by (cases "m s"; cases "fst (m s)") (simp_all add: bind_st_def)

lemma bind_out_map: "bind_out (bind_out x (\<lambda>r. Ok (h r))) g = bind_out x (\<lambda>r. g (h r))"
  by (cases x) simp_all

text \<open>bitcoind's answers to the requests of the polling task, as the model of the client takes them.\<close>

fun poll_answers :: "(string \<Rightarrow> json list \<Rightarrow> (rpc_error, json) outcome) \<Rightarrow> fee_request \<Rightarrow> (convert_error, json) outcome" where
  "poll_answers f GetMempoolInfo = (case f ''getmempoolinfo'' [] of
     Ok j \<Rightarrow> Ok j | Err e \<Rightarrow> Err (InvalidData []) | Panic m \<Rightarrow> Panic m)"
| "poll_answers f (EstimateSmartFee blocks mode) =
     (case f ''estimatesmartfee'' [JNumber (PosInt (of_nat blocks)), JString mode] of
        Ok j \<Rightarrow> Ok j | Err e \<Rightarrow> Err (InvalidData []) | Panic m \<Rightarrow> Panic m)"

lemma unwrapped_request:
  "fst (unwrap_call (call_method (\<lambda>h. f) try_into n ps) s) = unwrap_res (bind_out (f n ps) (\<lambda>j. parsed (try_into j)))"
  by (simp add: unwrap_call_def call_method_def)

lemma unwrapped_answer:
  "unwrap_res (bind_out (case x of Ok j \<Rightarrow> Ok j | Err e \<Rightarrow> Err (InvalidData []) | Panic m \<Rightarrow> Panic m)
     (\<lambda>j. bind_out (try_into j) (\<lambda>r. Ok (h r)))) =
   bind_out (unwrap_res (bind_out x (\<lambda>j. parsed (try_into j)))) (\<lambda>r. Ok (h r))"
proof (cases x)
  case (Ok j)
  then show ?thesis by (cases "try_into j" rule: parsed.cases) simp_all
qed simp_all

lemma answered_fee:
  "unwrap_res (fee_call (poll_answers f) GetMempoolInfo) =
     bind_out (unwrap_res (bind_out (f ''getmempoolinfo'' []) (\<lambda>j. parsed (try_into_mempool_min_fee_response j))))
       (\<lambda>r. Ok (feerate_sat_per_kw r))"
  "unwrap_res (fee_call (poll_answers f) (EstimateSmartFee n m)) =
     bind_out (unwrap_res (bind_out (f ''estimatesmartfee'' [JNumber (PosInt (of_nat n)), JString m])
       (\<lambda>j. parsed (try_into_fee_response j)))) (\<lambda>r. Ok (feerate_sat_per_kw r))"
  by (simp_all add: fee_call_def unwrapped_answer)

lemma unwrap_twice: "unwrap_res (unwrap_res x) = unwrap_res x"
  by (cases x) simp_all

lemma unwrap_bind: "unwrap_res (bind_out x g) = bind_out (unwrap_res x) (\<lambda>a. unwrap_res (g a))"
  by (cases x) simp_all

lemma same_estimates: "fetch_estimates (fee_call (poll_answers f)) = unwrap_res (fst (solution_estimates (\<lambda>h. f) s))"
  unfolding fetch_estimates_def answered_fee solution_estimates_def smart_fee_def fst_bind_st unwrapped_request
    bind_out_map unwrap_bind unwrap_twice
  by (simp add: return_st_def Let_def floor_or_def fee_or_def)

text \<open>The quotient of two numbers as a double: far within the last digit that bitcoind reads.\<close>

lemma f64_div_near:
  assumes "0 < a" "0 < b" "b \<le> 256" "f64_div_nat a b = F64 s m e"
  shows "\<not> s \<and> - 63 \<le> e \<and>
    \<bar>real m * 2 ^ nat (e + 63) * real b - real a * 2 ^ 63\<bar> * 2 ^ 51 \<le> real a * 2 ^ 63"
proof -
  let ?N = "4611686018427387904 :: nat"
  let ?q = "a * ?N div b" and ?r = "a * ?N mod b"
  define M where "M = 2 * ?q + (if ?r = 0 then 0 else 1 :: nat)"
  define k where "k = excess_bits M"
  have N: "real ?N = 2 ^ 62" by simp
  have q: "real a * 2 ^ 62 = real ?q * real b + real ?r"
    using N by (metis div_mult_mod_eq of_nat_add of_nat_mult)
  have rb: "real ?r < real b" using assms(2) by simp
  have Mb: "\<bar>real M * real b - real a * 2 ^ 63\<bar> \<le> real b"
    using q rb by (auto simp: M_def algebra_simps abs_le_iff)
  have res: "m = round_half_even M k" "e = - 63 + int k" "\<not> s"
    using assms(4) by (auto simp: f64_div_nat_def Let_def nearest_def M_def k_def)
  have big: "2 ^ 54 \<le> M"
  proof -
    have "256 * 2 ^ 53 \<le> a * ?N" using assms(1) by simp
    then have "2 ^ 53 \<le> a * ?N div b"
      using assms(2,3) by (simp add: less_eq_div_iff_mult_less_eq)
    then show ?thesis by (simp add: M_def)
  qed
  have k0: "0 < k" using excess_bits_spec [of M] big by (cases "excess_bits M") (auto simp: k_def)
  then have kM: "2 ^ 52 * 2 ^ k \<le> real M"
    using excess_bits_spec [of M] unfolding k_def
    by (metis of_nat_le_iff of_nat_numeral of_nat_power power_add)
  have err: "\<bar>real m * 2 ^ k - real M\<bar> \<le> 2 ^ k / 2" using round_half_even_error res(1) by simp
  have k2: "1 \<le> (2 :: real) ^ k / 2" using k0 by (cases k) simp_all
  have "\<bar>real m * 2 ^ k * real b - real a * 2 ^ 63\<bar> \<le> \<bar>real m * 2 ^ k - real M\<bar> * real b + real b"
  proof -
    have "real m * 2 ^ k * real b - real a * 2 ^ 63 = (real m * 2 ^ k - real M) * real b + (real M * real b - real a * 2 ^ 63)"
      by (simp add: algebra_simps)
    then show ?thesis using Mb abs_triangle_ineq [of "(real m * 2 ^ k - real M) * real b" "real M * real b - real a * 2 ^ 63"]
      by (simp add: abs_mult)
  qed
  also have "\<dots> \<le> 2 ^ k / 2 * real b + real b" using err by (intro add_right_mono mult_right_mono) simp_all
  also have "\<dots> \<le> 2 ^ k * real b" using k2 mult_right_mono [OF k2, of "real b"] by simp
  finally have f: "\<bar>real m * 2 ^ k * real b - real a * 2 ^ 63\<bar> \<le> 2 ^ k * real b" .
  have "2 ^ 52 * (2 ^ k * real b) \<le> real M * real b" using kM mult_right_mono [OF kM, of "real b"] by simp
  also have "\<dots> \<le> real a * 2 ^ 63 + real b" using Mb by (simp add: abs_le_iff)
  also have "\<dots> \<le> 2 * (real a * 2 ^ 63)" using assms(1,3) by simp
  finally have "2 ^ 51 * (2 ^ k * real b) \<le> real a * 2 ^ 63" by simp
  then have "\<bar>real m * 2 ^ k * real b - real a * 2 ^ 63\<bar> * 2 ^ 51 \<le> real a * 2 ^ 63"
    using f by (simp add: mult.commute)
  then show ?thesis using res by simp
qed

section \<open>Properties\<close>

text \<open>
  C38. The reference client polls as the client of the node does: when bitcoind's answers do not depend
  on the calls before, an iteration of its polling loop ends with the same result and the same fee table,
  panics included.
\<close>

theorem solution_polls_the_same:
  "fst (solution_poll_round ovf (\<lambda>h. f) fees s) = poll_round ovf (fee_call (poll_answers f)) fees"
proof (cases "solution_estimates (\<lambda>h. f) s")
  case (Pair r s')
  then have "fetch_estimates (fee_call (poll_answers f)) = unwrap_res r" using same_estimates [of f s] by simp
  with Pair show ?thesis
    by (cases r) (simp_all add: solution_poll_round_def poll_round_def solution_stores_def poll_stores_def)
qed

text \<open>The one request of a broadcast.\<close>

fun broadcast_request :: "string list \<Rightarrow> string \<times> json list" where
  "broadcast_request [tx] = (''sendrawtransaction'', [JString tx])"
| "broadcast_request txn = (''submitpackage'', [JArray (map JString txn)])"

lemma broadcast_call_request:
  "broadcast_call d txn s =
     (case broadcast_request txn of (c, ps) \<Rightarrow> (d (made s) c ps, s\<lparr>made := made s @ [(c, ps)]\<rparr>))"
proof -
  have id: "bind_out x Ok = x" for x :: "(rpc_error, json) outcome" by (cases x) simp_all
  show ?thesis by (cases txn rule: broadcast_request.cases) (simp_all add: broadcast_call_def call_method_def id)
qed

text \<open>
  A broadcast is one call with every transaction in its order: a single transaction as in the node's
  client, several, or none, as a package. An answer with an error is printed; but an error that has no
  inner one, as a refused connection has, is a panic, which ends the node.
\<close>

theorem solution_broadcast_exact:
  assumes "broadcast_request (map serialize_hex txs) = (c, ps)" "solution_broadcast d serialize_hex txs s = (r, s')"
  shows "made s' = made s @ [(c, ps)] \<and>
    (case d (made s) c ps of
       Ok j \<Rightarrow> r = Ok () \<and> printed s' = printed s
     | Err (Inner t) \<Rightarrow> r = Ok () \<and> printed s' = printed s @ broadcast_warning @ t @ [CHR 0x0A] @ ''> ''
     | Err (Os_error n) \<Rightarrow> is_panic r
     | Panic m \<Rightarrow> is_panic r)"
  using assms
  by (auto simp: solution_broadcast_def Let_def broadcast_call_request bind_st_def lift_st_def
      split: outcome.splits rpc_error.splits)

theorem solution_broadcast_exact_witness:
  "let s = \<lparr>made = [], logged = [], printed = []\<rparr>;
       refused = (\<lambda>h c ps. Err (Os_error 111)) :: bitcoind;
       spent = (\<lambda>h c ps. Err (Inner ''spent'')) :: bitcoind in
   is_panic (fst (solution_broadcast refused id [''aa''] s)) \<and>
   fst (solution_broadcast spent id [''aa'', ''bb''] s) = Ok () \<and>
   made (snd (solution_broadcast spent id [''aa'', ''bb''] s)) = [(''submitpackage'', [JArray [JString ''aa'', JString ''bb'']])]"
proof -
  let ?s = "\<lparr>made = [], logged = [], printed = []\<rparr>"
  have a: "broadcast_request (map id [''aa'']) = (''sendrawtransaction'', [JString ''aa''])"
    "broadcast_request (map id [''aa'', ''bb'']) = (''submitpackage'', [JArray [JString ''aa'', JString ''bb'']])"
    by simp_all
  from solution_broadcast_exact [OF a(1) surjective_pairing, of "\<lambda>h c ps. Err (Os_error 111)" ?s]
    solution_broadcast_exact [OF a(2) surjective_pairing, of "\<lambda>h c ps. Err (Inner ''spent'')" ?s]
  show ?thesis unfolding Let_def by simp
qed

text \<open>
  The wallet of the node and bitcoind's wallet behind the reference client offer the same outputs: where
  the libraries agree on what an address is, an output is offered by one exactly when it is by the other,
  with the same value, script and weight.
\<close>

lemma wallet_sources_agree:
  assumes "\<And>a. address_from_script b (script_pubkey lib a) = Some (witness_program lib a)"
    and "x_only_key b = valid_x_only lib" "new_v0_p2wpkh b = utxo_v0_p2wpkh lib"
    and "fst (list_unspent_response lib d s) = Ok utxos"
    and "list_unspent b (inner w) = map (\<lambda>u. \<lparr>out_point = (txid u, vout u), out_value = amount u,
       out_script = script_pubkey lib (address u), is_confirmed = True\<rparr>) utxos"
  shows "fst (solution_confirmed_utxos lib d s) = Ok us \<longleftrightarrow> fst (list_confirmed_utxos b w) = Ok us"
proof -
  have one: "offer_output b \<lparr>out_point = (txid u, vout u), out_value = amount u,
      out_script = script_pubkey lib (address u), is_confirmed = True\<rparr> = offer_unspent lib u" for u
    using assms(1-3) by (simp add: offer_output_def offer_unspent_def split: option.splits)
  have "List.map_filter (offer_output b) (filter is_confirmed (map (\<lambda>u. \<lparr>out_point = (txid u, vout u), out_value = amount u,
       out_script = script_pubkey lib (address u), is_confirmed = True\<rparr>) us')) = List.map_filter (offer_unspent lib) us'" for us'
    by (induction us') (simp_all add: List.map_filter_simps one split: option.splits)
  then show ?thesis
    using assms(4,5) by (simp add: solution_confirmed_utxos_def list_confirmed_utxos_def fst_bind_st return_st_def)
qed

text \<open>
  The fee of a funding transaction. Whatever was polled, bitcoind is asked for a rate in satoshis per
  virtual byte that times 250 is the table's rate per 1000 weight, up to one part in two to the 51, and
  that rate is at least 253; and it is asked not to make the transaction replaceable.
\<close>

theorem solution_funding_rate:
  "\<exists>est m e. get_est_sat_per_1000_weight (run_steps (poll_step ovf) initial_fees evs) NonAnchorChannelFee = Ok est \<and>
     253 \<le> unat est \<and>
     made (snd (fund_raw_transaction d (run_steps (poll_step ovf) initial_fees evs) raw s)) = made s @
       [(''fundrawtransaction'', [JString raw, JObject [(''fee_rate'', JNumber (Float (F64 False m e))),
          (''replaceable'', JBool False)]])] \<and>
     - 63 \<le> e \<and> \<bar>real m * 2 ^ nat (e + 63) * 250 - real (unat est) * 2 ^ 63\<bar> * 2 ^ 51 \<le> real (unat est) * 2 ^ 63"
proof -
  obtain est where est: "get_est_sat_per_1000_weight (run_steps (poll_step ovf) initial_fees evs) NonAnchorChannelFee = Ok est"
    "fee_floor NonAnchorChannelFee \<le> est"
    using fee_polling.run_keeps [OF fee_inv_initial, of ovf evs]
    by (auto simp: fee_inv_def get_est_sat_per_1000_weight_def)
  have l: "253 \<le> unat est" using est(2) by (simp add: fee_floor_def MIN_FEERATE_def word_le_nat_alt)
  obtain sg m e where f: "f64_div_nat (unat est) 250 = F64 sg m e" by (cases "f64_div_nat (unat est) 250")
  note N = f64_div_near [OF _ _ _ f]
  have "made (snd (fund_raw_transaction d (run_steps (poll_step ovf) initial_fees evs) raw s)) = made s @
     [(''fundrawtransaction'', [JString raw, JObject [(''fee_rate'', JNumber (Float (F64 False m e))),
        (''replaceable'', JBool False)]])]"
    using est(1) f N l by (simp add: fund_raw_transaction_def bind_st_def lift_st_def)
  then show ?thesis using est(1) l N by (intro exI conjI) auto
qed

end
