(* ===== verification/Workshop_Mocks.thy ===== *)
theory Workshop_Mocks imports Cli_Display begin

text \<open>
  The stand-ins of the workshop, in \<open>src/src/internal\<close>: a channel manager, a bitcoind client and a
  file store that record what they are asked; its first exercises, \<open>src/src/intro/exercises.rs\<close>;
  and its keys manager, \<open>src/src/keys_manager.rs\<close>, over the key derivation of \<open>bitcoin\<close>.
\<close>

section \<open>Channel manager\<close>

type_synonym u128 = "128 word"

datatype retryable_send_failure = PaymentExpired | RouteNotFound | DuplicatePayment | OnionPacketSizeExceeded

record 'c mock_manager =
  funding_tx :: "(bytes \<times> bytes \<times> bytes) option"
  channel :: "(u128 \<times> u64 \<times> 'c) option"
  payment :: "bytes option"

definition mock_manager_new :: "'c mock_manager" where
  "mock_manager_new = \<lparr>funding_tx = None, channel = None, payment = None\<rparr>"

definition funding_transaction_generated ::
  "bytes \<Rightarrow> bytes \<Rightarrow> bytes \<Rightarrow> 'c mock_manager \<Rightarrow> 'c mock_manager" where
  "funding_transaction_generated temporary_channel_id counterparty_node_id funding_transaction m =
     m\<lparr>funding_tx := Some (temporary_channel_id, counterparty_node_id, funding_transaction)\<rparr>"

text \<open>\<open>unwrap_or_default\<close> takes the library's default configuration.\<close>

definition create_channel ::
  "'c \<Rightarrow> bytes \<Rightarrow> u64 \<Rightarrow> u64 \<Rightarrow> u128 \<Rightarrow> bytes option \<Rightarrow> 'c option \<Rightarrow> ('c mock_manager, string, bytes) st" where
  "create_channel dflt their_network_key sats push_msat user_channel_id temporary_channel_id
     override_config m =
     (Ok (replicate 32 0), m\<lparr>channel := Some (user_channel_id, sats,
        case override_config of Some c \<Rightarrow> c | None \<Rightarrow> dflt)\<rparr>)"

definition mock_best_block :: "string \<times> u32" where
  "mock_best_block = (''000'', 300)"

definition mock_send_payment :: "bytes \<Rightarrow> bytes \<Rightarrow> ('c mock_manager, retryable_send_failure, unit) st" where
  "mock_send_payment payment_hash payment_id m = (Ok (), m\<lparr>payment := Some payment_id\<rparr>)"

section \<open>File store\<close>

type_synonym file_store = "((string \<times> string \<times> string) \<times> bytes) list"

definition file_store_new :: file_store where
  "file_store_new = []"

definition file_store_write :: "string \<Rightarrow> string \<Rightarrow> string \<Rightarrow> bytes \<Rightarrow> (file_store, io_error, unit) st" where
  "file_store_write primary_namespace secondary_namespace key buf m =
     (Ok (), AList.update (primary_namespace, secondary_namespace, key) buf m)"

section \<open>bitcoind client\<close>

record 'v mock_bitcoind =
  create_raw_tx :: "(string \<times> 'v) list list option"
  fund_raw_tx :: "string option"
  sign_raw_tx :: "string option"

definition mock_bitcoind_new :: "'v mock_bitcoind" where
  "mock_bitcoind_new = \<lparr>create_raw_tx = None, fund_raw_tx = None, sign_raw_tx = None\<rparr>"

definition mock_create_raw_transaction :: "(string \<times> 'v) list list \<Rightarrow> 'v mock_bitcoind \<Rightarrow> string \<times> 'v mock_bitcoind" where
  "mock_create_raw_transaction outputs b = (''rawtxhex'', b\<lparr>create_raw_tx := Some outputs\<rparr>)"

definition mock_fund_raw_transaction :: "string \<Rightarrow> 'v mock_bitcoind \<Rightarrow> string \<times> 'v mock_bitcoind" where
  "mock_fund_raw_transaction raw_tx b = (''fundedtxhex'', b\<lparr>fund_raw_tx := Some raw_tx\<rparr>)"

definition mock_sign_raw_transaction :: "string \<Rightarrow> 'v mock_bitcoind \<Rightarrow> string \<times> 'v mock_bitcoind" where
  "mock_sign_raw_transaction tx_hex b = (''signedtxhex'', b\<lparr>sign_raw_tx := Some tx_hex\<rparr>)"

section \<open>First exercises\<close>

record tx_out =
  tx_amount :: u64
  tx_script :: bytes

record intro_transaction =
  tx_version :: u8
  tx_lock_time :: u32
  tx_input :: "bytes list"
  tx_output :: "tx_out list"

fun sum_loop :: "bool \<Rightarrow> u64 \<Rightarrow> tx_out list \<Rightarrow> (unit, u64) outcome" where
  "sum_loop overflow_checks acc [] = Ok acc"
| "sum_loop overflow_checks acc (o1 # outputs) =
     (if overflow_checks \<and> unat acc + unat (tx_amount o1) \<ge> 2 ^ 64 then Panic ''attempt to add with overflow''
      else sum_loop overflow_checks (acc + tx_amount o1) outputs)"

definition sum_outputs :: "bool \<Rightarrow> tx_out list \<Rightarrow> (unit, u64) outcome" where
  "sum_outputs overflow_checks outputs = sum_loop overflow_checks 0 outputs"

definition transaction_sum_outputs :: "bool \<Rightarrow> intro_transaction \<Rightarrow> (unit, u64) outcome" where
  "transaction_sum_outputs overflow_checks tx = sum_loop overflow_checks 0 (tx_output tx)"

text \<open>A slice of a string panics past its end and inside a character of several bytes.\<close>

definition is_char_boundary :: "string \<Rightarrow> nat \<Rightarrow> bool" where
  "is_char_boundary t i \<longleftrightarrow> i = 0 \<or> i = length t \<or> i < length t \<and> \<not> (128 \<le> (of_char (t ! i) :: nat) \<and> (of_char (t ! i) :: nat) < 192)"

definition is_bip68_compatible :: "string \<Rightarrow> (unit, bool) outcome" where
  "is_bip68_compatible version =
     (if length version < 2 \<or> \<not> is_char_boundary version 2 then Panic ''byte index 2 is out of bounds''
      else Ok (take 2 version \<noteq> ''01''))"

definition exercises_main :: "(unit, string) outcome" where
  "exercises_main =
     bind_out (is_bip68_compatible ''02000000'') (\<lambda>bip68_compatible.
     Ok (''Is '' @ [CHR 0x22] @ ''02000000'' @ [CHR 0x22] @ '' BIP 68 compatible? '' @ show_bool bip68_compatible @ [CHR 0x0A]))"

section \<open>Keys manager\<close>

record ('x, 'n, 'p) key_lib =
  new_master :: "bytes \<Rightarrow> 'x option"
  from_hardened_idx :: "u32 \<Rightarrow> 'n option"
  derive_priv :: "'x \<Rightarrow> 'n \<Rightarrow> 'x option"
  private_key :: "'x \<Rightarrow> bytes"
  xpub_from_priv :: "'x \<Rightarrow> 'p"
  from_secret_key :: "bytes \<Rightarrow> bytes"

record ('x, 'p) node_keys_manager =
  node_secret :: bytes
  node_id :: bytes
  destination_xpub :: 'p
  channel_master_key :: 'x
  channel_child_index :: u32
  keys_manager_seed :: bytes

definition busted :: "'a option \<Rightarrow> (unit, 'a) outcome" where
  "busted x = (case x of Some a \<Rightarrow> Ok a | None \<Rightarrow> Panic ''Your RNG is busted'')"

definition get_master_key :: "('x, 'n, 'p) key_lib \<Rightarrow> bytes \<Rightarrow> (unit, 'x) outcome" where
  "get_master_key lib seed = busted (new_master lib seed)"

definition get_hardened_extended_child_private_key ::
  "('x, 'n, 'p) key_lib \<Rightarrow> 'x \<Rightarrow> u32 \<Rightarrow> (unit, 'x) outcome" where
  "get_hardened_extended_child_private_key lib master_key idx =
     bind_out (unwrap_opt (from_hardened_idx lib idx)) (\<lambda>child.
     busted (derive_priv lib master_key child))"

definition keys_manager_new :: "('x, 'n, 'p) key_lib \<Rightarrow> bytes \<Rightarrow> (unit, ('x, 'p) node_keys_manager) outcome" where
  "keys_manager_new lib seed =
     bind_out (busted (new_master lib seed)) (\<lambda>master_key.
     bind_out (unwrap_opt (from_hardened_idx lib 0)) (\<lambda>child.
     bind_out (busted (derive_priv lib master_key child)) (\<lambda>node_key.
     bind_out (unwrap_opt (from_hardened_idx lib 2)) (\<lambda>child.
     bind_out (busted (derive_priv lib master_key child)) (\<lambda>destination_key.
     bind_out (unwrap_opt (from_hardened_idx lib 3)) (\<lambda>child.
     bind_out (busted (derive_priv lib master_key child)) (\<lambda>channel_key.
     Ok \<lparr>node_secret = private_key lib node_key, node_id = from_secret_key lib (private_key lib node_key),
         destination_xpub = xpub_from_priv lib destination_key, channel_master_key = channel_key,
         channel_child_index = 0, keys_manager_seed = seed\<rparr>)))))))"

section \<open>Facts\<close>

text \<open>The two sums are the sum of \<open>nodeinfo\<close>, over the amounts.\<close>

lemma sum_loop_sum: "sum_loop ovf acc outs = sum_u64 ovf acc (map tx_amount outs)"
  by (induction outs arbitrary: acc) simp_all

text \<open>
  The exercises' functions agree with each other and with the exact sum: with overflow checks the sum is
  the exact one or a panic, without them it is the sum modulo 2 to the 64.
\<close>

lemma sum_outputs_exact:
  "transaction_sum_outputs ovf tx = sum_outputs ovf (tx_output tx)"
  "sum_outputs True outs = (if total (map tx_amount outs) < 2 ^ 64 then Ok (of_nat (total (map tx_amount outs)))
     else Panic ''attempt to add with overflow'')"
  unfolding transaction_sum_outputs_def sum_outputs_def sum_loop_sum
  using sum_u64_checked [of 0 "map tx_amount outs"] by simp_all

lemma exercises_main_output: "exercises_main = Ok (''Is '' @ [CHR 0x22] @ ''02000000'' @ [CHR 0x22] @ '' BIP 68 compatible? true'' @ [CHR 0x0A])"
  by code_simp

text \<open>
  The keys manager is built from the exercise's own functions: the node's key, the destination key and the
  master key of the channels are the hardened children 0, 2 and 3 of the master key.
\<close>

lemma keys_manager_from_parts:
  "keys_manager_new lib seed =
     bind_out (get_master_key lib seed) (\<lambda>master_key.
     bind_out (get_hardened_extended_child_private_key lib master_key 0) (\<lambda>node_key.
     bind_out (get_hardened_extended_child_private_key lib master_key 2) (\<lambda>destination_key.
     bind_out (get_hardened_extended_child_private_key lib master_key 3) (\<lambda>channel_key.
     Ok \<lparr>node_secret = private_key lib node_key, node_id = from_secret_key lib (private_key lib node_key),
         destination_xpub = xpub_from_priv lib destination_key, channel_master_key = channel_key,
         channel_child_index = 0, keys_manager_seed = seed\<rparr>))))"
  by (simp add: keys_manager_new_def get_master_key_def get_hardened_extended_child_private_key_def bind_out_assoc)

end
