(* ===== verification/Workshop.thy ===== *)
theory Workshop imports Workshop_Mocks Wallet Runtime_Props begin

text \<open>
  The workshop's versions of three parts of the node, on the stand-ins of \<open>Workshop_Mocks\<close>:
  opening a channel and paying (\<open>src/src/commands.rs\<close>), funding a channel
  (\<open>src/src/events.rs\<close>, with the wallet of the node) and the listener
  (\<open>src/src/networking.rs\<close>).
\<close>

section \<open>Commands\<close>

text \<open>The settings of a channel that \<open>open_channel\<close> sets; the others are the library's defaults.\<close>

record channel_config =
  announce_for_forwarding :: bool
  their_channel_reserve_proportional_millionths :: u32
  anchors_zero_fee_htlc_tx :: bool

type_synonym outbound_storage = "(bytes \<times> payment_info) list"

record workshop =
  manager :: "channel_config mock_manager"
  storage :: outbound_storage
  files :: file_store
  printed_text :: string

type_synonym 'a exercise = "(workshop, unit, 'a) st"

definition put_line :: "string \<Rightarrow> unit exercise" where
  "put_line t s = (Ok (), s\<lparr>printed_text := printed_text s @ t @ [CHR 0x0A]\<rparr>)"

text \<open>A call of the channel manager, with what it returned.\<close>

definition ask_manager :: "(channel_config mock_manager, 'e, 'a) st \<Rightarrow> (('e, 'a) outcome \<Rightarrow> 'b exercise) \<Rightarrow> 'b exercise" where
  "ask_manager m k s = (case m (manager s) of (r, cm) \<Rightarrow> k r (s\<lparr>manager := cm\<rparr>))"

definition open_workshop_channel :: "channel_config \<Rightarrow> bytes \<Rightarrow> u64 \<Rightarrow> bool \<Rightarrow> bool \<Rightarrow> unit exercise" where
  "open_workshop_channel dflt peer_pubkey channel_amt_sat announce_channel with_anchors =
     (let config = dflt\<lparr>announce_for_forwarding := announce_channel,
            their_channel_reserve_proportional_millionths := 1000, anchors_zero_fee_htlc_tx := with_anchors\<rparr> in
      ask_manager (create_channel dflt peer_pubkey channel_amt_sat 0 0 None (Some config)) (\<lambda>r. case r of
        Ok _ \<Rightarrow> put_line (''EVENT: initiated channel with peer '' @ hex_str peer_pubkey @ ''. '')
      | Err e \<Rightarrow> bind_st (put_line (''ERROR: failed to open channel: '' @ e)) (\<lambda>_. lift_st (Err ()))
      | Panic m \<Rightarrow> lift_st (Panic m)))"

text \<open>The storage's encoding is a constant, and its file store does not fail.\<close>

definition encode_storage :: "outbound_storage \<Rightarrow> bytes" where
  "encode_storage p = replicate 32 1"

definition write_storage :: "unit exercise" where
  "write_storage s =
     (case file_store_write [] [] OUTBOUND_PAYMENTS_FNAME (encode_storage (storage s)) (files s) of
        (r, f) \<Rightarrow> (unwrap_res r, s\<lparr>files := f\<rparr>))"

definition insert_payment :: "bytes \<Rightarrow> payment_info \<Rightarrow> unit exercise" where
  "insert_payment i info s = (Ok (), s\<lparr>storage := AList.update i info (storage s)\<rparr>)"

definition fail_payment :: "bytes \<Rightarrow> unit exercise" where
  "fail_payment i s =
     (case map_of (storage s) i of
        Some p \<Rightarrow> (Ok (), s\<lparr>storage := AList.update i (p\<lparr>status := Failed\<rparr>) (storage s)\<rparr>)
      | None \<Rightarrow> (Panic ''called `Option::unwrap()` on a `None` value'', s))"

fun debug_failure :: "retryable_send_failure \<Rightarrow> string" where
  "debug_failure PaymentExpired = ''PaymentExpired''"
| "debug_failure RouteNotFound = ''RouteNotFound''"
| "debug_failure DuplicatePayment = ''DuplicatePayment''"
| "debug_failure OnionPacketSizeExceeded = ''OnionPacketSizeExceeded''"

text \<open>
  \<open>send_ln_payment\<close>. \<open>payment_parameters_from_invoice\<close> is an argument; \<open>send\<close> is the
  channel manager's \<open>send_payment\<close>.
\<close>

definition send_ln_payment ::
  "(bytes \<Rightarrow> bytes \<Rightarrow> (channel_config mock_manager, retryable_send_failure, unit) st) \<Rightarrow> (invoice \<Rightarrow> bytes option) \<Rightarrow>
   invoice \<Rightarrow> u64 option \<Rightarrow> unit exercise" where
  "send_ln_payment send payment_parameters_from_invoice invoice required_amount_msat =
     (let payment_id = inv_hash invoice; payment_secret = Some (inv_secret invoice) in
      bind_st (lift_st (unwrap_opt (payment_parameters_from_invoice invoice))) (\<lambda>payment_hash.
      bind_st (insert_payment payment_id
        \<lparr>preimage = None, secret = payment_secret, status = Pending, amt_msat = inv_amount invoice\<rparr>) (\<lambda>_.
      bind_st write_storage (\<lambda>_.
      ask_manager (send payment_hash payment_id) (\<lambda>r. case r of
        Ok _ \<Rightarrow>
          bind_st (lift_st (unwrap_opt (inv_amount invoice))) (\<lambda>amt.
          put_line (''EVENT: initiated sending '' @ show_u64 amt @ '' msats to '' @ inv_payee invoice))
      | Err e \<Rightarrow>
          bind_st (put_line (''ERROR: failed to send payment: '' @ debug_failure e)) (\<lambda>_.
          bind_st (fail_payment payment_id) (\<lambda>_.
          write_storage))
      | Panic m \<Rightarrow> lift_st (Panic m))))))"

section \<open>Events\<close>

text \<open>
  The handler of the exercise: only a channel to fund does something. The lock time is the height of the
  stand-in, and a height that is none would be a panic.
\<close>

definition fund_workshop_channel ::
  "('w, 'u) bdk \<Rightarrow> fees \<Rightarrow> (u32 \<Rightarrow> u32 option) \<Rightarrow> bytes \<Rightarrow> bytes \<Rightarrow> u64 \<Rightarrow> bytes \<Rightarrow> 'c mock_manager \<Rightarrow>
   ('w wallet, string, 'c mock_manager) st" where
  "fund_workshop_channel lib fees from_height temporary_channel_id counterparty_node_id sats output_script cm =
     (let cur_height = snd mock_best_block in
      bind_st (lift_st (unwrap_opt (from_height cur_height))) (\<lambda>locktime.
      bind_st (create_funding_transaction lib fees output_script sats NonAnchorChannelFee locktime) (\<lambda>final_tx.
      return_st (funding_transaction_generated temporary_channel_id counterparty_node_id final_tx cm))))"

fun workshop_events ::
  "('w, 'u) bdk \<Rightarrow> fees \<Rightarrow> (u32 \<Rightarrow> u32 option) \<Rightarrow> ldk_event \<Rightarrow> 'c mock_manager \<Rightarrow> ('w wallet, string, 'c mock_manager) st" where
  "workshop_events lib fees from_height (FundingGenerationReady chan peer sats script) cm =
     fund_workshop_channel lib fees from_height chan peer sats script cm"
| "workshop_events lib fees from_height _ cm = return_st cm"

section \<open>The listener\<close>

text \<open>The stand-in of the peer manager counts the connections that were set up, in a \<open>usize\<close>.\<close>

record network_listener =
  setup_count :: u64
  unhandled :: nat
  listener_panic :: "string option"

datatype network_event = Net_accepted "(string, unit) outcome" | Net_task "(string, unit) outcome"

definition start_network_listener :: "(string, unit) outcome \<Rightarrow> network_listener" where
  "start_network_listener bound =
     \<lparr>setup_count = 0, unhandled = 0, listener_panic = (case bound of Ok _ \<Rightarrow> None
        | _ \<Rightarrow> Some ''Failed to bind to listen port - is something else already listening on it?'')\<rparr>"

text \<open>\<open>listener.accept().await.unwrap()\<close>, and the spawned \<open>setup_inbound\<close>.\<close>

fun network_step :: "network_listener \<Rightarrow> network_event \<Rightarrow> network_listener" where
  "network_step l (Net_accepted r) =
     (if listener_panic l \<noteq> None then l
      else case r of Ok _ \<Rightarrow> l\<lparr>unhandled := Suc (unhandled l)\<rparr>
      | _ \<Rightarrow> l\<lparr>listener_panic := Some ''called `Result::unwrap()` on an `Err` value''\<rparr>)"
| "network_step l (Net_task into_std) =
     (if listener_panic l \<noteq> None \<or> unhandled l = 0 then l
      else case into_std of Ok _ \<Rightarrow> l\<lparr>unhandled := unhandled l - 1, setup_count := setup_count l + 1\<rparr>
      | _ \<Rightarrow> l\<lparr>listener_panic := Some ''called `Result::unwrap()` on an `Err` value''\<rparr>)"

section \<open>Properties\<close>

text \<open>The requested amount is not looked at, nor is a missing amount refused before the payment is sent.\<close>

lemma required_amount_ignored:
  "send_ln_payment send params invoice r1 = send_ln_payment send params invoice r2"
  by (simp add: send_ln_payment_def)

text \<open>The listener sets up each accepted connection at most once, and counts them.\<close>

fun accepted :: "network_event \<Rightarrow> nat" where
  "accepted (Net_accepted (Ok _)) = 1"
| "accepted _ = 0"

lemma network_step_count:
  assumes "listener_panic (network_step l e) = None" "unat (setup_count l) + unhandled l + accepted e < 2 ^ 64"
  shows "unat (setup_count (network_step l e)) + unhandled (network_step l e) = unat (setup_count l) + unhandled l + accepted e"
proof (cases e)
  case (Net_accepted r)
  with assms show ?thesis by (cases r) (auto split: if_splits)
next
  case (Net_task r)
  show ?thesis
  proof (cases "unhandled l = 0")
    case False
    then have "unat (setup_count l + 1) = unat (setup_count l) + 1"
      using assms(2) by (simp add: Net_task unat_word_ariths)
    with assms(1) False Net_task show ?thesis by (cases r) (auto split: if_splits)
  qed (use Net_task assms in \<open>auto split: if_splits\<close>)
qed

lemma network_panic_stays: "listener_panic l \<noteq> None \<Longrightarrow> run_steps network_step l es = l"
proof (induction es)
  case (Cons e es)
  then show ?case by (cases e) auto
qed simp

lemma listener_counts_connections:
  assumes "listener_panic (run_steps network_step (start_network_listener b) es) = None"
    and "sum_list (map accepted es) < 2 ^ 64"
  shows "unat (setup_count (run_steps network_step (start_network_listener b) es)) +
    unhandled (run_steps network_step (start_network_listener b) es) = sum_list (map accepted es)"
proof -
  have "listener_panic (run_steps network_step l es) = None \<Longrightarrow>
      unat (setup_count l) + unhandled l + sum_list (map accepted es) < 2 ^ 64 \<Longrightarrow>
      unat (setup_count (run_steps network_step l es)) + unhandled (run_steps network_step l es) =
        unat (setup_count l) + unhandled l + sum_list (map accepted es)" for l
  proof (induction es arbitrary: l)
    case (Cons e es)
    have "listener_panic (network_step l e) = None" using Cons.prems(1) network_panic_stays by fastforce
    from network_step_count [OF this] Cons show ?case by simp
  qed simp
  from this [of "start_network_listener b"] assms show ?thesis by (simp add: start_network_listener_def)
qed

text \<open>
  The exercise's file store is what the node's store promises: where the two hold the same values,
  they do after the same write, whenever the one of the node returned.
\<close>

theorem mock_store_agrees:
  assumes "store_inv s" "kv_get s = map_of m" "kv_write prim sec key buf s = (Ok (), s')"
  shows "kv_get s' = map_of (snd (file_store_write prim sec key buf m)) \<and> store_inv s'"
  using fs_kv.put_ok [of s "(prim, sec, key)" buf s'] assms by (simp add: file_store_write_def map_of_update)

theorem mock_store_agrees_witness:
  "kv_get (snd (kv_write [] [] ''a'' [1, 2] (sample_store []))) = map_of (snd (file_store_write [] [] ''a'' [1, 2] []))"
proof -
  have inv: "store_inv (sample_store [])" by (rule sample_store_inv)
  have none: "kv_get (sample_store []) = map_of []"
    by (rule ext) (simp add: kv_get_def sample_store_def store_new_def content_at_def lookup_def sample_disk_def empty_fs_def)
  have w: "kv_write [] [] ''a'' [1, 2] (sample_store []) = (Ok (), snd (kv_write [] [] ''a'' [1, 2] (sample_store [])))"
    by (rule prod_eqI) (simp_all, code_simp)
  from mock_store_agrees [OF inv none w] show ?thesis by simp
qed

lemmas exercise_defs = bind_st_def lift_st_def insert_payment_def write_storage_def file_store_write_def ask_manager_def
  put_line_def fail_payment_def return_st_def

text \<open>What a payment of the exercise leaves in its table.\<close>

lemma send_ln_payment_storage:
  assumes "params iv = Some h" "inv_amount iv \<noteq> None" "send_ln_payment send params iv req w = (r, w')"
    and "send h (inv_hash iv) (manager w) = (q, cm)" "\<not> is_panic q"
  shows "r = Ok () \<and> manager w' = cm \<and>
    storage w' = AList.update (inv_hash iv) (if is_ok q then pending_entry iv else (pending_entry iv)\<lparr>status := Failed\<rparr>) (storage w) \<and>
    map_of (files w') ([], [], OUTBOUND_PAYMENTS_FNAME) = Some (encode_storage (storage w'))"
  using assms
  by (cases q)
    (auto simp: send_ln_payment_def Let_def exercise_defs pending_entry_def encode_storage_def alist_simps map_of_update
      split: option.splits)

text \<open>
  C39. Paying in the exercise is paying in the node, for an invoice with an amount that the node does not
  refuse to pay (no required amount, or the invoice's own), when both start from the same table and the
  library gives both the same answer, accepted or refused: the table of outbound payments is the same
  afterwards. Without these conditions the tables differ: the exercise pays when the node refuses a wrong
  amount (\<open>required_amount_ignored\<close>).
\<close>

theorem exercise_pays_as_node:
  assumes "db_inv (pay_db c)" "payable env iv req" "send_payment env iv req c = (Ok (), c')"
    and "params iv = Some h" "inv_amount iv \<noteq> None" "send_ln_payment send params iv req w = (r, w')"
    and "send h (inv_hash iv) (manager w) = (q, cm)" "\<not> is_panic q"
    and "is_ok q \<longleftrightarrow> send_answer env (SendPayment (inv_hash iv) (inv_hash iv)) = None"
    and "storage w = outbound_payments (pay_db c)"
  shows "r = Ok () \<and> storage w' = outbound_payments (pay_db c')"
proof -
  have acc: "\<And>s r s'. announce_sent iv s = (r, s') \<Longrightarrow> pay_db s' = pay_db s \<and> requests s' = requests s"
    using announce_sent_effect by blast
  have "pay_through env (SendPayment (inv_hash iv) (inv_hash iv)) (inv_hash iv) (pending_entry iv) (announce_sent iv) c = (Ok (), c')"
    using assms(3) by (simp add: send_payment_payable [OF assms(2)])
  from pay_through_effect [OF assms(1) this acc] send_ln_payment_storage [OF assms(4-8)] assms(9,10)
  show ?thesis by simp
qed

definition exercise_start :: workshop where
  "exercise_start = \<lparr>manager = mock_manager_new, storage = [], files = file_store_new, printed_text = []\<rparr>"

theorem exercise_pays_as_node_witness:
  "storage (snd (send_ln_payment mock_send_payment (\<lambda>iv. Some (inv_hash iv)) (sample_invoice (Some 5)) None exercise_start)) =
   outbound_payments (pay_db (snd (send_payment (sample_cli_env (\<lambda>c. None)) (sample_invoice (Some 5)) None (sample_cli []))))"
proof -
  let ?env = "sample_cli_env (\<lambda>c. None)" and ?iv = "sample_invoice (Some 5)"
  have s: "send_payment ?env ?iv None (sample_cli []) = (Ok (), snd (send_payment ?env ?iv None (sample_cli [])))"
    by (rule prod_eqI) (simp_all, code_simp)
  have p: "payable ?env ?iv None" by (simp add: payable_def sample_cli_env_def sample_invoice_def)
  have m: "mock_send_payment (inv_hash ?iv) (inv_hash ?iv) (manager exercise_start) =
      (Ok (), (manager exercise_start)\<lparr>payment := Some (inv_hash ?iv)\<rparr>)" by (simp add: mock_send_payment_def)
  note E = exercise_pays_as_node [where send = mock_send_payment and w = exercise_start and q = "Ok ()" and req = None
    and iv = ?iv and env = ?env and params = "\<lambda>iv. Some (inv_hash iv)", OF sample_cli_inv p s _ _ surjective_pairing m]
  show ?thesis using E by (simp add: exercise_start_def sample_cli_env_def sample_cli_def sample_invoice_def)
qed

text \<open>The exercise funds a channel as the node does, at the rate for channels without anchors.\<close>

lemma exercise_funds_channel:
  assumes "workshop_events lib fees from_height (FundingGenerationReady chan peer sats script) cm w = (Ok cm', w')"
  shows "\<exists>tx l. from_height 300 = Some l \<and> funding_tx cm' = Some (chan, peer, tx) \<and>
    create_funding_transaction lib fees script sats NonAnchorChannelFee l w = (Ok tx, w')"
  using assms
  by (auto simp: fund_workshop_channel_def Let_def mock_best_block_def bind_st_def lift_st_def return_st_def
      funding_transaction_generated_def split: outcome.splits prod.splits option.splits)

end
