(* ===== verification/Sweep.thy ===== *)
theory Sweep imports Fs_Store_Crash Hex_Utils begin

text \<open>
  \<open>src/src/sweep.rs\<close>: the migration of spendable outputs from the directories of older
  versions to the output sweeper. The reader of a descriptor is the library's: it gives the
  descriptor and how many bytes it took, at least the one for its type. Removing a directory with
  what is in it is one call on the disk.
\<close>

section \<open>State\<close>

record 'd sweep_state =
  persister :: kvstore
  log_lines :: "string list"
  tracked :: "('d list \<times> u32) list"

record 'd sweep_env =
  read_descriptor :: "bytes \<Rightarrow> ('d \<times> nat) option"
  without_length :: "bytes \<Rightarrow> bytes"
  key_bytes :: bytes
  sweeper_height :: u32
  sweeper_accepts :: bool
  checks_overflow :: bool

type_synonym ('d, 'a) sweep = "('d sweep_state, unit, 'a) st"

definition log_info :: "string \<Rightarrow> ('d, unit) sweep" where
  "log_info t s = (Ok (), s\<lparr>log_lines := log_lines s @ [t]\<rparr>)"

definition on_persister :: "'a store_op \<Rightarrow> ((io_error, 'a) outcome \<Rightarrow> ('d, 'b) sweep) \<Rightarrow> ('d, 'b) sweep" where
  "on_persister m k s = (case m (persister s) of (r, kv) \<Rightarrow> k r (s\<lparr>persister := kv\<rparr>))"

text \<open>A call whose result is unwrapped.\<close>

definition must :: "'a store_op \<Rightarrow> ('d, 'a) sweep" where
  "must m = on_persister m (\<lambda>r. lift_st (unwrap_res r))"

definition fs_remove_tree :: "path \<Rightarrow> unit syscall" where
  "fs_remove_tree p f =
     (case lookup f p of
        None \<Rightarrow> (Err NotFound, f)
      | Some (File i) \<Rightarrow> (Err NotADirectory, f)
      | Some Dir \<Rightarrow> (Ok (), fold drop_ent (filter (\<lambda>q. take (length p) q = p) (map fst (ents f))) f))"

definition exists_path :: "path \<Rightarrow> ('d, bool) sweep" where
  "exists_path p = must (on_disk (path_exists p))"

text \<open>Whether one of the directories exists: \<open>!a.exists() && !b.exists() && !c.exists()\<close>, lazily.\<close>

fun none_exists :: "path list \<Rightarrow> ('d, bool) sweep" where
  "none_exists [] = return_st True"
| "none_exists (p # ps) = bind_st (exists_path p) (\<lambda>found. if found then return_st False else none_exists ps)"

section \<open>The migration\<close>

definition DEPRECATED_PENDING_SPENDABLE_OUTPUT_DIR :: string where
  "DEPRECATED_PENDING_SPENDABLE_OUTPUT_DIR = ''pending_spendable_outputs''"

text \<open>Files with a name of 64 characters are moved to the processing directory.\<close>

fun move_pending :: "path \<Rightarrow> path list \<Rightarrow> ('d, unit) sweep" where
  "move_pending processing [] = return_st ()"
| "move_pending processing (p # ps) =
     (if length (last p) = 64
      then bind_st (must (on_disk (create_dir_all processing))) (\<lambda>_.
           bind_st (must (on_disk (sys (fs_rename p (processing @ [last p]))))) (\<lambda>_.
           move_pending processing ps))
      else move_pending processing ps)"

fun read_all :: "path list \<Rightarrow> bytes \<Rightarrow> ('d, bytes) sweep" where
  "read_all [] outputs = return_st outputs"
| "read_all (p # ps) outputs =
     bind_st (must (on_disk (sys (fs_read p)))) (\<lambda>b. read_all ps (outputs @ b))"

definition concatenate_pending :: "'d sweep_env \<Rightarrow> path \<Rightarrow> ('d, unit) sweep" where
  "concatenate_pending env processing =
     bind_st
       (on_persister (on_disk (sys (fs_read_dir processing))) (\<lambda>r. case r of
          Ok entries \<Rightarrow> read_all entries []
        | _ \<Rightarrow> return_st [])) (\<lambda>outputs.
     if outputs = [] then return_st ()
     else bind_st (must (kv_write ''spendable_outputs'' [] (hex_str (key_bytes env)) (without_length env outputs))) (\<lambda>_.
       must (on_disk (sys (fs_remove_tree processing)))))"

text \<open>The descriptors of one file, until no byte is left.\<close>

function read_descriptors :: "(bytes \<Rightarrow> ('d \<times> nat) option) \<Rightarrow> bytes \<Rightarrow> (unit, 'd list) outcome" where
  "read_descriptors rd bs =
     (if bs = [] then Ok []
      else (case rd bs of
              None \<Rightarrow> Panic ''called `Result::unwrap()` on an `Err` value''
            | Some (descriptor, n) \<Rightarrow>
                bind_out (read_descriptors rd (drop (max 1 n) bs)) (\<lambda>ds. Ok (descriptor # ds))))"
  by auto
termination by (relation "measure (\<lambda>(rd, bs). length bs)") auto

declare read_descriptors.simps [simp del]

fun read_files :: "'d sweep_env \<Rightarrow> path list \<Rightarrow> 'd list \<Rightarrow> ('d, 'd list) sweep" where
  "read_files env [] outputs = return_st outputs"
| "read_files env (p # ps) outputs =
     bind_st (must (on_disk (sys (fs_open p)))) (\<lambda>_.
     bind_st (must (on_disk (sys (fs_read p)))) (\<lambda>b.
     bind_st (lift_st (read_descriptors (read_descriptor env) b)) (\<lambda>ds.
     read_files env ps (outputs @ ds))))"

definition track_spendable_outputs :: "'d sweep_env \<Rightarrow> 'd list \<Rightarrow> u32 \<Rightarrow> ('d, unit) sweep" where
  "track_spendable_outputs env outputs spend_delay s =
     (if sweeper_accepts env then (Ok (), s\<lparr>tracked := tracked s @ [(outputs, spend_delay)]\<rparr>)
      else (Panic ''called `Result::unwrap()` on an `Err` value'', s))"

definition spend_height :: "'d sweep_env \<Rightarrow> (unit, u32) outcome" where
  "spend_height env =
     (if checks_overflow env \<and> unat (sweeper_height env) + 2 \<ge> 2 ^ 32 then Panic ''attempt to add with overflow''
      else Ok (sweeper_height env + 2))"

definition migrate_deprecated_spendable_outputs :: "'d sweep_env \<Rightarrow> path \<Rightarrow> ('d, unit) sweep" where
  "migrate_deprecated_spendable_outputs env ldk_data_dir =
     bind_st (log_info ''Beginning migration of deprecated spendable outputs'') (\<lambda>_ s.
     let pending_spendables_dir = ldk_data_dir @ [DEPRECATED_PENDING_SPENDABLE_OUTPUT_DIR];
         processing_spendables_dir = ldk_data_dir @ [''processing_spendable_outputs''];
         spendables_dir = ldk_data_dir @ [''spendable_outputs'']
     in bind_st (none_exists [pending_spendables_dir, processing_spendables_dir, spendables_dir]) (\<lambda>nothing.
        if nothing then log_info ''No deprecated spendable outputs to migrate, returning''
        else
          bind_st
            (on_persister (on_disk (sys (fs_read_dir pending_spendables_dir))) (\<lambda>r. case r of
               Ok entries \<Rightarrow> bind_st (move_pending processing_spendables_dir entries) (\<lambda>_.
                 concatenate_pending env processing_spendables_dir)
             | _ \<Rightarrow> return_st ())) (\<lambda>_.
          bind_st
            (on_persister (on_disk (sys (fs_read_dir spendables_dir))) (\<lambda>r. case r of
               Ok entries \<Rightarrow> read_files env entries []
             | _ \<Rightarrow> return_st [])) (\<lambda>outputs.
          bind_st (lift_st (spend_height env)) (\<lambda>spend_delay.
          bind_st (track_spendable_outputs env outputs spend_delay) (\<lambda>_.
          bind_st (must (on_disk (sys (fs_remove_tree spendables_dir)))) (\<lambda>_.
          bind_st (must (on_disk (sys (fs_remove_tree pending_spendables_dir)))) (\<lambda>_.
          log_info (''Successfully migrated '' @ show_nat (length outputs) @ '' deprecated spendable outputs'')))))))) s)"

section \<open>Facts\<close>

text \<open>On a disk without faults to come, a call replaces the tree.\<close>

definition tree :: "'d sweep_state \<Rightarrow> fs" where
  "tree s = cur (dsk (persister s))"

definition calm :: "'d sweep_state \<Rightarrow> bool" where
  "calm s \<longleftrightarrow> faults (dsk (persister s)) = []"

definition put_tree :: "fs \<Rightarrow> 'd sweep_state \<Rightarrow> 'd sweep_state" where
  "put_tree f s = s\<lparr>persister := (persister s)\<lparr>dsk := (dsk (persister s))\<lparr>cur := f, faults := [], hist := f # hist (dsk (persister s))\<rparr>\<rparr>\<rparr>"

named_theorems sweep_simps \<open>one call of the migration at a time\<close>

lemma put_tree_simps [sweep_simps]:
  "tree (put_tree f s) = f" "calm (put_tree f s)" "tracked (put_tree f s) = tracked s"
  "tree (s\<lparr>log_lines := l\<rparr>) = tree s" "calm (s\<lparr>log_lines := l\<rparr>) = calm s"
  "tree (s\<lparr>tracked := x\<rparr>) = tree s" "calm (s\<lparr>tracked := x\<rparr>) = calm s"
  by (simp_all add: put_tree_def tree_def calm_def)

lemma on_persister_sys [sweep_simps]:
  "calm s \<Longrightarrow> on_persister (on_disk (sys c)) k s = (case c (tree s) of (r, f) \<Rightarrow> k r (put_tree f s))"
  by (auto simp: on_persister_def on_disk_def sys_def next_fault_def perform_def put_tree_def tree_def calm_def
      split: prod.splits)

lemma must_sys [sweep_simps]:
  "calm s \<Longrightarrow> must (on_disk (sys c)) s = (case c (tree s) of (r, f) \<Rightarrow> (unwrap_res r, put_tree f s))"
  by (simp add: must_def on_persister_sys lift_st_def split: prod.splits)

lemma tree_reads [sweep_simps]:
  "lookup f d = Some Dir \<Longrightarrow> fs_read_dir d f = (Ok (children f d), f)"
  "lookup f d = None \<Longrightarrow> fs_read_dir d f = (Err NotFound, f)"
  "lookup f d = None \<Longrightarrow> fs_remove_tree d f = (Err NotFound, f)"
  "lookup f p = Some (File i) \<Longrightarrow> fs_open p f = (Ok (File i), f)"
  "lookup f p = Some (File i) \<Longrightarrow> fs_read p f = (Ok (data_of f i), f)"
  by (simp_all add: fs_read_dir_def fs_remove_tree_def fs_open_def fs_read_def)

lemma move_pending_none: "list_all (\<lambda>p. length (last p) \<noteq> 64) ps \<Longrightarrow> move_pending q ps = return_st ()"
  by (induction ps) auto

lemma concatenate_nothing [sweep_simps]:
  "calm s \<Longrightarrow> lookup (tree s) q = None \<Longrightarrow> concatenate_pending env q s = (Ok (), put_tree (tree s) s)"
  by (simp add: concatenate_pending_def bind_st_def return_st_def sweep_simps)

text \<open>What the files of a directory hold, descriptor by descriptor.\<close>

lemma read_files_value:
  assumes "calm s" "list_all (\<lambda>p. content_at (tree s) p \<noteq> None \<and>
      is_ok (read_descriptors (read_descriptor env) (the (content_at (tree s) p)))) ps"
  shows "\<exists>s'. read_files env ps ds s = (Ok (ds @ concat (map (\<lambda>p. case read_descriptors (read_descriptor env)
      (the (content_at (tree s) p)) of Ok xs \<Rightarrow> xs | _ \<Rightarrow> []) ps)), s') \<and>
    tree s' = tree s \<and> calm s' \<and> tracked s' = tracked s"
  using assms
proof (induction ps arbitrary: ds s)
  case Nil
  then show ?case by (auto simp: return_st_def)
next
  case (Cons p ps)
  obtain i where i: "lookup (tree s) p = Some (File i)" "content_at (tree s) p = Some (data_of (tree s) i)"
    using Cons.prems(2) by (auto simp: content_at_def split: option.splits node.splits)
  obtain xs where xs: "read_descriptors (read_descriptor env) (data_of (tree s) i) = Ok xs"
    using Cons.prems(2) i(2) by (auto simp: is_ok_iff)
  let ?s = "put_tree (tree s) (put_tree (tree s) s)"
  have step: "read_files env (p # ps) ds s = read_files env ps (ds @ xs) ?s"
    using Cons.prems(1) i(1) xs by (simp add: bind_st_def lift_st_def sweep_simps)
  have "calm ?s" "tree ?s = tree s" "tracked ?s = tracked s" using Cons.prems(1) by (simp_all add: sweep_simps)
  then show ?case using Cons.IH [of ?s "ds @ xs"] Cons.prems(2) step i(2) xs by simp
qed

lemma lookup_drop_ents:
  "lookup (fold drop_ent qs f) p = (if p \<in> set qs \<and> p \<noteq> [] then None else lookup f p)"
  by (induction qs arbitrary: f) (auto simp: lookup_def drop_ent_def alist_simps)

lemma remove_tree_Dir:
  assumes "lookup f d = Some Dir" "d \<noteq> []"
  shows "fst (fs_remove_tree d f) = Ok ()"
    "lookup (snd (fs_remove_tree d f)) p = (if take (length d) p = d then None else lookup f p)"
proof -
  show "fst (fs_remove_tree d f) = Ok ()" using assms(1) by (simp add: fs_remove_tree_def)
  have ne: "take (length d) p = d \<Longrightarrow> p \<noteq> []" using assms(2) by auto
  have gone: "p \<notin> fst ` set (ents f) \<Longrightarrow> p \<noteq> [] \<Longrightarrow> lookup f p = None"
    using map_of_eq_None_iff [of "ents f" p] by (simp add: lookup_def)
  have "lookup (snd (fs_remove_tree d f)) p =
      (if p \<in> fst ` set (ents f) \<and> take (length d) p = d \<and> p \<noteq> [] then None else lookup f p)"
    using assms(1) by (simp add: fs_remove_tree_def lookup_drop_ents)
  then show "lookup (snd (fs_remove_tree d f)) p = (if take (length d) p = d then None else lookup f p)"
    using ne gone by auto
qed

abbreviation pending_dir :: "path \<Rightarrow> path" where "pending_dir d \<equiv> d @ [DEPRECATED_PENDING_SPENDABLE_OUTPUT_DIR]"
abbreviation processing_dir :: "path \<Rightarrow> path" where "processing_dir d \<equiv> d @ [''processing_spendable_outputs'']"
abbreviation spendable_dir :: "path \<Rightarrow> path" where "spendable_dir d \<equiv> d @ [''spendable_outputs'']"

lemma none_exists_calm:
  "calm s \<Longrightarrow> \<exists>s'. none_exists ps s = (Ok (list_all (\<lambda>p. lookup (tree s) p = None) ps), s') \<and>
     calm s' \<and> tree s' = tree s \<and> tracked s' = tracked s \<and> cfg (persister s') = cfg (persister s) \<and>
     tmp_file_counter (persister s') = tmp_file_counter (persister s)"
proof (induction ps arbitrary: s)
  case (Cons p ps)
  have e: "exists_path p s = (Ok (lookup (tree s) p \<noteq> None), put_tree (tree s) s)"
    using Cons.prems by (auto simp: exists_path_def must_def on_persister_def on_disk_def path_exists_def fs_stat_def
        sys_no_fault lift_st_def put_tree_def tree_def calm_def split: option.splits)
  have "calm (put_tree (tree s) s)" "tree (put_tree (tree s) s) = tree s" "tracked (put_tree (tree s) s) = tracked s"
    "cfg (persister (put_tree (tree s) s)) = cfg (persister s)"
    "tmp_file_counter (persister (put_tree (tree s) s)) = tmp_file_counter (persister s)"
    by (simp_all add: put_tree_def tree_def calm_def)
  with Cons.IH [of "put_tree (tree s) s"] e show ?case
    by (cases "lookup (tree s) p") (auto simp: bind_st_def return_st_def)
qed (simp add: return_st_def)

section \<open>Properties\<close>

text \<open>A data directory with the given entries, and descriptors of one byte each.\<close>

definition sample_sweep :: "(path \<times> node) list \<Rightarrow> (nat \<times> bytes) list \<Rightarrow> u8 sweep_state" where
  "sample_sweep es cs = \<lparr>persister = store_new sample_cfg
     \<lparr>cur = \<lparr>ents = es, durable = es, pending = [], contents = cs, unsynced = [], next_ino = 9\<rparr>,
      faults = [], hist = []\<rparr>, log_lines = [], tracked = []\<rparr>"

definition sample_sweeper :: "u8 sweep_env" where
  "sample_sweeper = \<lparr>read_descriptor = (\<lambda>bs. case bs of [] \<Rightarrow> None | b # _ \<Rightarrow> Some (b, 1)),
     without_length = (\<lambda>b. b), key_bytes = [1], sweeper_height = 100, sweeper_accepts = True, checks_overflow = True\<rparr>"

text \<open>
  A migration that was cut off between its two removals cannot be finished: with the pending
  directory left and \<open>spendable_outputs\<close> gone, every start panics at the first removal, and the
  files stay as they are.
\<close>

theorem half_done_migration_blocks_start:
  assumes "calm s" "lookup (tree s) (pending_dir d) = Some Dir" "lookup (tree s) (processing_dir d) = None"
    and "lookup (tree s) (spendable_dir d) = None"
    and "list_all (\<lambda>p. length (last p) \<noteq> 64) (children (tree s) (pending_dir d))"
  shows "is_panic (fst (migrate_deprecated_spendable_outputs env d s)) \<and>
    tree (snd (migrate_deprecated_spendable_outputs env d s)) = tree s"
proof -
  define s1 where "s1 = s\<lparr>log_lines := log_lines s @ [''Beginning migration of deprecated spendable outputs'']\<rparr>"
  have s1: "calm s1" "tree s1 = tree s" using assms(1) by (simp_all add: s1_def sweep_simps)
  let ?dirs = "[pending_dir d, processing_dir d, spendable_dir d]"
  obtain s2 where s2: "none_exists ?dirs s1 = (Ok False, s2)" "calm s2" "tree s2 = tree s"
    using none_exists_calm [OF s1(1), of ?dirs] assms(2) s1(2) by auto
  show ?thesis
    using assms(2-4) s1 s2 unfolding migrate_deprecated_spendable_outputs_def
    by (auto simp: move_pending_none [OF assms(5)] bind_st_def return_st_def lift_st_def log_info_def Let_def
        sweep_simps s1_def [symmetric] spend_height_def track_spendable_outputs_def simp del: none_exists.simps)
qed

theorem half_done_migration_blocks_start_witness:
  "is_panic (fst (migrate_deprecated_spendable_outputs sample_sweeper [''data'']
     (sample_sweep [([''data''], Dir), ([''data'', ''pending_spendable_outputs''], Dir)] [])))"
  by (rule half_done_migration_blocks_start [THEN conjunct1])
    (simp_all add: sample_sweep_def tree_def calm_def store_new_def lookup_def children_def
      DEPRECATED_PENDING_SPENDABLE_OUTPUT_DIR_def)

end
