(* ===== verification/Migration.thy ===== *)
theory Migration imports Sweep begin

text \<open>
  The whole migration of \<open>sweep.rs\<close> on a disk without faults: what happens to the entries of the
  three directories, step by step (\<open>move_pending\<close>, \<open>concatenate_pending\<close> with its write through
  the store, the reading of the files), and the property that no output of any of them is lost.
\<close>

section \<open>Entries of a directory\<close>

lemma update_new: "k \<notin> fst ` set al \<Longrightarrow> AList.update k v al = al @ [(k, v)]"
  by (induction al) auto

lemma lookup_new: "lookup f p = None \<Longrightarrow> p \<noteq> [] \<and> p \<notin> fst ` set (ents f)"
  by (auto simp: lookup_def map_of_eq_None_iff split: if_splits)

lemma ents_put_new: "lookup f p = None \<Longrightarrow> ents (put_ent p n f) = ents f @ [(p, n)]"
  using lookup_new [of f p] by (simp add: put_ent_def update_new)

lemma ents_drop: "ents (drop_ent p f) = filter (\<lambda>e. fst e \<noteq> p) (ents f)"
  by (auto simp: drop_ent_def AList.delete_eq intro: filter_cong)

lemma children_put_new:
  "lookup f p = None \<Longrightarrow> children (put_ent p n f) d = children f d @ (if butlast p = d then [p] else [])"
  using lookup_new [of f p] by (auto simp: children_def ents_put_new)

lemma children_drop: "children (drop_ent p f) d = filter (\<lambda>q. q \<noteq> p) (children f d)"
  by (auto simp: children_def ents_drop filter_map comp_def intro!: arg_cong [where f = "map fst"] filter_cong)

lemma children_same [simp]:
  "children (put_data i b f) d = children f d" "children (f\<lparr>next_ino := n\<rparr>) d = children f d"
  "children (f\<lparr>unsynced := u\<rparr>) d = children f d" "children (f\<lparr>durable := x, pending := y\<rparr>) d = children f d"
  by (simp_all add: children_def put_data_def)

lemma children_lookup: "p \<in> set (children f d) \<Longrightarrow> lookup f p \<noteq> None \<and> p = d @ [last p]"
  using child_snoc [of p f d] by (auto simp: children_def lookup_def map_of_eq_None_iff)

lemma children_drop_other: "butlast p \<noteq> d \<Longrightarrow> children (drop_ent p f) d = children f d"
  unfolding children_drop by (rule filter_True) (auto simp: children_def)

lemma children_drops: "children (fold drop_ent qs f) d = filter (\<lambda>q. q \<notin> set qs) (children f d)"
  by (induction qs arbitrary: f) (auto simp: children_drop intro: filter_cong)

lemma data_of_drops: "data_of (fold drop_ent qs f) = data_of f"
  by (induction qs arbitrary: f) (simp_all add: fs_simps fun_eq_iff)

section \<open>One call on a calm disk\<close>

text \<open>\<open>now_at s f s'\<close>: from \<open>s\<close>, calls that returned have made the tree \<open>f\<close>, and nothing else but the log.\<close>

definition now_at :: "'d sweep_state \<Rightarrow> fs \<Rightarrow> 'd sweep_state \<Rightarrow> bool" where
  "now_at s f s' \<longleftrightarrow> calm s' \<and> tree s' = f \<and> tracked s' = tracked s \<and> cfg (persister s') = cfg (persister s) \<and>
     tmp_file_counter (persister s') = tmp_file_counter (persister s)"

lemma now_at_put [simp]: "now_at s f (put_tree f s)"
  by (simp add: now_at_def put_tree_def tree_def calm_def)

lemma now_at_trans: "now_at s f s1 \<Longrightarrow> now_at s1 f' s2 \<Longrightarrow> now_at s f' s2"
  by (simp add: now_at_def)

lemma now_at_calm: "now_at s f s' \<Longrightarrow> calm s' \<and> tree s' = f"
  by (simp add: now_at_def)

text \<open>The directories on the way to a path are there.\<close>

definition way_to :: "fs \<Rightarrow> path \<Rightarrow> bool" where
  "way_to f p \<longleftrightarrow> (\<forall>n \<le> length p. lookup f (take n p) = Some Dir)"

definition with_dir :: "path \<Rightarrow> fs \<Rightarrow> fs" where
  "with_dir p f = (if lookup f p = None then put_ent p Dir f else f)"

lemma create_dirs_along:
  assumes "\<And>n. n \<le> length cs \<Longrightarrow> lookup (cur d) (pre @ take n cs) = Some Dir"
  shows "create_dirs pre (cs @ es) d = create_dirs (pre @ cs) es d"
  using assms
proof (induction cs arbitrary: pre)
  case (Cons c cs)
  have "lookup (cur d) (pre @ [c]) = Some Dir" using Cons.prems [of 1] by simp
  moreover have "lookup (cur d) ((pre @ [c]) @ take n cs) = Some Dir" if "n \<le> length cs" for n
    using Cons.prems [of "Suc n"] that by simp
  ultimately show ?case using Cons.IH [of "pre @ [c]"] by simp
qed simp

lemma create_dir_calm:
  assumes "faults dk = []" "way_to (cur dk) d" "lookup (cur dk) (d @ [x]) \<in> {None, Some Dir}"
  shows "\<exists>h. create_dir_all (d @ [x]) dk = (Ok (), dk\<lparr>cur := with_dir (d @ [x]) (cur dk), hist := h\<rparr>)"
proof -
  have "create_dirs [] (d @ [x]) dk = create_dirs d [x] dk"
    using create_dirs_along [of d dk "[]" "[x]"] assms(2) by (simp add: way_to_def)
  then show ?thesis using assms(1,3)
    by (cases dk) (auto simp: create_dir_all_def sys_no_fault fs_mkdir_def with_dir_def split: option.splits)
qed

lemma make_dir_calm:
  assumes "calm s" "way_to (tree s) d" "lookup (tree s) (d @ [x]) \<in> {None, Some Dir}"
  shows "\<exists>s'. must (on_disk (create_dir_all (d @ [x]))) s = (Ok (), s') \<and> now_at s (with_dir (d @ [x]) (tree s)) s'"
proof -
  obtain h where "create_dir_all (d @ [x]) (dsk (persister s)) =
      (Ok (), (dsk (persister s))\<lparr>cur := with_dir (d @ [x]) (tree s), hist := h\<rparr>)"
    using create_dir_calm [of "dsk (persister s)" d x] assms by (auto simp: calm_def tree_def)
  then show ?thesis using assms(1)
    by (simp add: must_def on_persister_def on_disk_def lift_st_def now_at_def calm_def tree_def)
qed

section \<open>Moving the pending files\<close>

abbreviation into :: "path \<Rightarrow> path \<Rightarrow> path" where "into d p \<equiv> processing_dir d @ [last p]"

definition movable :: "path \<Rightarrow> fs \<Rightarrow> path \<Rightarrow> bool" where
  "movable d f p \<longleftrightarrow> p = pending_dir d @ [last p] \<and> content_at f p \<noteq> None \<and> lookup f (into d p) = None"

text \<open>The files \<open>mv\<close> have moved from the pending to the processing directory, which exists then.\<close>

definition moved :: "path \<Rightarrow> path list \<Rightarrow> fs \<Rightarrow> fs \<Rightarrow> bool" where
  "moved d mv f f' \<longleftrightarrow> fs_wf f' \<and> next_ino f' = next_ino f \<and> data_of f' = data_of f \<and>
     (\<forall>q. lookup f' q = (if q = processing_dir d \<and> mv \<noteq> [] then Some Dir else if q \<in> set mv then None
        else if q \<in> into d ` set mv then lookup f (pending_dir d @ [last q]) else lookup f q)) \<and>
     children f' (spendable_dir d) = children f (spendable_dir d) \<and>
     children f' (processing_dir d) = children f (processing_dir d) @ map (into d) mv"

lemma dir_names [simp]:
  "DEPRECATED_PENDING_SPENDABLE_OUTPUT_DIR \<noteq> ''processing_spendable_outputs''"
  "DEPRECATED_PENDING_SPENDABLE_OUTPUT_DIR \<noteq> ''spendable_outputs''"
  "''processing_spendable_outputs'' \<noteq> DEPRECATED_PENDING_SPENDABLE_OUTPUT_DIR"
  "''spendable_outputs'' \<noteq> DEPRECATED_PENDING_SPENDABLE_OUTPUT_DIR"
  "''spendable_outputs'' \<noteq> ''processing_spendable_outputs''"
  by (simp_all add: DEPRECATED_PENDING_SPENDABLE_OUTPUT_DIR_def)

lemma deeper: "d @ [a, b] \<noteq> d @ [c]" "d @ [c] \<noteq> d @ [a, b]"
  by auto

lemma lookup_with_dir: "p \<noteq> [] \<Longrightarrow> lookup f p \<in> {None, Some Dir} \<Longrightarrow>
    lookup (with_dir p f) q = (if q = p then Some Dir else lookup f q)"
  by (auto simp: with_dir_def fs_simps)

lemma moved_none: "fs_wf f \<Longrightarrow> moved d [] f f"
  by (simp add: moved_def)

lemma moved_one:
  assumes "fs_wf f" "movable d f p" "lookup f p = Some (File i)" "lookup f (processing_dir d) \<in> {None, Some Dir}"
  shows "moved d [p] f (put_ent (into d p) (File i) (drop_ent p (with_dir (processing_dir d) f)))"
proof -
  let ?g = "with_dir (processing_dir d) f" let ?f' = "put_ent (into d p) (File i) (drop_ent p ?g)"
  obtain x where x: "p = pending_dir d @ [x]" using assms(2) by (auto simp: movable_def)
  have g: "lookup ?g q = (if q = processing_dir d then Some Dir else lookup f q)" for q
    by (rule lookup_with_dir) (use assms(4) in auto)
  have new: "lookup (drop_ent p ?g) (into d p) = None"
    using assms(2) g by (simp add: fs_simps movable_def x)
  have wfg: "fs_wf ?g" using assms(1) fs_wf_mkdir [of f "processing_dir d"] by (simp add: with_dir_def)
  have "fs_wf ?f'" by (rule fs_wf_rename [OF wfg]) (use g assms(3) x in auto)
  moreover have "lookup ?f' q = (if q = processing_dir d then Some Dir else if q = p then None
      else if q = into d p then lookup f p else lookup f q)" for q
    using g assms(3) by (simp add: fs_simps x)
  moreover have "children ?g D = children f D" if "D \<noteq> d" for D
    using that by (simp add: with_dir_def children_put_new)
  then have "children ?f' (spendable_dir d) = children f (spendable_dir d)"
    "children ?f' (processing_dir d) = children f (processing_dir d) @ [into d p]"
    using children_put_new [OF new] by (simp_all add: children_drop_other x butlast_append)
  moreover have "data_of ?f' = data_of f" "next_ino ?f' = next_ino f"
    by (simp_all add: fs_simps fun_eq_iff with_dir_def)
  ultimately show ?thesis using x by (simp add: moved_def)
qed

lemma moved_Cons:
  assumes m1: "moved d [p] f f1" and m2: "moved d mv f1 f2"
    and p: "p \<notin> set mv" "\<forall>x\<in>set (p # mv). x = pending_dir d @ [last x]"
  shows "moved d (p # mv) f f2"
proof -
  obtain a where a: "p = pending_dir d @ [a]" using p(2) by (metis list.set_intros(1))
  have shape: "\<exists>b. x = pending_dir d @ [b] \<and> b \<noteq> a" if "x \<in> set mv" for x
  proof -
    have "x = pending_dir d @ [last x]" using p(2) that by simp
    moreover from this have "last x \<noteq> a" using that p(1) a by metis
    ultimately show ?thesis by blast
  qed
  have l1: "lookup f1 q = (if q = processing_dir d then Some Dir else if q = p then None
      else if q = processing_dir d @ [a] then lookup f p else lookup f q)" for q
    using m1 by (simp add: moved_def a)
  have l2: "lookup f2 q = (if q = processing_dir d \<and> mv \<noteq> [] then Some Dir else if q \<in> set mv then None
      else if q \<in> into d ` set mv then lookup f1 (pending_dir d @ [last q]) else lookup f1 q)" for q
    using m2 unfolding moved_def by blast
  have "lookup f2 q = (if q = processing_dir d then Some Dir else if q \<in> set (p # mv) then None
      else if q \<in> into d ` set (p # mv) then lookup f (pending_dir d @ [last q]) else lookup f q)" for q
  proof (cases "q \<in> into d ` set mv")
    case True
    then obtain b where b: "q = processing_dir d @ [b]" "b \<noteq> a" using shape by fastforce
    have "q \<notin> set (p # mv)" using b(1) shape by (fastforce simp: a)
    with True b show ?thesis using l2 [of q] l1 [of "pending_dir d @ [b]"] by (simp add: a)
  next
    case False
    then show ?thesis using l2 [of q] l1 [of q] by (auto simp: a)
  qed
  moreover have "children f2 (spendable_dir d) = children f (spendable_dir d)"
    "children f2 (processing_dir d) = children f (processing_dir d) @ map (into d) (p # mv)"
    using m1 m2 by (simp_all add: moved_def)
  ultimately show ?thesis using m1 m2 by (simp add: moved_def)
qed

lemma way_to_shorter: "length d < length q \<Longrightarrow> take n d \<noteq> q"
  by (metis length_take min.cobounded1 not_less)

lemma moved_lookup_one:
  assumes "moved d [p] f f'" "q \<noteq> processing_dir d" "q \<noteq> p" "q \<noteq> into d p"
  shows "lookup f' q = lookup f q"
  using assms by (simp add: moved_def)

lemma moved_one_keeps:
  assumes m: "moved d [p] f f'" "movable d f p" "way_to f d"
  shows "way_to f' d" "lookup f' (processing_dir d) = Some Dir"
    "movable d f x \<Longrightarrow> x \<noteq> p \<Longrightarrow> movable d f' x"
proof -
  obtain a where a: "p = pending_dir d @ [a]" using m(2) by (auto simp: movable_def)
  have "take n d \<noteq> processing_dir d \<and> take n d \<noteq> p \<and> take n d \<noteq> into d p" for n
    using way_to_shorter [of d "processing_dir d" n] way_to_shorter [of d p n] way_to_shorter [of d "into d p" n]
    by (simp add: a)
  then show "way_to f' d" using m(3) moved_lookup_one [OF m(1)] by (simp add: way_to_def)
  show "lookup f' (processing_dir d) = Some Dir" using m(1) by (simp add: moved_def)
  assume x: "movable d f x" "x \<noteq> p"
  then obtain b where b: "x = pending_dir d @ [b]" "b \<noteq> a" by (auto simp: movable_def a)
  have "lookup f' x = lookup f x" "lookup f' (into d x) = lookup f (into d x)"
    by (rule moved_lookup_one [OF m(1)]; simp add: a b)+
  moreover have "data_of f' = data_of f" using m(1) by (simp add: moved_def)
  ultimately have "content_at f' x = content_at f x" "lookup f' (into d x) = lookup f (into d x)"
    using content_at_cong [of f' x f] by simp_all
  then show "movable d f' x" using x(1) unfolding movable_def by metis
qed

lemma move_pending_calm:
  assumes "calm s" "fs_wf (tree s)" "way_to (tree s) d" "lookup (tree s) (processing_dir d) \<in> {None, Some Dir}"
    and "distinct ps" "\<forall>p\<in>set ps. length (last p) = 64 \<longrightarrow> movable d (tree s) p"
  shows "\<exists>s'. move_pending (processing_dir d) ps s = (Ok (), s') \<and> now_at s (tree s') s' \<and>
    moved d (filter (\<lambda>p. length (last p) = 64) ps) (tree s) (tree s')"
  using assms
proof (induction ps arbitrary: s)
  case Nil
  then show ?case by (auto simp: return_st_def now_at_def moved_none)
next
  case (Cons p ps)
  show ?case
  proof (cases "length (last p) = 64")
    case False
    with Cons.IH [OF Cons.prems(1-4)] Cons.prems(5,6) show ?thesis by simp
  next
    case True
    let ?f = "tree s" and ?proc = "processing_dir d"
    have mv: "movable d ?f p" using Cons.prems(6) True by simp
    then obtain i where i: "lookup ?f p = Some (File i)"
      by (auto simp: movable_def content_at_def split: option.splits node.splits)
    obtain s1 where s1: "must (on_disk (create_dir_all ?proc)) s = (Ok (), s1)" "now_at s (with_dir ?proc ?f) s1"
      using make_dir_calm [OF Cons.prems(1,3,4)] by blast
    let ?g = "with_dir ?proc ?f" let ?f' = "put_ent (into d p) (File i) (drop_ent p ?g)"
    have g: "lookup ?g q = (if q = ?proc then Some Dir else lookup ?f q)" for q
      by (rule lookup_with_dir) (use Cons.prems(4) in auto)
    obtain a where a: "p = pending_dir d @ [a]" using mv by (auto simp: movable_def)
    have ren: "fs_rename p (into d p) ?g = (Ok (), ?f')"
      using mv i by (simp add: fs_rename_def parent_dir_def g a butlast_append movable_def)
    let ?s2 = "put_tree ?f' s1"
    have step: "must (on_disk (sys (fs_rename p (into d p)))) s1 = (Ok (), ?s2)"
      using s1(2) ren by (simp add: now_at_def must_sys)
    have s2: "now_at s ?f' ?s2" "tree ?s2 = ?f'" "calm ?s2"
      using now_at_trans [OF s1(2) now_at_put] by (simp_all add: sweep_simps)
    have m1: "moved d [p] ?f ?f'" by (rule moved_one [OF Cons.prems(2) mv i Cons.prems(4)])
    note k = moved_one_keeps [OF m1 mv Cons.prems(3)]
    have "\<exists>s'. move_pending ?proc ps ?s2 = (Ok (), s') \<and> now_at ?s2 (tree s') s' \<and>
        moved d (filter (\<lambda>p. length (last p) = 64) ps) (tree ?s2) (tree s')"
    proof (rule Cons.IH)
      show "calm ?s2" "fs_wf (tree ?s2)" "way_to (tree ?s2) d" "lookup (tree ?s2) ?proc \<in> {None, Some Dir}" "distinct ps"
        using s2 k(1,2) m1 Cons.prems(5) by (simp_all add: moved_def)
      show "\<forall>x\<in>set ps. length (last x) = 64 \<longrightarrow> movable d (tree ?s2) x"
        using k(3) Cons.prems(5,6) s2(2) by auto
    qed
    then obtain s' where s': "move_pending ?proc ps ?s2 = (Ok (), s')" "now_at ?s2 (tree s') s'"
      "moved d (filter (\<lambda>p. length (last p) = 64) ps) ?f' (tree s')" unfolding s2(2) by blast
    have "moved d (p # filter (\<lambda>p. length (last p) = 64) ps) ?f (tree s')"
    proof (rule moved_Cons [OF m1 s'(3)])
      show "\<forall>x\<in>set (p # filter (\<lambda>p. length (last p) = 64) ps). x = pending_dir d @ [last x]"
        using Cons.prems(6) mv by (auto simp: movable_def)
    qed (use Cons.prems(5) in simp)
    moreover have "move_pending ?proc (p # ps) s = (Ok (), s')"
      using True s1(1) step s'(1) by (simp add: bind_st_def)
    ultimately show ?thesis using now_at_trans [OF s2(1) s'(2)] True by auto
  qed
qed

section \<open>A write of the store that meets no fault\<close>

text \<open>The value \<open>v\<close> is in the new file \<open>dest\<close> of the directory \<open>parent\<close>; nothing else has changed.\<close>

definition written :: "path \<Rightarrow> path \<Rightarrow> bytes \<Rightarrow> fs \<Rightarrow> fs \<Rightarrow> bool" where
  "written parent dest v f f' \<longleftrightarrow>
     (\<forall>q. lookup f' q = (if q = dest then Some (File (next_ino f)) else if q = parent then Some Dir else lookup f q)) \<and>
     (\<forall>j. data_of f' j = (if j = next_ino f then v else data_of f j)) \<and>
     (\<forall>D. D \<noteq> butlast parent \<longrightarrow> children f' D = children f D @ (if D = parent then [dest] else []))"

lemma write_tmp_calm:
  assumes "faults (dsk s) = []" "cur (dsk s) = f" "lookup f (butlast tmp) = Some Dir" "lookup f tmp = None"
  shows "\<exists>s' u. write_tmp tmp v s = (Ok (), s') \<and> faults (dsk s') = [] \<and> cfg s' = cfg s \<and>
    cur (dsk s') = (put_data (next_ino f) v (put_ent tmp (File (next_ino f))
      (put_data (next_ino f) [] (f\<lparr>next_ino := Suc (next_ino f)\<rparr>))))\<lparr>unsynced := u\<rparr>"
  using assms
  by (auto simp: write_tmp_def bind_st_def on_disk_def sys_no_fault sys_write_no_fault fs_create_def
      parent_dir_def new_file_def Let_def fs_sync_def data_of_put_data data_of_other)

lemma publish_calm:
  assumes "faults (dsk s) = []" "cur (dsk s) = f" "lookup f tmp = Some (File i)" "lookup f parent = Some Dir"
    "parent = butlast dest" "dest \<noteq> []" "tmp \<noteq> []" "tmp \<noteq> dest" "lookup f dest = None"
  shows "\<exists>s' x y. publish tmp dest parent s = (Ok (), s') \<and> faults (dsk s') = [] \<and> cfg s' = cfg s \<and>
    cur (dsk s') = (put_ent dest (File i) (drop_ent tmp f))\<lparr>durable := x, pending := y\<rparr>"
proof -
  have "length parent < length dest" using assms(5,6) by simp
  then have "parent \<noteq> tmp" "parent \<noteq> dest" using assms(3,4) by auto
  then show ?thesis using assms
    by (auto simp: publish_def bind_st_def on_disk_def sys_no_fault fs_rename_def parent_dir_def
        fs_open_def fs_sync_dir_def fs_simps)
qed

lemma published_tree:
  fixes g :: fs and v u x y
  assumes "lookup g parent = Some Dir" "lookup g dest = None" "lookup g tmp = None" "butlast tmp = parent"
    "butlast dest = parent" "tmp \<noteq> dest" "i = next_ino g"
  defines "f' \<equiv> (put_ent dest (File i) (drop_ent tmp ((put_data i v (put_ent tmp (File i)
      (put_data i [] (g\<lparr>next_ino := Suc i\<rparr>))))\<lparr>unsynced := u\<rparr>)))\<lparr>durable := x, pending := y\<rparr>"
  shows "lookup f' q = (if q = dest then Some (File i) else lookup g q)"
    "data_of f' j = (if j = i then v else data_of g j)"
    "children f' D = children g D @ (if D = parent then [dest] else [])"
proof -
  have ne: "tmp \<noteq> []" "dest \<noteq> []" using assms(2,3) by auto
  let ?g1 = "(put_data i v (put_ent tmp (File i) (put_data i [] (g\<lparr>next_ino := Suc i\<rparr>))))\<lparr>unsynced := u\<rparr>"
  have t: "lookup (put_data i [] (g\<lparr>next_ino := Suc i\<rparr>)) tmp = None" using assms(3) by (simp add: fs_simps)
  have d: "lookup (drop_ent tmp ?g1) dest = None" using assms(2,6) ne by (simp add: fs_simps)
  show "lookup f' q = (if q = dest then Some (File i) else lookup g q)"
    using ne assms(3) by (simp add: f'_def fs_simps)
  show "data_of f' j = (if j = i then v else data_of g j)" by (simp add: f'_def fs_simps)
  have "tmp \<notin> set (children g D)" using children_lookup [of tmp g D] assms(3) by auto
  then have "filter (\<lambda>q. q \<noteq> tmp) (children g D) = children g D" by (intro filter_True) auto
  then show "children f' D = children g D @ (if D = parent then [dest] else [])"
    using children_put_new [OF d] children_put_new [OF t] assms(4,5)
    by (simp add: f'_def children_drop)
qed

lemma kv_write_calm:
  assumes "faults (dsk s) = []" "alphabet_ok (cfg s)" "valid_key (cfg s) (prim, sec, key)" "cur (dsk s) = f"
    and parent: "key_dir (cfg s) (prim, sec, key) = d @ [e]" "way_to f d" "lookup f (d @ [e]) \<in> {None, Some Dir}"
    and "lookup f (d @ [e, key]) = None" "lookup f (d @ [e, key @ ''.'' @ show_u64 (tmp_file_counter s) @ ''.tmp'']) = None"
  shows "\<exists>s'. kv_write prim sec key v s = (Ok (), s') \<and> faults (dsk s') = [] \<and> cfg s' = cfg s \<and>
    written (d @ [e]) (d @ [e, key]) v f (cur (dsk s'))"
proof -
  define parent dest where "parent = d @ [e]" and "dest = d @ [e, key]"
  define tmp where "tmp = set_extension dest (show_u64 (tmp_file_counter s) @ ''.tmp'')"
  define g i where "g = with_dir parent f" and "i = next_ino f"
  have kp: "key_path (cfg s) (prim, sec, key) = dest"
    using parent(1) by (simp add: key_path_snoc dest_def del: key_dir.simps)
  have "dotless dest" using key_path_dotless [OF assms(2,3)] kp by simp
  then have tmp: "tmp = d @ [e, key @ ''.'' @ show_u64 (tmp_file_counter s) @ ''.tmp'']"
    using tmp_path [of dest "tmp_file_counter s"] by (simp add: tmp_def dest_def butlast_append)
  have g: "lookup g q = (if q = parent then Some Dir else lookup f q)" for q
    unfolding g_def parent_def by (rule lookup_with_dir) (use parent(3) in auto)
  obtain h where h: "create_dir_all parent (dsk s) = (Ok (), (dsk s)\<lparr>cur := g, hist := h\<rparr>)"
    using create_dir_calm [of "dsk s" d e] assms(1,4) parent(2,3) by (auto simp: g_def parent_def)
  define s1 where "s1 = s\<lparr>dsk := (dsk s)\<lparr>cur := g, hist := h\<rparr>, tmp_file_counter := tmp_file_counter s + 1\<rparr>"
  have s1: "faults (dsk s1) = []" "cur (dsk s1) = g" "cfg s1 = cfg s" using assms(1) by (simp_all add: s1_def)
  have i: "next_ino g = i" by (simp add: g_def i_def with_dir_def fs_simps)
  have pre: "butlast tmp = parent" "butlast dest = parent" "tmp \<noteq> dest" "tmp \<noteq> []" "dest \<noteq> []" "parent \<noteq> tmp" "parent \<noteq> dest"
    unfolding tmp dest_def parent_def by (simp_all add: butlast_append)
  have look: "lookup g tmp = None" "lookup g parent = Some Dir" "lookup g dest = None"
    using g pre assms(8,9) by (simp_all add: tmp dest_def)
  obtain s2 u where s2: "write_tmp tmp v s1 = (Ok (), s2)" "faults (dsk s2) = []" "cfg s2 = cfg s"
    "cur (dsk s2) = (put_data i v (put_ent tmp (File i) (put_data i [] (g\<lparr>next_ino := Suc i\<rparr>))))\<lparr>unsynced := u\<rparr>"
    using write_tmp_calm [OF s1(1,2) _ look(1), of v] look(2) pre(1) s1(3) i by auto
  define g1 where "g1 = cur (dsk s2)"
  have look1: "lookup g1 tmp = Some (File i)" "lookup g1 parent = Some Dir" "lookup g1 dest = None"
    unfolding g1_def s2(4) using look pre by (simp_all add: fs_simps)
  define s3 where "s3 = acquire dest s2"
  have s3: "faults (dsk s3) = []" "cur (dsk s3) = g1" "cfg s3 = cfg s"
    using s2(2,3) by (simp_all add: s3_def g1_def acquire_def Let_def)
  obtain s4 x y where s4: "publish tmp dest parent s3 = (Ok (), s4)" "faults (dsk s4) = []" "cfg s4 = cfg s3"
    "cur (dsk s4) = (put_ent dest (File i) (drop_ent tmp g1))\<lparr>durable := x, pending := y\<rparr>"
    using publish_calm [OF s3(1,2) look1(1,2) pre(2) [symmetric] pre(5,4,3) look1(3)] by blast
  define s5 where "s5 = garbage_collect_locks (release dest s4)"
  have s5: "dsk s5 = dsk s4" "cfg s5 = cfg s4"
    by (simp_all add: s5_def garbage_collect_locks_def release_def Let_def split: option.splits)
  have "kv_write prim sec key v s = (Ok (), s5)"
    using assms(3) h s2(1) s4(1) pre(2,5) dest_file_path_key [OF assms(2,3)] kp
    by (simp add: kv_write_def bind_st_def check_st_def dest_st_def parent_st_def path_parent_def on_disk_def
        tmp_path_st_def with_lock_def gc_st_def valid_key.simps Let_def s1_def [symmetric] tmp_def [symmetric]
        s3_def [symmetric] s5_def [symmetric])
  moreover have "written parent dest v f (cur (dsk s4))"
  proof -
    note P = published_tree [OF look(2,3,1) pre(1,2,3) i [symmetric],
        where v = v and u = u and x = x and y = y, folded s2(4), folded g1_def, folded s4(4)]
    have ch: "children g D = children f D" if "D \<noteq> butlast parent" for D
      using that by (simp add: g_def with_dir_def children_put_new)
    have "data_of g = data_of f" by (simp add: g_def with_dir_def fs_simps fun_eq_iff)
    then show ?thesis using P g ch by (simp add: written_def i_def)
  qed
  ultimately show ?thesis using s4(2,3) s3(3) s5 unfolding parent_def dest_def by auto
qed

section \<open>Gathering the pending files\<close>

lemma now_at_reads:
  "calm s \<Longrightarrow> lookup (tree s) p = Some (File i) \<Longrightarrow>
     must (on_disk (sys (fs_read p))) s = (Ok (data_of (tree s) i), put_tree (tree s) s)"
  by (simp add: sweep_simps)

lemma content_file: "content_at f p \<noteq> None \<longleftrightarrow> (\<exists>i. lookup f p = Some (File i) \<and> content_at f p = Some (data_of f i))"
  by (auto simp: content_at_def split: option.splits node.splits)

definition bytes_of :: "fs \<Rightarrow> path list \<Rightarrow> bytes" where
  "bytes_of f ps = concat (map (\<lambda>p. the (content_at f p)) ps)"

lemma read_all_calm:
  assumes "calm s" "\<forall>p\<in>set ps. content_at (tree s) p \<noteq> None"
  shows "\<exists>s'. read_all ps out s = (Ok (out @ bytes_of (tree s) ps), s') \<and> now_at s (tree s) s'"
  using assms
proof (induction ps arbitrary: s out)
  case Nil
  then show ?case by (simp add: return_st_def now_at_def bytes_of_def)
next
  case (Cons p ps)
  obtain i where i: "lookup (tree s) p = Some (File i)" "content_at (tree s) p = Some (data_of (tree s) i)"
    using Cons.prems(2) content_file [of "tree s" p] by auto
  let ?s = "put_tree (tree s) s"
  have s: "calm ?s" "tree ?s = tree s" using Cons.prems(1) by (simp_all add: sweep_simps)
  obtain s' where s': "read_all ps (out @ data_of (tree s) i) ?s = (Ok ((out @ data_of (tree s) i) @ bytes_of (tree s) ps), s')"
    "now_at ?s (tree s) s'" using Cons.IH [OF s(1), of "out @ data_of (tree s) i"] Cons.prems(2) s(2) by auto
  have "read_all (p # ps) out s = (Ok (out @ bytes_of (tree s) (p # ps)), s')"
    using now_at_reads [OF Cons.prems(1) i(1)] s'(1) i(2) by (simp add: bind_st_def bytes_of_def)
  moreover have "now_at s (tree s) s'" by (rule now_at_trans [OF now_at_put s'(2)])
  ultimately show ?case by blast
qed

text \<open>What one entry of \<open>children\<close> is: removing another tree leaves it.\<close>

lemma remove_tree_keeps:
  assumes "lookup f q = Some Dir" "q \<noteq> []" "\<And>p. p \<in> P \<Longrightarrow> take (length q) p \<noteq> q"
  defines "f' \<equiv> snd (fs_remove_tree q f)"
  shows "p \<in> P \<Longrightarrow> lookup f' p = lookup f p" "p \<in> P \<Longrightarrow> content_at f' p = content_at f p"
    "(\<And>x. x \<in> set (children f D) \<Longrightarrow> take (length q) x \<noteq> q) \<Longrightarrow> children f' D = children f D"
proof -
  let ?qs = "filter (\<lambda>p. take (length q) p = q) (map fst (ents f))"
  have f': "f' = fold drop_ent ?qs f" using assms(1) by (simp add: f'_def fs_remove_tree_def)
  show l: "p \<in> P \<Longrightarrow> lookup f' p = lookup f p" for p
    using remove_tree_Dir(2) [OF assms(1,2), of p] assms(3) by (simp add: f'_def)
  show "p \<in> P \<Longrightarrow> content_at f' p = content_at f p"
    by (rule content_at_cong) (use l in simp, simp add: f' data_of_drops)
  show "(\<And>x. x \<in> set (children f D) \<Longrightarrow> take (length q) x \<noteq> q) \<Longrightarrow> children f' D = children f D"
    unfolding f' children_drops by (rule filter_True) auto
qed

text \<open>The store of a sweep that writes one file of outputs.\<close>

definition store_ready :: "'d sweep_env \<Rightarrow> path \<Rightarrow> 'd sweep_state \<Rightarrow> bool" where
  "store_ready env d s \<longleftrightarrow>
     (let c = cfg (persister s); key = hex_str (key_bytes env) in
      alphabet_ok c \<and> data_dir c = d \<and> valid_key c (''spendable_outputs'', [], key) \<and>
      lookup (tree s) (spendable_dir d @ [key]) = None \<and>
      lookup (tree s) (spendable_dir d @ [key @ ''.'' @ show_u64 (tmp_file_counter (persister s)) @ ''.tmp'']) = None)"

lemma sweep_write_calm:
  assumes "calm s" "store_ready env d s" "way_to (tree s) d" "lookup (tree s) (spendable_dir d) \<in> {None, Some Dir}"
  defines "key \<equiv> hex_str (key_bytes env)"
  shows "\<exists>s'. must (kv_write ''spendable_outputs'' [] key v) s = (Ok (), s') \<and> calm s' \<and> tracked s' = tracked s \<and>
    written (spendable_dir d) (spendable_dir d @ [key]) v (tree s) (tree s')"
proof -
  have r: "alphabet_ok (cfg (persister s))" "valid_key (cfg (persister s)) (''spendable_outputs'', [], key)"
    "key_dir (cfg (persister s)) (''spendable_outputs'', [], key) = d @ [''spendable_outputs'']"
    "lookup (tree s) (d @ [''spendable_outputs'', key]) = None"
    "lookup (tree s) (d @ [''spendable_outputs'', key @ ''.'' @ show_u64 (tmp_file_counter (persister s)) @ ''.tmp'']) = None"
    using assms(2) by (simp_all add: store_ready_def Let_def key_def)
  have f: "faults (dsk (persister s)) = []" "cur (dsk (persister s)) = tree s"
    using assms(1) by (simp_all add: calm_def tree_def)
  obtain kv where "kv_write ''spendable_outputs'' [] key v (persister s) = (Ok (), kv)" "faults (dsk kv) = []"
    "written (d @ [''spendable_outputs'']) (d @ [''spendable_outputs'', key]) v (tree s) (cur (dsk kv))"
    using kv_write_calm [OF f(1) r(1,2) f(2) r(3) assms(3,4) r(4,5), of v] by blast
  then show ?thesis by (simp add: must_def on_persister_def lift_st_def calm_def tree_def)
qed

text \<open>
  The pending and processing files are now one file of the sweep directory, in their order, and
  the files that were in it are untouched.
\<close>

definition gathered :: "'d sweep_env \<Rightarrow> path \<Rightarrow> fs \<Rightarrow> fs \<Rightarrow> bool" where
  "gathered env d f f' \<longleftrightarrow>
     (let b = bytes_of f (children f (processing_dir d)); new = spendable_dir d @ [hex_str (key_bytes env)] in
      lookup f' (pending_dir d) = lookup f (pending_dir d) \<and>
      lookup f' (spendable_dir d) = (if b = [] then lookup f (spendable_dir d) else Some Dir) \<and>
      children f' (spendable_dir d) = children f (spendable_dir d) @ (if b = [] then [] else [new]) \<and>
      (\<forall>p \<in> set (children f (spendable_dir d)). content_at f' p = content_at f p) \<and>
      (b \<noteq> [] \<longrightarrow> content_at f' new = Some b))"

lemma written_gathered:
  assumes "fs_wf f" "written (spendable_dir d) new v f g" "new = spendable_dir d @ [hex_str (key_bytes env)]"
    and "lookup f new = None" "lookup f (processing_dir d) = Some Dir"
    and "v = bytes_of f (children f (processing_dir d))" "v \<noteq> []"
  shows "gathered env d f (snd (fs_remove_tree (processing_dir d) g))"
proof -
  let ?q = "processing_dir d" and ?sp = "spendable_dir d" and ?g' = "snd (fs_remove_tree (processing_dir d) g)"
  have w: "lookup g p = (if p = new then Some (File (next_ino f)) else if p = ?sp then Some Dir else lookup f p)"
    "data_of g j = (if j = next_ino f then v else data_of f j)"
    "children g ?sp = children f ?sp @ [new]" for p j
    using assms(2) by (simp_all add: written_def)
  have proc: "lookup g ?q = Some Dir" using w(1) assms(3,5) by simp
  let ?P = "insert new (insert ?sp (insert (pending_dir d) (set (children f ?sp))))"
  have off: "take (length ?q) p \<noteq> ?q" if "p \<in> ?P" for p
  proof -
    have "\<exists>x r. p = d @ x # r \<and> x \<noteq> ''processing_spendable_outputs''"
    proof (cases "p \<in> set (children f ?sp)")
      case True
      from children_lookup [OF this] have "p = d @ ''spendable_outputs'' # [last p]" by simp
      then show ?thesis by (metis dir_names(5))
    qed (use that in \<open>auto simp: assms(3)\<close>)
    then show ?thesis by auto
  qed
  have "?q \<noteq> []" by simp
  note K = remove_tree_keeps [where P = ?P, OF proc this off]
  have c: "content_at g p = content_at f p" if "p \<in> set (children f ?sp)" for p
  proof (rule content_at_cong)
    have "lookup f p \<noteq> None" "p = ?sp @ [last p]" using children_lookup [OF that] by simp_all
    then have "p \<noteq> new" "p \<noteq> ?sp" using assms(4) by (metis, metis append_self_conv not_Cons_self2)
    then show "lookup g p = lookup f p" using w(1) by simp
  next
    fix i assume "lookup f p = Some (File i)"
    then have "i \<noteq> next_ino f" using fs_wf_bound [OF assms(1)] by blast
    then show "data_of g i = data_of f i" using w(2) by simp
  qed
  have "children ?g' ?sp = children g ?sp" by (rule K(3)) (use off w(3) in auto)
  moreover have "content_at g new = Some v" using w(1,2) by (simp add: content_at_def)
  ultimately show ?thesis using K(1,2) c w(1,3) assms(6,7) by (simp add: gathered_def Let_def assms(3))
qed

lemma concatenate_calm:
  assumes "calm s" "fs_wf (tree s)" "store_ready env d s" "way_to (tree s) d" "without_length env = id"
    and "lookup (tree s) (spendable_dir d) \<in> {None, Some Dir}"
    and "lookup (tree s) (processing_dir d) = Some Dir \<or>
      lookup (tree s) (processing_dir d) = None \<and> children (tree s) (processing_dir d) = []"
    and "\<forall>p\<in>set (children (tree s) (processing_dir d)). content_at (tree s) p \<noteq> None"
  shows "\<exists>s'. concatenate_pending env (processing_dir d) s = (Ok (), s') \<and> calm s' \<and> tracked s' = tracked s \<and>
    gathered env d (tree s) (tree s')"
proof (cases "lookup (tree s) (processing_dir d)")
  case None
  then have "gathered env d (tree s) (tree s)" using assms(7) by (simp add: gathered_def bytes_of_def)
  moreover have "concatenate_pending env (processing_dir d) s = (Ok (), put_tree (tree s) s)"
    by (rule concatenate_nothing [OF assms(1) None])
  ultimately show ?thesis by (simp add: sweep_simps)
next
  case (Some n)
  then have proc: "lookup (tree s) (processing_dir d) = Some Dir" using assms(7) by auto
  let ?ps = "children (tree s) (processing_dir d)" let ?s1 = "put_tree (tree s) s" and ?v = "bytes_of (tree s) ?ps"
  have s1: "calm ?s1" "tree ?s1 = tree s" by (simp_all add: sweep_simps)
  obtain s2 where s2: "read_all ?ps [] ?s1 = (Ok ?v, s2)" "now_at ?s1 (tree s) s2"
    using read_all_calm [OF s1(1), of ?ps "[]"] assms(8) s1(2) by auto
  have n2: "now_at s (tree s) s2" using now_at_trans [OF now_at_put s2(2)] .
  have step: "concatenate_pending env (processing_dir d) s =
      (if ?v = [] then (Ok (), s2)
       else bind_st (must (kv_write ''spendable_outputs'' [] (hex_str (key_bytes env)) ?v))
         (\<lambda>_. must (on_disk (sys (fs_remove_tree (processing_dir d))))) s2)"
    using assms(1,5) proc s2(1) by (simp add: concatenate_pending_def bind_st_def return_st_def sweep_simps)
  show ?thesis
  proof (cases "?v = []")
    case True
    then have "gathered env d (tree s) (tree s)" by (simp add: gathered_def)
    then show ?thesis using step True n2 by (auto simp: now_at_def)
  next
    case False
    have r2: "calm s2" "store_ready env d s2" "tree s2 = tree s"
      using n2 assms(3) by (simp_all add: now_at_def store_ready_def)
    obtain s3 where s3: "must (kv_write ''spendable_outputs'' [] (hex_str (key_bytes env)) ?v) s2 = (Ok (), s3)"
      "calm s3" "tracked s3 = tracked s2"
      "written (spendable_dir d) (spendable_dir d @ [hex_str (key_bytes env)]) ?v (tree s) (tree s3)"
      using sweep_write_calm [OF r2(1,2), of ?v] r2(3) assms(4,6) by auto
    have new: "lookup (tree s) (spendable_dir d @ [hex_str (key_bytes env)]) = None"
      using assms(3) by (simp add: store_ready_def Let_def)
    have "lookup (tree s3) (processing_dir d) = Some Dir" using s3(4) proc by (simp add: written_def)
    then have "must (on_disk (sys (fs_remove_tree (processing_dir d)))) s3 =
        (Ok (), put_tree (snd (fs_remove_tree (processing_dir d) (tree s3))) s3)"
      using remove_tree_Dir(1) [of "tree s3" "processing_dir d"]
      by (cases "fs_remove_tree (processing_dir d) (tree s3)") (simp add: must_sys [OF s3(2)])
    then show ?thesis
      using step False s3(1,3) n2 written_gathered [OF assms(2) s3(4) refl new proc refl False]
      by (simp add: bind_st_def sweep_simps now_at_def)
  qed
qed

section \<open>The descriptors of several files\<close>

text \<open>A reader that takes what it needs of a stream, at least a byte, and does not look further.\<close>

definition streaming :: "(bytes \<Rightarrow> ('d \<times> nat) option) \<Rightarrow> bool" where
  "streaming rd \<longleftrightarrow> (\<forall>a x n. rd a = Some (x, n) \<longrightarrow> 0 < n \<and> n \<le> length a \<and> (\<forall>b. rd (a @ b) = Some (x, n)))"

lemma read_descriptors_append:
  assumes "streaming rd" "read_descriptors rd a = Ok xs" "read_descriptors rd b = Ok ys"
  shows "read_descriptors rd (a @ b) = Ok (xs @ ys)"
  using assms
proof (induction rd a arbitrary: xs rule: read_descriptors.induct)
  case (1 rd a)
  show ?case
  proof (cases "a = []")
    case True
    with 1(3,4) show ?thesis by (simp add: read_descriptors.simps [of rd "[]"])
  next
    case False
    then obtain x n zs where r: "rd a = Some (x, n)" "read_descriptors rd (drop (max 1 n) a) = Ok zs" "xs = x # zs"
      using 1(3) by (auto simp: read_descriptors.simps [of rd a] bind_out_Ok_iff split: option.splits outcome.splits)
    have n: "0 < n" "n \<le> length a" "rd (a @ b) = Some (x, n)" using 1(2) r(1) by (auto simp: streaming_def)
    have "read_descriptors rd (drop (max 1 n) a @ b) = Ok (zs @ ys)"
      using 1(1) [OF False r(1) refl 1(2) r(2) 1(4)] .
    then show ?thesis using False n r(3) by (simp add: read_descriptors.simps [of rd "a @ b"])
  qed
qed

definition readable :: "'d sweep_env \<Rightarrow> fs \<Rightarrow> path \<Rightarrow> bool" where
  "readable env f p \<longleftrightarrow> content_at f p \<noteq> None \<and> is_ok (read_descriptors (read_descriptor env) (the (content_at f p)))"

definition outputs_in :: "'d sweep_env \<Rightarrow> fs \<Rightarrow> path list \<Rightarrow> 'd list" where
  "outputs_in env f ps = concat (map (\<lambda>p. case read_descriptors (read_descriptor env) (the (content_at f p)) of
     Ok xs \<Rightarrow> xs | _ \<Rightarrow> []) ps)"

lemma outputs_in_append [simp]: "outputs_in env f (ps @ qs) = outputs_in env f ps @ outputs_in env f qs"
  by (simp add: outputs_in_def)

lemma outputs_in_cong: "(\<And>p. p \<in> set ps \<Longrightarrow> content_at f p = content_at g p) \<Longrightarrow> outputs_in env f ps = outputs_in env g ps"
  unfolding outputs_in_def by (intro arg_cong [where f = concat] map_cong) simp_all

lemma read_bytes_of:
  assumes "streaming (read_descriptor env)" "list_all (readable env f) ps"
  shows "read_descriptors (read_descriptor env) (bytes_of f ps) = Ok (outputs_in env f ps)"
  using assms(2)
proof (induction ps)
  case Nil
  show ?case by (simp add: bytes_of_def outputs_in_def read_descriptors.simps [of _ "[]"])
next
  case (Cons p ps)
  then obtain xs where xs: "read_descriptors (read_descriptor env) (the (content_at f p)) = Ok xs"
    by (auto simp: readable_def is_ok_iff)
  from read_descriptors_append [OF assms(1) xs] Cons xs show ?case
    by (simp add: bytes_of_def outputs_in_def)
qed

lemma read_files_outputs:
  assumes "calm s" "list_all (readable env (tree s)) ps"
  shows "\<exists>s'. read_files env ps [] s = (Ok (outputs_in env (tree s) ps), s') \<and> tree s' = tree s \<and> calm s' \<and> tracked s' = tracked s"
  using read_files_value [OF assms(1), of env ps "[]"] assms(2)
  by (simp add: readable_def [abs_def] outputs_in_def)

section \<open>The tree before the migration\<close>

lemma tree_way: "tree_ok f \<Longrightarrow> lookup f p = Some Dir \<Longrightarrow> way_to f p"
proof (induction p rule: rev_induct)
  case Nil
  then show ?case by (simp add: way_to_def)
next
  case (snoc x p)
  have "lookup f p = Some Dir" using tree_ok_entry [OF snoc.prems] by simp
  with snoc show ?case by (auto simp: way_to_def le_Suc_eq)
qed

lemma way_to_parent: "way_to f (d @ [x]) \<Longrightarrow> way_to f d"
  by (auto simp: way_to_def) (metis le_Suc_eq length_append_singleton take_append append_Nil2 diff_is_0_eq take_0)

lemma tree_children_none: "tree_ok f \<Longrightarrow> lookup f D = None \<Longrightarrow> children f D = []"
proof (rule ccontr)
  assume a: "tree_ok f" "lookup f D = None" "children f D \<noteq> []"
  then obtain p where "p \<in> set (children f D)" by fastforce
  from children_lookup [OF this] obtain n where "lookup f p = Some n" "butlast p = D" "p \<noteq> []"
    by (metis butlast_snoc not_None_eq snoc_eq_iff_butlast)
  from tree_ok_entry [OF a(1) this(1,3)] this(2) a(2) show False by simp
qed

lemma distinct_children: "fs_wf f \<Longrightarrow> distinct (children f D)"
  by (simp add: children_def fs_wf_def)

definition pending_files :: "fs \<Rightarrow> path \<Rightarrow> path list" where
  "pending_files f d = filter (\<lambda>p. length (last p) = 64) (children f (pending_dir d))"

text \<open>After the move, the processing directory has the bytes of both directories.\<close>

lemma moved_contents:
  assumes m: "moved d mv f f'" and mv: "\<forall>p\<in>set mv. movable d f p"
  shows "p \<in> set mv \<Longrightarrow> content_at f' (into d p) = content_at f p"
    "q \<in> set (children f (processing_dir d)) \<Longrightarrow> content_at f' q = content_at f q"
    "bytes_of f' (children f' (processing_dir d)) = bytes_of f (children f (processing_dir d) @ mv)"
    "q = spendable_dir d @ r \<Longrightarrow> lookup f' q = lookup f q \<and> content_at f' q = content_at f q"
    "lookup f' (pending_dir d) = lookup f (pending_dir d)" "way_to f d \<Longrightarrow> way_to f' d"
proof -
  have l: "lookup f' q = (if q = processing_dir d \<and> mv \<noteq> [] then Some Dir else if q \<in> set mv then None
      else if q \<in> into d ` set mv then lookup f (pending_dir d @ [last q]) else lookup f q)" for q
    using m unfolding moved_def by blast
  have data: "data_of f' = data_of f" and ch: "children f' (processing_dir d) = children f (processing_dir d) @ map (into d) mv"
    using m by (simp_all add: moved_def)
  have shape: "p = pending_dir d @ [last p]" "lookup f (into d p) = None" if "p \<in> set mv" for p
    using mv that unfolding movable_def by blast+
  have A: "content_at f' (into d p) = content_at f p" if "p \<in> set mv" for p
  proof -
    have "into d p \<notin> set mv" using shape(1) by fastforce
    then have "lookup f' (into d p) = lookup f p" using l [of "into d p"] that shape(1) [OF that] by simp
    then show ?thesis using data by (simp add: content_at_def split: option.splits node.splits)
  qed
  then show "p \<in> set mv \<Longrightarrow> content_at f' (into d p) = content_at f p" .
  have B: "content_at f' q = content_at f q" if "q \<in> set (children f (processing_dir d))" for q
  proof (rule content_at_cong)
    have q: "lookup f q \<noteq> None" "q = processing_dir d @ [last q]" using children_lookup [OF that] by simp_all
    then have "q \<notin> set mv" "q \<notin> into d ` set mv" "q \<noteq> processing_dir d" using shape by (fastforce, fastforce, auto)
    then show "lookup f' q = lookup f q" using l by simp
  qed (simp add: data)
  then show "q \<in> set (children f (processing_dir d)) \<Longrightarrow> content_at f' q = content_at f q" .
  have "map (\<lambda>p. the (content_at f' p)) (children f (processing_dir d)) = map (\<lambda>p. the (content_at f p)) (children f (processing_dir d))"
    "map (\<lambda>p. the (content_at f' (into d p))) mv = map (\<lambda>p. the (content_at f p)) mv"
    using A B by simp_all
  then show "bytes_of f' (children f' (processing_dir d)) = bytes_of f (children f (processing_dir d) @ mv)"
    by (simp only: bytes_of_def ch map_append map_map comp_def concat_append)
  show "lookup f' q = lookup f q \<and> content_at f' q = content_at f q" if "q = spendable_dir d @ r"
  proof -
    have "q \<notin> set mv" "q \<notin> into d ` set mv" "q \<noteq> processing_dir d" using shape(1) that by (fastforce, auto)
    then have "lookup f' q = lookup f q" using l by simp
    then show ?thesis using content_at_cong [of f' q f] data by simp
  qed
  have "pending_dir d \<notin> set mv" "pending_dir d \<notin> into d ` set mv" using shape(1) by (fastforce, auto)
  then show "lookup f' (pending_dir d) = lookup f (pending_dir d)" using l [of "pending_dir d"] by simp
  have "take n d \<notin> set mv \<and> take n d \<notin> into d ` set mv \<and> take n d \<noteq> processing_dir d" for n
    using shape(1) [of "take n d"] way_to_shorter [of d "pending_dir d @ [last (take n d)]" n]
      way_to_shorter [of d "processing_dir d" n] way_to_shorter [of d "into d p" n for p] by auto
  then show "way_to f d \<Longrightarrow> way_to f' d" using l by (simp add: way_to_def)
qed

section \<open>Properties\<close>

lemma store_ready_moved:
  assumes "store_ready env d s" "now_at s (tree s') s'" "moved d mv (tree s) (tree s')" "\<forall>p\<in>set mv. movable d (tree s) p"
  shows "store_ready env d s'"
  using assms(1,2) moved_contents(4) [OF assms(3,4), of "spendable_dir d @ [x]" "[x]" for x]
  by (auto simp: store_ready_def now_at_def Let_def)

text \<open>A disk and a store on which the migration finds the directories of an older version.\<close>

definition migration_ready :: "'d sweep_env \<Rightarrow> path \<Rightarrow> 'd sweep_state \<Rightarrow> bool" where
  "migration_ready env d s \<longleftrightarrow>
     calm s \<and> fs_wf (tree s) \<and> tree_ok (tree s) \<and> store_ready env d s \<and>
     lookup (tree s) (pending_dir d) = Some Dir \<and>
     lookup (tree s) (processing_dir d) \<in> {None, Some Dir} \<and> lookup (tree s) (spendable_dir d) \<in> {None, Some Dir} \<and>
     list_all (\<lambda>p. lookup (tree s) (into d p) = None) (pending_files (tree s) d)"

definition old_files :: "fs \<Rightarrow> path \<Rightarrow> path list" where
  "old_files f d = children f (spendable_dir d) @ children f (processing_dir d) @ pending_files f d"

lemma gather_calm:
  assumes "migration_ready env d s" "without_length env = id" "list_all (readable env (tree s)) (old_files (tree s) d)"
  shows "\<exists>s'. bind_st (move_pending (processing_dir d) (children (tree s) (pending_dir d)))
      (\<lambda>_. concatenate_pending env (processing_dir d)) s = (Ok (), s') \<and> calm s' \<and> tracked s' = tracked s \<and>
    (let b = bytes_of (tree s) (children (tree s) (processing_dir d) @ pending_files (tree s) d);
         new = spendable_dir d @ [hex_str (key_bytes env)]; f = tree s; f' = tree s' in
      lookup f' (pending_dir d) = Some Dir \<and>
      lookup f' (spendable_dir d) = (if b = [] then lookup f (spendable_dir d) else Some Dir) \<and>
      children f' (spendable_dir d) = children f (spendable_dir d) @ (if b = [] then [] else [new]) \<and>
      (\<forall>p \<in> set (children f (spendable_dir d)). content_at f' p = content_at f p) \<and>
      (b \<noteq> [] \<longrightarrow> content_at f' new = Some b))"
proof -
  let ?f = "tree s" and ?mv = "pending_files (tree s) d"
  have R: "calm s" "fs_wf ?f" "tree_ok ?f" "store_ready env d s" "lookup ?f (pending_dir d) = Some Dir"
    "lookup ?f (processing_dir d) \<in> {None, Some Dir}" "lookup ?f (spendable_dir d) \<in> {None, Some Dir}"
    "\<forall>p\<in>set ?mv. lookup ?f (into d p) = None"
    using assms(1) by (simp_all add: migration_ready_def list_all_iff)
  have way: "way_to ?f d" using way_to_parent [OF tree_way [OF R(3,5)]] .
  have rd: "content_at ?f p \<noteq> None" if "p \<in> set (old_files ?f d)" for p
    using assms(3) that by (auto simp: list_all_iff readable_def)
  have mv: "\<forall>p\<in>set ?mv. movable d ?f p"
  proof
    fix p assume p: "p \<in> set ?mv"
    then have "p \<in> set (children ?f (pending_dir d))" by (simp add: pending_files_def)
    from children_lookup [OF this] show "movable d ?f p" using p R(8) rd by (simp add: movable_def old_files_def)
  qed
  have "\<forall>p\<in>set (children ?f (pending_dir d)). length (last p) = 64 \<longrightarrow> movable d ?f p"
    using mv by (simp add: pending_files_def)
  then obtain s1 where s1: "move_pending (processing_dir d) (children ?f (pending_dir d)) s = (Ok (), s1)"
    "now_at s (tree s1) s1" "moved d ?mv ?f (tree s1)"
    using move_pending_calm [OF R(1,2) way R(6) distinct_children [OF R(2)]] unfolding pending_files_def by blast
  note M = moved_contents [OF s1(3) mv]
  let ?g = "tree s1"
  have kids: "children ?g (processing_dir d) = children ?f (processing_dir d) @ map (into d) ?mv"
    "children ?g (spendable_dir d) = children ?f (spendable_dir d)" "fs_wf ?g"
    and proc: "lookup ?g (processing_dir d) = (if ?mv \<noteq> [] then Some Dir else lookup ?f (processing_dir d))"
    using s1(3) by (simp_all add: moved_def)
  have spend: "lookup ?g (spendable_dir d) = lookup ?f (spendable_dir d)" using M(4) [of _ "[]"] by simp
  have wayg: "way_to ?g d" using M(6) [OF way] .
  have whole: "\<forall>p\<in>set (children ?g (processing_dir d)). content_at ?g p \<noteq> None"
    using M(1,2) rd unfolding kids(1) by (auto simp: old_files_def)
  have "lookup ?g (processing_dir d) = Some Dir \<or> lookup ?g (processing_dir d) = None \<and> children ?g (processing_dir d) = []"
    using R(6) proc kids(1) tree_children_none [OF R(3), of "processing_dir d"] by auto
  then obtain s2 where s2: "concatenate_pending env (processing_dir d) s1 = (Ok (), s2)" "calm s2"
    "tracked s2 = tracked s1" "gathered env d ?g (tree s2)"
    using concatenate_calm [of s1 env d] s1(2) kids(3) store_ready_moved [OF R(4) s1(2,3) mv] wayg assms(2) R(7) spend whole
    by (auto simp: now_at_def)
  have keep: "\<forall>p\<in>set (children ?f (spendable_dir d)). content_at ?g p = content_at ?f p"
    using M(4) children_lookup by blast
  show ?thesis
    using s1(1,2) s2 M(3,5) R(5) kids(2) spend keep
    by (auto simp: bind_st_def gathered_def Let_def now_at_def)
qed

text \<open>
  C27. No output of an older version is lost. On a disk without faults, let every file of
  \<open>spendable_outputs\<close> and \<open>processing_spendable_outputs\<close> and every file of
  \<open>pending_spendable_outputs\<close> with a name of 64 characters hold whole descriptors, none of the
  latter with a name that the processing directory already has, and let one of them hold a byte or the
  first directory exist. Then the migration returns, the sweeper was given the descriptors of all
  these files, in that order, to be spent two blocks above its height, and the pending and the
  spendable directory are gone. The reader of descriptors takes what it needs of a stream,
  \<open>WithoutLength\<close> writes the bytes as they are, the random key is no file of the directory, and
  the sweeper does not refuse.
\<close>

theorem migration_tracks_all_outputs:
  assumes "migration_ready env d s" "list_all (readable env (tree s)) (old_files (tree s) d)"
    and "lookup (tree s) (spendable_dir d) = Some Dir \<or>
      bytes_of (tree s) (children (tree s) (processing_dir d) @ pending_files (tree s) d) \<noteq> []"
    and "streaming (read_descriptor env)" "without_length env = id"
    and "sweeper_accepts env" "unat (sweeper_height env) + 2 < 2 ^ 32"
  shows "case migrate_deprecated_spendable_outputs env d s of (r, s') \<Rightarrow> r = Ok () \<and>
    tracked s' = tracked s @ [(outputs_in env (tree s) (old_files (tree s) d), sweeper_height env + 2)] \<and>
    lookup (tree s') (pending_dir d) = None \<and> lookup (tree s') (spendable_dir d) = None"
proof -
  let ?f = "tree s" and ?new = "spendable_dir d @ [hex_str (key_bytes env)]"
  define b where "b = bytes_of ?f (children ?f (processing_dir d) @ pending_files ?f d)"
  define s0 where "s0 = s\<lparr>log_lines := log_lines s @ [''Beginning migration of deprecated spendable outputs'']\<rparr>"
  have r0: "migration_ready env d s0" "tree s0 = ?f" "tracked s0 = tracked s"
    using assms(1) by (simp_all add: s0_def migration_ready_def store_ready_def sweep_simps)
  have pend: "lookup ?f (pending_dir d) = Some Dir" using assms(1) by (simp add: migration_ready_def)
  obtain s1 where s1: "none_exists [pending_dir d, processing_dir d, spendable_dir d] s0 = (Ok False, s1)"
    "calm s1" "tree s1 = ?f" "tracked s1 = tracked s" "cfg (persister s1) = cfg (persister s0)"
    "tmp_file_counter (persister s1) = tmp_file_counter (persister s0)"
    using none_exists_calm [of s0 "[pending_dir d, processing_dir d, spendable_dir d]"] r0 pend
    by (auto simp: migration_ready_def)
  define s2 where "s2 = put_tree ?f s1"
  have n2: "now_at s1 ?f s2" by (simp add: s2_def)
  have r2: "migration_ready env d s2" "tree s2 = ?f" "tracked s2 = tracked s"
    using n2 r0(1,2) s1 by (simp_all add: now_at_def migration_ready_def store_ready_def)
  obtain s3 where s3: "bind_st (move_pending (processing_dir d) (children ?f (pending_dir d)))
      (\<lambda>_. concatenate_pending env (processing_dir d)) s2 = (Ok (), s3)" "calm s3" "tracked s3 = tracked s"
    "lookup (tree s3) (pending_dir d) = Some Dir"
    "lookup (tree s3) (spendable_dir d) = (if b = [] then lookup ?f (spendable_dir d) else Some Dir)"
    "children (tree s3) (spendable_dir d) = children ?f (spendable_dir d) @ (if b = [] then [] else [?new])"
    "\<forall>p \<in> set (children ?f (spendable_dir d)). content_at (tree s3) p = content_at ?f p"
    "b \<noteq> [] \<Longrightarrow> content_at (tree s3) ?new = Some b"
    using gather_calm [OF r2(1) assms(5)] assms(2) r2(2,3) by (auto simp: Let_def b_def)
  have dir: "lookup (tree s3) (spendable_dir d) = Some Dir" using s3(5) assms(3) by (auto simp: b_def)
  have kept: "list_all (readable env ?f) (children ?f (spendable_dir d))"
    and rest: "list_all (readable env ?f) (children ?f (processing_dir d) @ pending_files ?f d)"
    using assms(2) by (simp_all add: old_files_def)
  note all = read_bytes_of [OF assms(4) rest, folded b_def]
  have here: "outputs_in env (tree s3) (children ?f (spendable_dir d)) = outputs_in env ?f (children ?f (spendable_dir d))"
    by (rule outputs_in_cong) (use s3(7) in simp)
  have ok: "list_all (readable env (tree s3)) (children (tree s3) (spendable_dir d))"
    using kept s3(6-8) all by (auto simp: list_all_iff readable_def)
  have value_: "outputs_in env (tree s3) (children (tree s3) (spendable_dir d)) = outputs_in env ?f (old_files ?f d)"
  proof (cases "b = []")
    case True
    then show ?thesis using s3(6) here all
      by (simp add: old_files_def read_descriptors.simps [of _ "[]"])
  next
    case False
    have "outputs_in env (tree s3) [?new] = outputs_in env ?f (children ?f (processing_dir d) @ pending_files ?f d)"
      using s3(8) [OF False] all unfolding outputs_in_def by simp
    then show ?thesis using s3(6) here False by (simp add: old_files_def)
  qed
  define s4 where "s4 = put_tree (tree s3) s3"
  have s4: "calm s4" "tree s4 = tree s3" "tracked s4 = tracked s" using s3(3) by (simp_all add: s4_def sweep_simps)
  obtain s5 where s5: "read_files env (children (tree s3) (spendable_dir d)) [] s4 =
      (Ok (outputs_in env ?f (old_files ?f d)), s5)" "tree s5 = tree s3" "calm s5" "tracked s5 = tracked s"
    using read_files_outputs [OF s4(1), of env] ok s4(2,3) value_ by metis
  define g where "g = snd (fs_remove_tree (spendable_dir d) (tree s3))"
  define h where "h = snd (fs_remove_tree (pending_dir d) g)"
  have g: "fs_remove_tree (spendable_dir d) (tree s3) = (Ok (), g)" "lookup g (pending_dir d) = Some Dir"
    "lookup g (spendable_dir d) = None"
    using remove_tree_Dir [OF dir] s3(4) by (auto simp: g_def intro: prod_eqI)
  have h: "fs_remove_tree (pending_dir d) g = (Ok (), h)" "lookup h (pending_dir d) = None" "lookup h (spendable_dir d) = None"
    using remove_tree_Dir [OF g(2)] g(3) by (auto simp: h_def intro: prod_eqI)
  have height: "spend_height env = Ok (sweeper_height env + 2)" using assms(7) by (simp add: spend_height_def)
  show ?thesis
    using s1 pend s3(1,2) dir s5 g h height assms(6)
    unfolding migrate_deprecated_spendable_outputs_def
    by (simp add: bind_st_def return_st_def lift_st_def log_info_def Let_def s0_def [symmetric] s2_def [symmetric]
        s4_def [symmetric] track_spendable_outputs_def sweep_simps del: none_exists.simps)
qed

text \<open>Files in all three directories, one of them without a name of 64 characters.\<close>

definition half_migrated :: "u8 sweep_state" where
  "half_migrated = sample_sweep
     [([''data''], Dir), (pending_dir [''data''], Dir), (processing_dir [''data''], Dir), (spendable_dir [''data''], Dir),
      (pending_dir [''data''] @ [replicate 64 (CHR ''a'')], File 1), (pending_dir [''data''] @ [''note''], File 2),
      (processing_dir [''data''] @ [''b''], File 3), (spendable_dir [''data''] @ [''c''], File 4)]
     [(1, [5]), (2, [0]), (3, [6, 7]), (4, [8])]"

lemma half_migrated_ready: "migration_ready sample_sweeper [''data''] half_migrated"
proof -
  have "replicate 64 CHR ''a'' \<noteq> ''note''" by code_simp
  then have "fs_wf (tree half_migrated)"
    by (auto simp: fs_wf_def half_migrated_def sample_sweep_def tree_def lookup_def store_new_def
        DEPRECATED_PENDING_SPENDABLE_OUTPUT_DIR_def split: if_splits)
  moreover have "calm half_migrated" "tree_ok (tree half_migrated)"
    "list_all (\<lambda>p. lookup (tree half_migrated) (into [''data''] p) = None) (pending_files (tree half_migrated) [''data''])"
    "lookup (tree half_migrated) (pending_dir [''data'']) = Some Dir"
    "lookup (tree half_migrated) (processing_dir [''data'']) = Some Dir"
    "lookup (tree half_migrated) (spendable_dir [''data'']) = Some Dir"
    by code_simp+
  moreover have "store_ready sample_sweeper [''data''] half_migrated" unfolding store_ready_def alphabet_ok_def by code_simp
  ultimately show ?thesis by (simp add: migration_ready_def)
qed

lemma sample_streaming: "streaming (read_descriptor sample_sweeper)"
  by (auto simp: streaming_def sample_sweeper_def split: list.splits)

theorem migration_tracks_all_outputs_witness:
  "case migrate_deprecated_spendable_outputs sample_sweeper [''data''] half_migrated of (r, s') \<Rightarrow> r = Ok () \<and>
     tracked s' = [([8, 6, 7, 5], 102)] \<and>
     lookup (tree s') (pending_dir [''data'']) = None \<and> lookup (tree s') (spendable_dir [''data'']) = None"
proof -
  have f: "list_all (readable sample_sweeper (tree half_migrated)) (old_files (tree half_migrated) [''data''])"
    "outputs_in sample_sweeper (tree half_migrated) (old_files (tree half_migrated) [''data'']) = [8, 6, 7, 5]"
    "lookup (tree half_migrated) (spendable_dir [''data'']) = Some Dir" "tracked half_migrated = []"
    by code_simp+
  have e: "without_length sample_sweeper = id" "sweeper_accepts sample_sweeper" "unat (sweeper_height sample_sweeper) + 2 < 2 ^ 32"
    "sweeper_height sample_sweeper + 2 = 102" by (simp_all add: sample_sweeper_def id_def)
  from migration_tracks_all_outputs [OF half_migrated_ready f(1) disjI1 [OF f(3)] sample_streaming e(1-3)]
  show ?thesis unfolding f(2,4) e(4) by simp
qed

end
