(* ===== verification/Shutdown.thy ===== *)
theory Shutdown imports Fs_Store_Props begin

text \<open>
  The end of \<open>start_ldk\<close> in \<open>src/src/main.rs\<close>: what happens once the command loop or the
  background processor has ended. The processor is a spawned task, so what it ends with is a result of
  its own in the result of the task: the task's error stands for a cancelled or panicked task, the inner
  one for an error of the processor, such as a failed write.
\<close>

section \<open>State\<close>

datatype join_error = Cancelled | Panicked

type_synonym bg_result = "(join_error, (io_error, unit) outcome) outcome"

datatype exit_cause = Cli_ended | Background_ended bg_result

record shutdown_state =
  manager_store :: kvstore
  stop_listen_connect :: bool
  connected :: "bytes list"
  errors_logged :: nat

record shutdown_env =
  manager_encoding :: bytes
  manager_namespace :: "string \<times> string \<times> string"
  exit_channel_closed :: bool
  background_rest :: bg_result

type_synonym 'a shutdown = "(shutdown_state, unit, 'a) st"

section \<open>Operations\<close>

text \<open>
  The result the code keeps: the one of the processor when that ended first, a success when the
  command loop did.
\<close>

fun bg_res_of :: "exit_cause \<Rightarrow> bg_result" where
  "bg_res_of Cli_ended = Ok (Ok ())"
| "bg_res_of (Background_ended r) = r"

definition stop_peers :: "unit shutdown" where
  "stop_peers s = (Ok (), s\<lparr>stop_listen_connect := True, connected := []\<rparr>)"

definition last_ditch :: "shutdown_env \<Rightarrow> unit shutdown" where
  "last_ditch env s =
     (case manager_namespace env of (prim, sec, key) \<Rightarrow>
        (case kv_write prim sec key (manager_encoding env) (manager_store s) of
           (Ok _, kv) \<Rightarrow>
             (Panic ''ERR: background processing stopped, exiting.'',
              s\<lparr>manager_store := kv, errors_logged := Suc (errors_logged s)\<rparr>)
         | (Err e, kv) \<Rightarrow> (Panic ''called `Result::unwrap()` on an `Err` value'', s\<lparr>manager_store := kv\<rparr>)
         | (Panic m, kv) \<Rightarrow> (Panic m, s\<lparr>manager_store := kv\<rparr>)))"

text \<open>
  Stopping the processor: it is told to exit and awaited when it still listens. Both results are
  unwrapped.
\<close>

definition stop_background :: "shutdown_env \<Rightarrow> unit shutdown" where
  "stop_background env =
     (if exit_channel_closed env then return_st ()
      else bind_st (lift_st (unwrap_res (background_rest env))) (\<lambda>r. lift_st (unwrap_res r)))"

definition shut_down :: "shutdown_env \<Rightarrow> exit_cause \<Rightarrow> unit shutdown" where
  "shut_down env cause =
     bind_st stop_peers (\<lambda>_.
     case bg_res_of cause of
       Err e \<Rightarrow> last_ditch env
     | Panic m \<Rightarrow> lift_st (Panic m)
     | Ok _ \<Rightarrow> stop_background env)"

section \<open>Properties\<close>

lemma last_ditch_persists:
  assumes "store_inv (manager_store s)" "last_ditch env s = (r, s')"
  shows "is_panic r \<and> connected s' = connected s \<and>
    kv_get (manager_store s') \<in> {kv_get (manager_store s),
      (kv_get (manager_store s))(manager_namespace env \<mapsto> manager_encoding env)}"
proof -
  obtain p n k where ns: "manager_namespace env = (p, n, k)" by (cases "manager_namespace env")
  obtain q kv where w: "kv_write p n k (manager_encoding env) (manager_store s) = (q, kv)" by fastforce
  have "kv_put (p, n, k) (manager_encoding env) (manager_store s) = (q, kv)" using w by simp
  from fs_kv.put_cases [OF assms(1) this] assms(2) w ns show ?thesis
    by (cases q) (auto simp: last_ditch_def)
qed

text \<open>
  C32. The last attempt to persist the channel manager is made only when the task of the background
  processor failed, never when the processor itself did. When it ends because of an error, such as a
  failed write, nothing is written and the node ends as if all were well; when the task failed, the node
  panics, with the manager's encoding under its key or the store as it was.
\<close>

theorem last_ditch_only_for_failed_task:
  assumes "store_inv (manager_store s)" "exit_channel_closed env"
    and "shut_down env (Background_ended res) s = (r, s')" "\<not> is_panic res"
  shows "connected s' = [] \<and>
    (case res of
       Ok processor \<Rightarrow> r = Ok () \<and> manager_store s' = manager_store s
     | Err e \<Rightarrow> is_panic r \<and> kv_get (manager_store s') \<in> {kv_get (manager_store s),
         (kv_get (manager_store s))(manager_namespace env \<mapsto> manager_encoding env)}
     | Panic m \<Rightarrow> False)"
proof (cases res)
  case (Err e)
  let ?s = "s\<lparr>stop_listen_connect := True, connected := []\<rparr>"
  have "last_ditch env ?s = (r, s')" using assms(3) Err by (simp add: shut_down_def stop_peers_def bind_st_def)
  from last_ditch_persists [OF _ this] assms(1) Err show ?thesis by simp
qed (use assms in \<open>auto simp: shut_down_def stop_peers_def bind_st_def stop_background_def return_st_def\<close>)

definition sample_shutdown :: shutdown_env where
  "sample_shutdown = \<lparr>manager_encoding = [1, 2], manager_namespace = manager_key, exit_channel_closed = True,
     background_rest = Ok (Ok ())\<rparr>"

definition sample_running :: shutdown_state where
  "sample_running = \<lparr>manager_store = sample_store [], stop_listen_connect = False, connected = [[1]], errors_logged = 0\<rparr>"

theorem last_ditch_only_for_failed_task_witness:
  "manager_store (snd (shut_down sample_shutdown (Background_ended (Ok (Err (OtherError ''disk full'')))) sample_running)) =
     sample_store [] \<and>
   is_panic (fst (shut_down sample_shutdown (Background_ended (Err Panicked)) sample_running))"
  using last_ditch_only_for_failed_task [OF _ _ surjective_pairing, of sample_running sample_shutdown
      "Ok (Err (OtherError ''disk full''))"]
    last_ditch_only_for_failed_task [OF _ _ surjective_pairing, of sample_running sample_shutdown "Err Panicked"]
  by (simp add: sample_shutdown_def sample_running_def sample_store_inv)

end
