(* ===== verification/Spec2Isabelle.thy ===== *)
theory Spec2Isabelle imports Boot Two_Stores Store_Order Tasks Logger Solutions_Client Workshop Migration Shutdown begin

text \<open>
  A verification library of the Lightning node in \<open>src/src\<close>, a Rust program around the
  library \<open>lightning\<close> (LDK).

  Parts of the program and how they interact. \<open>main.rs\<close> starts the node: it reads the command
  line (\<open>args.rs\<close>), checks bitcoind's network, obtains the seed of the keys, loads the payment
  tables, migrates outputs of older versions (\<open>sweep.rs\<close>) and hands the events of the library to
  \<open>handle_ldk_events\<close>; \<open>cli.rs\<close> reads commands. Events and commands change the payment
  tables and persist them through \<open>filesystem_store.rs\<close>. \<open>disk.rs\<close> keeps the file of
  channel peers that a task of \<open>main.rs\<close> reconnects to; \<open>bitcoind_client.rs\<close> polls fee
  estimates, which \<open>convert.rs\<close> reads from JSON, into a table that every fee reader shares. The
  tasks run side by side in one process, which a panic in any of them ends. \<open>commands.rs\<close>,
  \<open>events.rs\<close>, \<open>networking.rs\<close>, \<open>keys_manager.rs\<close>, \<open>internal\<close>, \<open>intro\<close> and
  \<open>solutions\<close> are the exercises of a workshop on this node, with their stand-ins.

  Theories, in the order of their imports.
  \<^item> \<open>Prelude\<close>: machine types, outcomes (value, error, panic), stateful computations with
    their triples, association lists for \<open>HashMap\<close>, and two generic interfaces, a system
    with an invariant and a codec. \<open>Rust_Str\<close>: the string functions of the standard library.
  \<^item> \<open>Hex_Utils\<close>: \<open>hex_utils.rs\<close>; the round trip, exact success and the digit that
    is dropped.
  \<^item> \<open>Bitcoind_Client\<close>: \<open>bitcoind_client.rs\<close>; construction, one iteration of the fee
    polling as a step function whose stores interleave with readers, and the broadcast tasks.
  \<^item> \<open>Fs\<close>: a file system with directory entries and inodes, a volatile and a durable copy,
    scheduled faults and power loss; the tests \<open>is_file\<close> and \<open>exists\<close> are calls that can fail,
    and then answer \<open>false\<close>. \<open>Fs_Store\<close>: \<open>filesystem_store.rs\<close> on it, one
    definition per method, one step per system call. \<open>Fs_Store_Correct\<close> proves the calls
    against the map the store stands for and interprets the locale of a key-value store;
    \<open>Fs_Store_Props\<close> and \<open>Fs_Store_Crash\<close> state what the store promises without
    faults, with faults, and after power loss. A removal or a list whose test failed returns
    \<open>Ok\<close> and does nothing, or lists nothing; the theorems state both cases. \<open>Store_Calls\<close> cuts \<open>write\<close> into the steps
    between which another thread may run, and \<open>Store_Threads\<close> interleaves any number of calls: no
    key ever holds a part of a value. \<open>Store_Access\<close> does the same for \<open>read\<close> and
    \<open>remove\<close>, and \<open>Store_Shared\<close> mixes all three: what a read may return, and that no
    schedule deadlocks, by the interface of fair schedules in \<open>Fair_Runs\<close>. \<open>Store_Order\<close>
    shows that the calls are linearizable. \<open>Two_Stores\<close>: the event handler
    writes through one store and the command loop through another on the same directory; how that
    breaks the promise.
  \<^item> \<open>Payments\<close>: the payment tables of \<open>main.rs\<close>, their files and what startup does to
    them. \<open>Wire\<close>: one codec for the tables, for the witnesses.
  \<^item> \<open>Events\<close>: \<open>handle_ldk_events\<close> and the tasks it spawns. \<open>Event_Props\<close>: an
    abstract account of tables and files, the proof that the handler implements it, and what
    survives a restart.
  \<^item> \<open>Cli_Payments\<close>, \<open>Peers\<close>, \<open>Cli_Display\<close>, \<open>Cli\<close>: \<open>cli.rs\<close> with
    the peer file of \<open>disk.rs\<close> and the reconnection task of \<open>main.rs\<close>. The state is the
    tables with their store, the text on the screen, the calls made into the library in their
    order, and the connected peers.

  \<^item> \<open>Args\<close>, \<open>Args_Props\<close>: \<open>args.rs\<close> over a record of the process environment;
    a configuration written as arguments is read back, and which source of credentials counts.
  \<^item> \<open>Convert\<close>: \<open>convert.rs\<close> with JSON values and the arithmetic on doubles it uses; how
    far a fee rate can be off, and what makes the polling task panic.
  \<^item> \<open>Startup\<close>: \<open>start_ldk\<close> up to the seed, and the single requests of
    \<open>bitcoind_client.rs\<close>; when the seed survives a restart and when it does not.
    \<open>Node_Start\<close>: \<open>start_ldk\<close> from the seed to the peer manager, with \<open>read_network\<close> and
    \<open>read_scorer\<close> of \<open>disk.rs\<close>; which channel monitors a start watches. \<open>Boot\<close>: the
    whole start, up to the running node.
  \<^item> \<open>Kept_Records\<close>, \<open>Runtime\<close>, \<open>Runtime_Props\<close>: the running node. The event task,
    the command loop and the background processor as interleaved steps on the shared tables, each with
    the store it has in the program, and the disk that the two stores share; an invariant on memory, files and sent payments that every step keeps; what follows for a
    restart, and the one race that the program has. \<open>boot_starts_runtime\<close> shows that a start ends
    in a state from which these theorems hold.
  \<^item> \<open>Tasks\<close>: the other tasks, which share the stop flag: listener, inbound connections, chain
    polling, wallet sync, reconnection, announcements, and the connections that events and commands ask
    for, which do not look at the flag; what happens after the stop, and which errors end the node.
  \<^item> \<open>Sweep\<close>: \<open>sweep.rs\<close> on the file system of the store. \<open>Migration\<close>: the whole migration
    without faults, over files in all three directories: the sweeper gets every output.
  \<^item> \<open>Wallet\<close>: \<open>onchain_wallet.rs\<close> over the operations of \<open>bdk_wallet\<close>; the fee
    rate of a funding transaction, against the polled table, and the outputs that are offered.
  \<^item> \<open>Shutdown\<close>: the end of \<open>start_ldk\<close>, and when the channel manager is persisted there.
  \<^item> \<open>Logger\<close>: \<open>logger.rs\<close> on the disk of the stores.
  \<^item> \<open>Solutions_Client\<close>: \<open>solutions/bitcoind_client.rs\<close>, a client that is also a wallet,
    call by call; that it polls as the node's client does, how it broadcasts, at what rate it funds.
  \<^item> \<open>Workshop_Mocks\<close>, \<open>Workshop\<close>: the stand-ins and the exercises; that paying in the
    exercise leaves the table that the node leaves, and that the stand-in of the store is its abstraction.

  Conventions. A method is a function from its state to an outcome and the state after it. A panic
  is an outcome of its own; the crate is built with \<open>panic = "abort"\<close>. A \<open>HashMap\<close> is an
  association list whose order the theorems do not rely on. Public keys, hashes and ids are byte
  strings. What \<open>lightning\<close>, \<open>secp256k1\<close>, the name resolver and \<open>bitcoind\<close> answer is
  in the records \<open>ldk_env\<close>, \<open>cli_env\<close> and \<open>shell_env\<close>, or an argument.

  Fuel. Only the command loop takes fuel, one unit for each line it reads: \<open>poll_terminates\<close>
  shows that the number of lines and one more are enough when no line asks for a confirmation, and
  \<open>offer_confirmation_never_returns\<close> that no fuel is enough for the confirmation of an offer.
  The loop over the descriptors of a file ends because a descriptor takes at least one byte.

  The tasks of \<open>Runtime\<close> and \<open>Tasks\<close> and the threads of \<open>Store_Threads\<close> take no fuel:
  a run is a list of steps. A write ends after at most 15 steps and one for each directory above its file, a read or a
  removal after at most 10.

  Not modelled. Time: intervals and sleeps are only an order of steps. The constructors of
  \<open>lightning\<close>, the P2P gossip verifier and the dummy signal handler of \<open>main\<close> take no decision
  of the program's own. A command is one step of the running node, apart from the payment of an offer;
  the others hold the mutex of their table from the insert to the last write of it, so that nothing that
  concerns the tables can happen in between; their output can be mixed with that of other tasks.
  The event handler and the commands take what the wallet gives as parameters, which \<open>Wallet\<close>
  describes on its own. The TLV encoding of the tables is generated by a macro of \<open>lightning\<close>, and
  the theorems hold for every codec. Of the workshop, the stand-ins that hold nothing, the tests and
  \<open>solutions/logger.rs\<close>, which is \<open>logger.rs\<close>, are left out. Writes, reads and
  removals are interleaved with each other at their system calls; a list is a single step. In
  \<open>Runtime\<close> a call of a store is part of one step: the files of the tables are written under the
  mutexes of the tables, but for the write of an offer, so a run with offers stands for the schedules
  in which that write overlaps no other of its file; \<open>Two_Stores\<close> has the others. The separate calls that a
  recursive removal makes for every entry, directory iteration errors and Unicode white space are not
  modelled either.
\<close>

end
